(* ===== verification/Prelude.thy ===== *)
theory Prelude
  imports Main "HOL-Library.Word" "HOL-Library.Monad_Syntax"
begin

text \<open>
  Shared vocabulary of the development: Go's error values with wrapping and
  \<open>errors.Is\<close> / \<open>errors.As\<close>, instants with the zero \<open>time.Time\<close>, unsigned
  64-bit counters, optional results for operations that can panic, and the generic
  lemmas on lists and options that the component theories rely on.
\<close>

section \<open>Collections of rewrite and introduction rules\<close>

named_theorems frame_simps \<open>what an operation leaves alone\<close>
named_theorems inv_intros \<open>preservation of component invariants\<close>

type_synonym uint64 = "64 word"
type_synonym duration = int

section \<open>Instants\<close>

text \<open>
  \<open>time.Time\<close> as the sources use it: the zero value (asked for with \<open>IsZero\<close>)
  and instants on one clock, in nanoseconds. The zero value is the year 1, before any
  reading of the clock, so \<open>Before\<close> is the order below.
\<close>

datatype gotime = Zero_Time | At int

instantiation gotime :: linorder
begin

definition less_eq_gotime :: "gotime \<Rightarrow> gotime \<Rightarrow> bool" where
  "less_eq_gotime a b \<longleftrightarrow>
     (case a of Zero_Time \<Rightarrow> True
      | At x \<Rightarrow> (case b of Zero_Time \<Rightarrow> False | At y \<Rightarrow> x \<le> y))"

definition less_gotime :: "gotime \<Rightarrow> gotime \<Rightarrow> bool" where
  "less_gotime (a::gotime) b \<longleftrightarrow> a \<le> b \<and> \<not> b \<le> a"

instance
proof
  fix a b c :: gotime
  show "(a < b) = (a \<le> b \<and> \<not> b \<le> a)" by (simp add: less_gotime_def)
  show "a \<le> a" by (simp add: less_eq_gotime_def split: gotime.split)
  show "a \<le> b \<Longrightarrow> b \<le> c \<Longrightarrow> a \<le> c"
    by (auto simp: less_eq_gotime_def split: gotime.splits)
  show "a \<le> b \<Longrightarrow> b \<le> a \<Longrightarrow> a = b"
    by (auto simp: less_eq_gotime_def split: gotime.splits)
  show "a \<le> b \<or> b \<le> a"
    by (auto simp: less_eq_gotime_def split: gotime.splits)
qed

end

lemma gotime_less_simps [simp]:
  "At x < At y \<longleftrightarrow> x < y" "Zero_Time < At y" "\<not> a < Zero_Time"
  "At x \<le> At y \<longleftrightarrow> x \<le> y" "Zero_Time \<le> a" "\<not> At x \<le> Zero_Time"
  by (auto simp: less_gotime_def less_eq_gotime_def split: gotime.splits)

fun time_add :: "gotime \<Rightarrow> duration \<Rightarrow> gotime" where
  "time_add Zero_Time d = Zero_Time"
| "time_add (At x) d = At (x + d)"

section \<open>Errors\<close>

text \<open>
  An error value is a sentinel (compared by identity), an opaque error with a message,
  an error that implements \<open>net.Error\<close> (with its \<open>Timeout()\<close> answer and what it
  wraps), or the result of \<open>fmt.Errorf\<close> with \<open>%w\<close> (its full message and the
  wrapped error).
\<close>

datatype gerr =
    Err_NoReady            \<comment> \<open>pool.go: ErrNoReady\<close>
  | Err_UsedIP             \<comment> \<open>pool.go: errUsedIP\<close>
  | Err_FreshRestart       \<comment> \<open>tor.go: errFreshRestart\<close>
  | Err_BootstrapStuck     \<comment> \<open>tor.go: errBootstrapStuck\<close>
  | Err_ServeFailures      \<comment> \<open>tor.go: errServeFailures\<close>
  | Err_ControlClosed      \<comment> \<open>control.go: errControlClosed\<close>
  | Err_TestActive         \<comment> \<open>loadtest.go: errTestActive\<close>
  | Err_ServerClosed       \<comment> \<open>http.ErrServerClosed\<close>
  | Ctx_Canceled           \<comment> \<open>context.Canceled\<close>
  | Ctx_DeadlineExceeded   \<comment> \<open>context.DeadlineExceeded\<close>
  | Err_Text string        \<comment> \<open>errors.New, fmt.Errorf without a wrapped error, or opaque\<close>
  | Err_Net string bool "gerr option"
  | Err_Wrap string gerr

fun error_text :: "gerr \<Rightarrow> string" where
  "error_text Err_NoReady = ''no unused, verified IP is ready''"
| "error_text Err_UsedIP = ''IP was already used''"
| "error_text Err_FreshRestart = ''used-IP retry limit reached; rebuilding this Tor instance from scratch''"
| "error_text Err_BootstrapStuck = ''bootstrap did not finish; rebuilding this Tor instance from scratch''"
| "error_text Err_ServeFailures = ''consecutive serving failures; rebuilding this Tor instance from scratch''"
| "error_text Err_ControlClosed = ''Tor control connection closed''"
| "error_text Err_TestActive = ''a test is already running or stopping''"
| "error_text Err_ServerClosed = ''http: Server closed''"
| "error_text Ctx_Canceled = ''context canceled''"
| "error_text Ctx_DeadlineExceeded = ''context deadline exceeded''"
| "error_text (Err_Text m) = m"
| "error_text (Err_Net m t c) = m"
| "error_text (Err_Wrap m e) = m"

text \<open>\<open>errors.Is\<close>: the error itself or one that it wraps is the target.\<close>

fun errors_is :: "gerr \<Rightarrow> gerr \<Rightarrow> bool" where
  "errors_is (Err_Wrap m e) t \<longleftrightarrow> Err_Wrap m e = t \<or> errors_is e t"
| "errors_is (Err_Net m b (Some e)) t \<longleftrightarrow> Err_Net m b (Some e) = t \<or> errors_is e t"
| "errors_is e t \<longleftrightarrow> e = t"

text \<open>
  \<open>errors.As\<close> with a \<open>net.Error\<close> target followed by \<open>Timeout()\<close>: the first
  error of the chain that implements \<open>net.Error\<close> answers. \<open>context.DeadlineExceeded\<close>
  implements it, with \<open>Timeout() = true\<close>.
\<close>

fun net_timeout :: "gerr \<Rightarrow> bool" where
  "net_timeout Ctx_DeadlineExceeded \<longleftrightarrow> True"
| "net_timeout (Err_Net m b c) \<longleftrightarrow> b"
| "net_timeout (Err_Wrap m e) \<longleftrightarrow> net_timeout e"
| "net_timeout _ \<longleftrightarrow> False"

text \<open>An optional error compared with a target; \<open>errors.Is(nil, target)\<close> is false.\<close>

definition err_is :: "gerr option \<Rightarrow> gerr \<Rightarrow> bool" where
  "err_is e t \<longleftrightarrow> (case e of None \<Rightarrow> False | Some x \<Rightarrow> errors_is x t)"

lemma err_is_simps [simp]: "\<not> err_is None t" "err_is (Some e) t \<longleftrightarrow> errors_is e t"
  by (simp_all add: err_is_def)

lemma errors_is_refl [simp]: "errors_is e e"
proof (cases e)
  case (Err_Net m b c)
  then show ?thesis by (cases c) auto
qed auto

section \<open>Lists\<close>

lemma nth_update_if:
  "i < length xs \<Longrightarrow> (xs[j := v]) ! i = (if i = j then v else xs ! i)"
  by (auto simp: nth_list_update)

lemma list_update_self_neq: "i \<noteq> j \<Longrightarrow> (xs[i := v]) ! j = xs ! j"
  by simp

text \<open>Index lists in cyclic order, starting at \<open>k\<close>, as the scans of the pool visit them.\<close>

definition cyclic :: "nat \<Rightarrow> nat \<Rightarrow> nat list" where
  "cyclic n k = map (\<lambda>offset. (k + offset) mod n) [0..<n]"

lemma length_cyclic [simp]: "length (cyclic n k) = n"
  by (simp add: cyclic_def)

lemma set_cyclic: "set (cyclic n k) = {..<n}"
proof (cases "n = 0")
  case False
  show ?thesis
  proof
    show "set (cyclic n k) \<subseteq> {..<n}" using False by (auto simp: cyclic_def)
    show "{..<n} \<subseteq> set (cyclic n k)"
    proof
      fix i assume "i \<in> {..<n}"
      then have i: "i < n" by simp
      define d where "d = (i + n - k mod n) mod n"
      have kn: "k mod n \<le> n" using False by (simp add: less_imp_le)
      have "(k + d) mod n = (k mod n + (i + n - k mod n)) mod n"
        unfolding d_def by (metis mod_add_left_eq mod_add_right_eq)
      also have "\<dots> = (i + n) mod n" using kn by simp
      also have "\<dots> = i" using i by simp
      finally have "(k + d) mod n = i" .
      moreover have "d < n" using False by (simp add: d_def)
      ultimately show "i \<in> set (cyclic n k)" by (auto simp: cyclic_def image_iff)
    qed
  qed
qed (simp add: cyclic_def)

section \<open>Option-valued operations\<close>

text \<open>\<open>None\<close> is a run-time panic of the Go code (index out of range, close of a closed channel).\<close>

lemma bind_eq_SomeE:
  assumes "Option.bind x f = Some y"
  obtains a where "x = Some a" and "f a = Some y"
  using assms by (cases x) auto

lemma if_None_Some_iff [simp]:
  "(if b then None else Some x) = Some y \<longleftrightarrow> \<not> b \<and> x = y"
  "(if b then Some x else None) = Some y \<longleftrightarrow> b \<and> x = y"
  by auto

end
