(* ===== verification/GoStrings.thy ===== *)
theory GoStrings
  imports Prelude "HOL-Library.Sublist" "HOL-Library.Char_ord" "HOL-Library.List_Lexorder"
begin

text \<open>
  Go's \<open>strings\<close> and \<open>strconv\<close> functions that the sources call, on byte strings
  (a HOL \<open>char\<close> is one byte, a Go string is a sequence of bytes). Splitting on white
  space follows \<open>unicode.IsSpace\<close>: the space characters outside ASCII are recognised by
  their UTF-8 byte sequences, and since no continuation byte of UTF-8 starts one of them,
  reading byte by byte finds the same boundaries as decoding rune by rune.
\<close>

section \<open>Bytes\<close>

definition byte :: "nat \<Rightarrow> char" where
  "byte n = char_of n"

definition is_digit :: "char \<Rightarrow> bool" where
  "is_digit c \<longleftrightarrow> 48 \<le> (of_char c :: nat) \<and> (of_char c :: nat) \<le> 57"

definition digit_value :: "char \<Rightarrow> nat" where
  "digit_value c = of_char c - 48"

section \<open>White space: strings.Fields and strings.TrimSpace\<close>

text \<open>Length in bytes of the white-space rune a string starts with, 0 if it starts with none.\<close>

fun space_len :: "nat list \<Rightarrow> nat" where
  "space_len (a # b # c # rest) =
     (if a \<in> {9, 10, 11, 12, 13, 32} then 1
      else if a = 194 \<and> b \<in> {133, 160} then 2
      else if a = 225 \<and> b = 154 \<and> c = 128 then 3
      else if a = 226 \<and> b = 128 \<and> (128 \<le> c \<and> c \<le> 138 \<or> c \<in> {168, 169, 175}) then 3
      else if a = 226 \<and> b = 129 \<and> c = 159 then 3
      else if a = 227 \<and> b = 128 \<and> c = 128 then 3 else 0)"
| "space_len (a # b # []) =
     (if a \<in> {9, 10, 11, 12, 13, 32} then 1
      else if a = 194 \<and> b \<in> {133, 160} then 2 else 0)"
| "space_len (a # []) = (if a \<in> {9, 10, 11, 12, 13, 32} then 1 else 0)"
| "space_len [] = 0"

definition space_prefix :: "string \<Rightarrow> nat" where
  "space_prefix s = space_len (map of_char (take 3 s))"

text \<open>
  \<open>strings.Fields\<close>: \<open>cur\<close> is the field being read, \<open>skip\<close> counts the remaining
  bytes of a multi-byte white-space rune already recognised.
\<close>

fun fields_from :: "nat \<Rightarrow> string \<Rightarrow> string \<Rightarrow> string list" where
  "fields_from skip cur [] = (if cur = [] then [] else [cur])"
| "fields_from (Suc k) cur (c # s) = fields_from k cur s"
| "fields_from 0 cur (c # s) =
     (case space_prefix (c # s) of
        0 \<Rightarrow> fields_from 0 (cur @ [c]) s
      | Suc k \<Rightarrow> (if cur = [] then [] else [cur]) @ fields_from k [] s)"

definition go_fields :: "string \<Rightarrow> string list" where
  "go_fields s = fields_from 0 [] s"

fun trim_left_from :: "nat \<Rightarrow> string \<Rightarrow> string" where
  "trim_left_from skip [] = []"
| "trim_left_from (Suc k) (c # s) = trim_left_from k s"
| "trim_left_from 0 (c # s) =
     (case space_prefix (c # s) of 0 \<Rightarrow> c # s | Suc k \<Rightarrow> trim_left_from k s)"

text \<open>Length of the white-space rune a string ends with (given reversed), 0 if none.\<close>

definition space_suffix_rev :: "string \<Rightarrow> nat" where
  "space_suffix_rev r =
     (if 1 \<le> length r \<and> space_prefix (rev (take 1 r)) = 1 then 1
      else if 2 \<le> length r \<and> space_prefix (rev (take 2 r)) = 2 then 2
      else if 3 \<le> length r \<and> space_prefix (rev (take 3 r)) = 3 then 3 else 0)"

fun trim_right_rev :: "nat \<Rightarrow> string \<Rightarrow> string" where
  "trim_right_rev skip [] = []"
| "trim_right_rev (Suc k) (c # s) = trim_right_rev k s"
| "trim_right_rev 0 (c # s) =
     (case space_suffix_rev (c # s) of 0 \<Rightarrow> c # s | Suc k \<Rightarrow> trim_right_rev k s)"

definition trim_space :: "string \<Rightarrow> string" where
  "trim_space s = rev (trim_right_rev 0 (rev (trim_left_from 0 s)))"

section \<open>strings.Split, Cut, Join, ContainsAny, HasPrefix, TrimPrefix, HasSuffix\<close>

text \<open>Splitting at a one-byte separator (the sources use a comma and a newline).\<close>

fun split_on :: "char \<Rightarrow> string \<Rightarrow> string list" where
  "split_on sep [] = [[]]"
| "split_on sep (c # s) =
     (if c = sep then [] # split_on sep s
      else (case split_on sep s of [] \<Rightarrow> [[c]] | w # ws \<Rightarrow> (c # w) # ws))"

fun join_with :: "string \<Rightarrow> string list \<Rightarrow> string" where
  "join_with sep [] = []"
| "join_with sep [w] = w"
| "join_with sep (w # v # ws) = w @ sep @ join_with sep (v # ws)"

definition contains_any :: "string \<Rightarrow> string \<Rightarrow> bool" where
  "contains_any s chars \<longleftrightarrow> list_ex (\<lambda>c. c \<in> set chars) s"

definition has_prefix :: "string \<Rightarrow> string \<Rightarrow> bool" where
  "has_prefix s pre \<longleftrightarrow> take (length pre) s = pre"

definition trim_prefix :: "string \<Rightarrow> string \<Rightarrow> string" where
  "trim_prefix s pre = (if has_prefix s pre then drop (length pre) s else s)"

definition has_suffix :: "string \<Rightarrow> string \<Rightarrow> bool" where
  "has_suffix s suf \<longleftrightarrow> length suf \<le> length s \<and> drop (length s - length suf) s = suf"

text \<open>Does \<open>needle\<close> occur in the string? SQLite's \<open>instr(hay, needle) > 0\<close>; true for an empty needle.\<close>

fun contains_sub :: "string \<Rightarrow> string \<Rightarrow> bool" where
  "contains_sub [] needle \<longleftrightarrow> needle = []"
| "contains_sub (c # s) needle \<longleftrightarrow> has_prefix (c # s) needle \<or> contains_sub s needle"

text \<open>
  \<open>strings.ToLower\<close>, as far as its only use (a test for an ASCII suffix) can tell:
  ASCII letters, and the two runes outside ASCII whose lower case is an ASCII letter
  (U+0130, bytes C4 B0, to i; U+212A, bytes E2 84 AA, to k). Every other rune outside ASCII
  maps to runes outside ASCII and is left as it is here.
\<close>

definition lower_ascii :: "char \<Rightarrow> char" where
  "lower_ascii c =
     (let n = (of_char c :: nat) in if 65 \<le> n \<and> n \<le> 90 then char_of (n + 32) else c)"

fun to_lower :: "string \<Rightarrow> string" where
  "to_lower (a # b # c # s) =
     (if (of_char a :: nat) = 196 \<and> (of_char b :: nat) = 176 then CHR ''i'' # to_lower (c # s)
      else if (of_char a :: nat) = 226 \<and> (of_char b :: nat) = 132 \<and> (of_char c :: nat) = 170
        then CHR ''k'' # to_lower s
      else lower_ascii a # to_lower (b # c # s))"
| "to_lower [a, b] =
     (if (of_char a :: nat) = 196 \<and> (of_char b :: nat) = 176 then [CHR ''i'']
      else [lower_ascii a, lower_ascii b])"
| "to_lower [a] = [lower_ascii a]"
| "to_lower [] = []"

section \<open>strconv\<close>

datatype num_error = Err_Syntax | Err_Range

definition max_uint64 :: int where "max_uint64 = 18446744073709551615"
definition max_int64 :: int where "max_int64 = 9223372036854775807"
definition min_int64 :: int where "min_int64 = -9223372036854775808"

text \<open>\<open>strconv.ParseUint(s, 10, 64)\<close>: value and error; on overflow the value is clamped.\<close>

fun parse_uint_loop :: "int \<Rightarrow> string \<Rightarrow> int \<times> num_error option" where
  "parse_uint_loop n [] = (n, None)"
| "parse_uint_loop n (c # s) =
     (if \<not> is_digit c then (0, Some Err_Syntax)
      else let n' = 10 * n + int (digit_value c)
           in if n' > max_uint64 then (max_uint64, Some Err_Range) else parse_uint_loop n' s)"

definition parse_uint :: "string \<Rightarrow> int \<times> num_error option" where
  "parse_uint s = (if s = [] then (0, Some Err_Syntax) else parse_uint_loop 0 s)"

text \<open>\<open>strconv.Atoi\<close> (64-bit \<open>int\<close>): an optional sign, then \<open>ParseUint\<close>; clamped when out of range.\<close>

definition atoi :: "string \<Rightarrow> int \<times> num_error option" where
  "atoi s =
     (case s of [] \<Rightarrow> (0, Some Err_Syntax)
      | c # rest \<Rightarrow>
          let neg = (c = CHR ''-'');
              digits = (if c = CHR ''-'' \<or> c = CHR ''+'' then rest else s)
          in (case parse_uint digits of
                (n, Some Err_Syntax) \<Rightarrow> (0, Some Err_Syntax)
              | (n, e) \<Rightarrow>
                  (if \<not> neg \<and> n > max_int64 then (max_int64, Some Err_Range)
                   else if neg \<and> n > max_int64 + 1 then (min_int64, Some Err_Range)
                   else ((if neg then - n else n), None))))"

text \<open>\<open>strconv.Itoa\<close> of a non-negative number.\<close>

definition digit_char :: "nat \<Rightarrow> char" where
  "digit_char d = char_of (48 + d)"

fun itoa :: "nat \<Rightarrow> string" where
  "itoa n = (if n < 10 then [digit_char n] else itoa (n div 10) @ [digit_char (n mod 10)])"

declare itoa.simps [simp del]

section \<open>Round trip of decimal numerals\<close>

lemma digit_char_digit [simp]: "d < 10 \<Longrightarrow> is_digit (digit_char d)"
  by (simp add: is_digit_def digit_char_def)

lemma digit_char_value [simp]: "d < 10 \<Longrightarrow> digit_value (digit_char d) = d"
  by (simp add: digit_value_def digit_char_def)

lemma parse_uint_loop_append:
  "parse_uint_loop n s = (m, None) \<Longrightarrow> parse_uint_loop n (s @ t) = parse_uint_loop m t"
  by (induction n s rule: parse_uint_loop.induct) (auto simp: Let_def split: if_splits)

lemma itoa_not_Nil [simp]: "itoa n \<noteq> []"
  by (subst itoa.simps) auto

lemma parse_uint_loop_itoa:
  "int n \<le> max_uint64 \<Longrightarrow> parse_uint_loop 0 (itoa n) = (int n, None)"
proof (induction n rule: itoa.induct)
  case (1 n)
  show ?case
  proof (cases "n < 10")
    case True
    with "1.prems" show ?thesis by (subst itoa.simps) (simp add: Let_def)
  next
    case False
    have "int (n div 10) \<le> max_uint64" using "1.prems" by linarith
    with "1.IH" False have "parse_uint_loop 0 (itoa (n div 10)) = (int (n div 10), None)"
      by simp
    then have "parse_uint_loop 0 (itoa n) = parse_uint_loop (int (n div 10)) [digit_char (n mod 10)]"
      using False by (subst itoa.simps) (simp add: parse_uint_loop_append)
    also have "\<dots> = (int n, None)"
    proof -
      have "10 * int (n div 10) + int (n mod 10) = int n" by presburger
      with "1.prems" show ?thesis by (simp add: Let_def)
    qed
    finally show ?thesis .
  qed
qed

lemma itoa_digits: "c \<in> set (itoa n) \<Longrightarrow> is_digit c"
proof (induction n rule: itoa.induct)
  case (1 n)
  show ?case
  proof (cases "n < 10")
    case True
    with "1.prems" show ?thesis by (subst (asm) itoa.simps) simp
  next
    case False
    then have "itoa n = itoa (n div 10) @ [digit_char (n mod 10)]" by (subst itoa.simps) simp
    with "1.prems" "1.IH" False show ?thesis by auto
  qed
qed

lemma atoi_itoa: 
  assumes "int n \<le> max_int64"
  shows "atoi (itoa n) = (int n, None)"
proof -
  obtain c r where s: "itoa n = c # r" by (cases "itoa n") auto
  then have "is_digit c" using itoa_digits [of c n] by simp
  then have nosign: "c \<noteq> CHR ''-''" "c \<noteq> CHR ''+''" by (auto simp: is_digit_def)
  have "int n \<le> max_uint64" using assms by (simp add: max_int64_def max_uint64_def)
  then have "parse_uint (c # r) = (int n, None)"
    using parse_uint_loop_itoa [of n] s by (simp add: parse_uint_def)
  then show ?thesis using s nosign assms by (simp add: atoi_def)
qed

text \<open>A number is what its digits denote, whatever sign-free decimal string is read.\<close>

lemma parse_uint_loop_nonneg: "0 \<le> n \<Longrightarrow> 0 \<le> fst (parse_uint_loop n s)"
  by (induction n s rule: parse_uint_loop.induct) (auto simp: Let_def max_uint64_def)

lemma parse_uint_nonneg: "0 \<le> fst (parse_uint s)"
  by (simp add: parse_uint_def parse_uint_loop_nonneg)

text \<open>A decimal numeral determines its number.\<close>

definition decimal :: "string \<Rightarrow> nat" where
  "decimal s = foldl (\<lambda>n c. 10 * n + digit_value c) 0 s"

lemma decimal_itoa [simp]: "decimal (itoa n) = n"
proof (induction n rule: itoa.induct)
  case (1 n)
  show ?case
  proof (cases "n < 10")
    case True
    then show ?thesis by (subst itoa.simps) (simp add: decimal_def)
  next
    case False
    then have "decimal (itoa n) = 10 * decimal (itoa (n div 10)) + n mod 10"
      by (subst itoa.simps) (simp add: decimal_def)
    with "1.IH" False show ?thesis by simp
  qed
qed

lemma itoa_inj: "itoa m = itoa n \<longleftrightarrow> m = n"
  by (metis decimal_itoa)

end
