(* ===== verification/Store.thy ===== *)
theory Store
  imports GoStrings
begin

text \<open>
  The IP history of \<open>internal/app/store.go\<close>: one SQLite table \<open>ips(ip, used)\<close> with
  \<open>ip\<close> as primary key. A table is the list of its rows; the three statements the
  store executes are functions on it. The SQLite driver is not under \<open>src/\<close>: what each
  call of it answers (success, or an error, where a failed write may or may not have reached the
  table) is an argument of the operations. \<open>row_status\<close> reads the table as a partial map and
  is the abstraction under which the laws of an IP ledger (locale \<open>ip_ledger\<close>) hold.
\<close>

section \<open>Data\<close>

record ip_record =
  rec_ip :: string
  rec_used :: bool

record ip_page =
  page_items :: "ip_record list"
  page_total :: nat
  page_page :: int
  page_size :: int

type_synonym ip_table = "ip_record list"

text \<open>The answer of the driver to a write: an error may come before or after the commit.\<close>

datatype exec_outcome =
    Exec_Ok
  | Exec_Fail bool gerr  \<comment> \<open>whether the statement took effect, and the error\<close>

text \<open>What the driver answers to the two calls a store operation makes.\<close>

record sql_env =
  env_exec :: exec_outcome
  env_read :: "gerr option"  \<comment> \<open>error of \<open>Scan\<close> or of \<open>RowsAffected\<close>\<close>

definition sql_ok :: sql_env where
  "sql_ok = \<lparr>env_exec = Exec_Ok, env_read = None\<rparr>"

section \<open>SQL statements\<close>

definition has_row :: "ip_table \<Rightarrow> string \<Rightarrow> bool" where
  "has_row t ip \<longleftrightarrow> ip \<in> set (map rec_ip t)"

text \<open>\<open>INSERT INTO ips(ip, used) VALUES(?, 0) ON CONFLICT(ip) DO NOTHING\<close>\<close>

definition sql_insert :: "string \<Rightarrow> ip_table \<Rightarrow> ip_table" where
  "sql_insert ip t = (if has_row t ip then t else t @ [\<lparr>rec_ip = ip, rec_used = False\<rparr>])"

text \<open>\<open>SELECT used FROM ips WHERE ip=?\<close>; \<open>None\<close> when there is no row.\<close>

definition sql_select_used :: "string \<Rightarrow> ip_table \<Rightarrow> bool option" where
  "sql_select_used ip t = map_option rec_used (find (\<lambda>r. rec_ip r = ip) t)"

text \<open>\<open>UPDATE ips SET used=1 WHERE ip=? [AND used=0]\<close>, and the rows it affects.\<close>

definition update_matches :: "bool \<Rightarrow> string \<Rightarrow> ip_record \<Rightarrow> bool" where
  "update_matches only_unused ip r \<longleftrightarrow> rec_ip r = ip \<and> (only_unused \<longrightarrow> \<not> rec_used r)"

definition sql_update_used :: "bool \<Rightarrow> string \<Rightarrow> ip_table \<Rightarrow> ip_table" where
  "sql_update_used only_unused ip t =
     map (\<lambda>r. if update_matches only_unused ip r then r\<lparr>rec_used := True\<rparr> else r) t"

definition sql_affected :: "bool \<Rightarrow> string \<Rightarrow> ip_table \<Rightarrow> nat" where
  "sql_affected only_unused ip t = length (filter (update_matches only_unused ip) t)"

text \<open>Running a write under an answer of the driver: the error, if any, and the table after it.\<close>

fun sql_exec :: "exec_outcome \<Rightarrow> (ip_table \<Rightarrow> ip_table) \<Rightarrow> ip_table \<Rightarrow> gerr option \<times> ip_table" where
  "sql_exec Exec_Ok stmt t = (None, stmt t)"
| "sql_exec (Exec_Fail applied e) stmt t = (Some e, if applied then stmt t else t)"

section \<open>Operations of the store\<close>

text \<open>
  \<open>OpenStore\<close>: errors of \<open>sql.Open\<close> and of the schema statement are arguments; an
  existing table is kept (\<open>CREATE TABLE IF NOT EXISTS\<close>).
\<close>

definition open_store :: "gerr option \<Rightarrow> gerr option \<Rightarrow> ip_table option \<Rightarrow> gerr + ip_table" where
  "open_store open_err schema_err existing =
     (case open_err of Some e \<Rightarrow> Inl e
      | None \<Rightarrow> (case schema_err of Some e \<Rightarrow> Inl e
                | None \<Rightarrow> Inr (case existing of Some t \<Rightarrow> t | None \<Rightarrow> [])))"

text \<open>\<open>Observe\<close>: Go's two results (unused, error), and the table.\<close>

definition observe :: "sql_env \<Rightarrow> string \<Rightarrow> ip_table \<Rightarrow> (bool \<times> gerr option) \<times> ip_table" where
  "observe env ip t =
     (case sql_exec (env_exec env) (sql_insert ip) t of
        (Some e, t') \<Rightarrow> ((False, Some e), t')
      | (None, t') \<Rightarrow>
          (case env_read env of
             Some e \<Rightarrow> ((True, Some e), t')
           | None \<Rightarrow>
               (case sql_select_used ip t' of
                  None \<Rightarrow> ((True, Some (Err_Text ''sql: no rows in result set'')), t')
                | Some used \<Rightarrow> ((\<not> used, None), t'))))"

text \<open>\<open>Consume\<close>: one affected row is success.\<close>

definition consume :: "sql_env \<Rightarrow> bool \<Rightarrow> string \<Rightarrow> ip_table \<Rightarrow> (bool \<times> gerr option) \<times> ip_table" where
  "consume env only_unused ip t =
     (case sql_exec (env_exec env) (sql_update_used only_unused ip) t of
        (Some e, t') \<Rightarrow> ((False, Some e), t')
      | (None, t') \<Rightarrow> ((sql_affected only_unused ip t = 1, env_read env), t'))"

text \<open>\<open>Counts\<close>: on an error of the query both counts are zero.\<close>

definition counts :: "gerr option \<Rightarrow> ip_table \<Rightarrow> (nat \<times> nat) \<times> gerr option" where
  "counts err t =
     (case err of Some e \<Rightarrow> ((0, 0), Some e)
      | None \<Rightarrow> ((length t, length (filter rec_used t)), None))"

section \<open>The paginated listing\<close>

text \<open>The answers of the driver in \<open>List\<close>: to the count, to the query, and after how many rows an iteration fails.\<close>

record list_env =
  lenv_count :: "gerr option"
  lenv_query :: "gerr option"
  lenv_rows :: "(nat \<times> gerr) option"

definition list_ok :: list_env where
  "list_ok = \<lparr>lenv_count = None, lenv_query = None, lenv_rows = None\<rparr>"

definition row_matches :: "string \<Rightarrow> string \<Rightarrow> ip_record \<Rightarrow> bool" where
  "row_matches search used_filter r \<longleftrightarrow>
     contains_sub (rec_ip r) search \<and>
     (used_filter \<noteq> '''' \<longrightarrow> rec_used r = (used_filter = ''true''))"

definition sql_select_rows :: "string \<Rightarrow> string \<Rightarrow> ip_table \<Rightarrow> ip_record list" where
  "sql_select_rows search used_filter t = sort_key rec_ip (filter (row_matches search used_filter) t)"

text \<open>
  \<open>int64(page-1)*int64(size)\<close>, with the wrap-around of 64-bit multiplication; SQLite takes
  a negative offset as zero.
\<close>

definition page_offset :: "int \<Rightarrow> int \<Rightarrow> int" where
  "page_offset page psize = sint ((word_of_int (page - 1) * word_of_int psize) :: 64 word)"

definition store_list ::
  "list_env \<Rightarrow> string \<Rightarrow> string \<Rightarrow> int \<Rightarrow> int \<Rightarrow> ip_table \<Rightarrow> ip_page \<times> gerr option" where
  "store_list env search used_filter page psize t =
     (let p = \<lparr>page_items = [], page_total = 0, page_page = page, page_size = psize\<rparr>
      in if page < 1 \<or> psize < 1 \<or> psize > 100 then (p, Some (Err_Text ''invalid pagination''))
         else if used_filter \<noteq> '''' \<and> used_filter \<noteq> ''true'' \<and> used_filter \<noteq> ''false''
         then (p, Some (Err_Text ''used must be true or false''))
         else (case lenv_count env of
             Some e \<Rightarrow> (p, Some e)
           | None \<Rightarrow>
               (let rows = sql_select_rows search used_filter t;
                    p = p\<lparr>page_total := length rows\<rparr>
                in (case lenv_query env of
                      Some e \<Rightarrow> (p, Some e)
                    | None \<Rightarrow>
                        (let window = take (nat psize) (drop (nat (page_offset page psize)) rows)
                         in (case lenv_rows env of
                               Some (k, e) \<Rightarrow> (p\<lparr>page_items := take k window\<rparr>, Some e)
                             | None \<Rightarrow> (p\<lparr>page_items := window\<rparr>, None)))))))"

section \<open>The table as a partial map\<close>

definition table_ok :: "ip_table \<Rightarrow> bool" where
  "table_ok t \<longleftrightarrow> distinct (map rec_ip t)"

definition row_status :: "ip_table \<Rightarrow> string \<rightharpoonup> bool" where
  "row_status t = map_of (map (\<lambda>r. (rec_ip r, rec_used r)) t)"

lemma select_used_status: "sql_select_used ip t = row_status t ip"
  by (induction t) (auto simp: sql_select_used_def row_status_def)

lemma has_row_status: "has_row t ip \<longleftrightarrow> row_status t ip \<noteq> None"
  by (auto simp: has_row_def row_status_def map_of_eq_None_iff image_image)

lemma status_insert:
  "row_status (sql_insert ip t) =
     (row_status t)(ip \<mapsto> (case row_status t ip of None \<Rightarrow> False | Some u \<Rightarrow> u))"
proof (cases "has_row t ip")
  case True
  then show ?thesis
    by (auto simp: sql_insert_def has_row_status fun_eq_iff)
next
  case False
  then have "row_status t ip = None" by (simp add: has_row_status)
  with False show ?thesis
    by (auto simp: sql_insert_def row_status_def map_add_def fun_eq_iff split: option.splits)
qed

lemma status_update:
  "row_status (sql_update_used u ip t) x =
     (if x = ip \<and> row_status t ip \<noteq> None then Some True else row_status t x)"
  by (induction t) (auto simp: row_status_def sql_update_used_def update_matches_def)

lemma row_status_Cons:
  "row_status (r # t) x = (if x = rec_ip r then Some (rec_used r) else row_status t x)"
  by (simp add: row_status_def)

lemma affected_absent: "row_status t ip = None \<Longrightarrow> sql_affected u ip t = 0"
  by (induction t) (auto simp: row_status_Cons sql_affected_def update_matches_def split: if_splits)

lemma affected_status:
  "table_ok t \<Longrightarrow> sql_affected u ip t =
     (if row_status t ip = Some False \<or> \<not> u \<and> row_status t ip = Some True then 1 else 0)"
proof (induction t)
  case Nil
  then show ?case by (simp add: sql_affected_def row_status_def)
next
  case (Cons r t)
  show ?case
  proof (cases "rec_ip r = ip")
    case True
    with Cons.prems have "row_status t ip = None"
      by (auto simp: table_ok_def row_status_def map_of_eq_None_iff image_image)
    then have "sql_affected u ip t = 0" by (rule affected_absent)
    with True show ?thesis
      by (auto simp: sql_affected_def update_matches_def row_status_Cons)
  next
    case False
    with Cons show ?thesis
      by (simp add: sql_affected_def update_matches_def row_status_Cons table_ok_def)
  qed
qed

lemma insert_ok [inv_intros]: "table_ok t \<Longrightarrow> table_ok (sql_insert ip t)"
  by (auto simp: table_ok_def sql_insert_def has_row_def)

lemma update_keys [simp]: "map rec_ip (sql_update_used u ip t) = map rec_ip t"
  by (auto simp: sql_update_used_def)

lemma update_ok [inv_intros]: "table_ok t \<Longrightarrow> table_ok (sql_update_used u ip t)"
  by (simp add: table_ok_def)

lemma open_store_ok:
  "open_store e1 e2 old = Inr t \<Longrightarrow> (\<forall>t0. old = Some t0 \<longrightarrow> table_ok t0) \<Longrightarrow> table_ok t"
  by (auto simp: open_store_def table_ok_def split: option.splits)

section \<open>The interface: an IP ledger\<close>

text \<open>
  What the pool relies on: observing an address makes it known and never changes whether
  it was used; consuming an address in unique mode succeeds only for a known, unused address and
  marks it; nothing ever forgets an address or clears a mark, also when a call returns an error
  after its write was applied.
\<close>

locale ip_ledger =
  fixes status :: "'s \<Rightarrow> string \<rightharpoonup> bool"
    and good :: "'s \<Rightarrow> bool"
    and obs :: "sql_env \<Rightarrow> string \<Rightarrow> 's \<Rightarrow> (bool \<times> gerr option) \<times> 's"
    and cons :: "sql_env \<Rightarrow> bool \<Rightarrow> string \<Rightarrow> 's \<Rightarrow> (bool \<times> gerr option) \<times> 's"
  assumes good_obs: "good s \<Longrightarrow> good (snd (obs env ip s))"
    and good_cons: "good s \<Longrightarrow> good (snd (cons env u ip s))"
    and obs_result: "obs env ip s = ((b, None), s') \<Longrightarrow>
        status s' = (status s)(ip \<mapsto> \<not> b) \<and> (b \<longleftrightarrow> status s ip \<noteq> Some True)"
    and obs_keeps: "status s x = Some v \<Longrightarrow> status (snd (obs env ip s)) x = Some v"
    and obs_new: "status (snd (obs env ip s)) x = Some True \<Longrightarrow> status s x = Some True"
    and cons_once: "good s \<Longrightarrow> cons env True ip s = ((True, None), s') \<Longrightarrow>
        status s ip = Some False \<and> status s' = (status s)(ip \<mapsto> True)"
    and cons_any: "good s \<Longrightarrow> cons env u ip s = ((True, e), s') \<Longrightarrow> status s' ip = Some True"
    and cons_keeps: "status s x = Some True \<Longrightarrow> status (snd (cons env u ip s)) x = Some True"
    and cons_known: "(status (snd (cons env u ip s)) x = None) = (status s x = None)"
    and cons_frame: "x \<noteq> ip \<Longrightarrow> status (snd (cons env u ip s)) x = status s x"
begin

text \<open>The addresses the ledger holds as used.\<close>

lemma used_mono_obs: "status s x = Some True \<Longrightarrow> status (snd (obs env ip s)) x = Some True"
  by (rule obs_keeps)

lemma used_new_cons:
  "status (snd (cons env u ip s)) x = Some True \<Longrightarrow> status s x \<noteq> Some True \<Longrightarrow> x = ip"
  using cons_frame by metis

text \<open>An address is consumed at most once: after a success no later consumption succeeds.\<close>

lemma no_second_consume:
  assumes "good s" and "status s ip = Some True"
  shows "cons env True ip s \<noteq> ((True, None), s')"
  using cons_once [OF assms(1)] assms(2) by fastforce

lemma consume_not_used:
  assumes "good s" and "cons env True ip s = ((True, None), s')"
  shows "status s ip \<noteq> Some True"
  using cons_once [OF assms] by simp

lemma consume_monotone:
  assumes "cons env u ip s = (r, s')" and "status s x = Some True"
  shows "status s' x = Some True"
  using cons_keeps [OF assms(2), of env u ip] assms(1) by simp

lemma observe_monotone:
  assumes "obs env ip s = (r, s')" and "status s x = Some True"
  shows "status s' x = Some True"
  using obs_keeps [OF assms(2), of env ip] assms(1) by simp

lemma observe_reflects:
  assumes "obs env ip s = (r, s')" and "status s' x = Some True"
  shows "status s x = Some True"
  using obs_new [of env ip s x] assms by simp

lemma consume_good:
  assumes "cons env u ip s = (r, s')" and "good s"
  shows "good s'"
  using good_cons [OF assms(2), of env u ip] assms(1) by simp

lemma observe_good:
  assumes "obs env ip s = (r, s')" and "good s"
  shows "good s'"
  using good_obs [OF assms(2), of env ip] assms(1) by simp

lemma consume_frame:
  assumes "cons env u ip s = (r, s')" and "x \<noteq> ip"
  shows "status s' x = status s x"
  using cons_frame [OF assms(2), of env u s] assms(1) by simp

end

text \<open>The store of the program is such a ledger.\<close>

lemma exec_split:
  "sql_exec e stmt t = (r, t') \<Longrightarrow> t' = t \<or> t' = stmt t"
  by (cases e) (auto split: if_splits)

lemma observe_table:
  "snd (observe env ip t) = t \<or> snd (observe env ip t) = sql_insert ip t"
  using exec_split [of "env_exec env" "sql_insert ip" t]
  by (auto simp: observe_def split: prod.split option.split)

lemma consume_table:
  "snd (consume env u ip t) = t \<or> snd (consume env u ip t) = sql_update_used u ip t"
  using exec_split [of "env_exec env" "sql_update_used u ip" t]
  by (auto simp: consume_def split: prod.split option.split)

lemma exec_None: "sql_exec e stmt t = (None, t') \<longleftrightarrow> e = Exec_Ok \<and> t' = stmt t"
  by (cases e) auto

lemma observe_success:
  "observe env ip t = ((b, None), t') \<Longrightarrow>
     t' = sql_insert ip t \<and> sql_select_used ip t' = Some (\<not> b)"
  by (auto simp: observe_def exec_None split: prod.splits option.splits)

lemma consume_true:
  "consume env u ip t = ((True, e), t') \<Longrightarrow> t' = sql_update_used u ip t \<and> sql_affected u ip t = 1"
  by (auto simp: consume_def exec_None split: prod.splits option.splits)

interpretation ledger: ip_ledger row_status table_ok observe consume
proof unfold_locales
  fix s :: ip_table and env ip x v u e s' b
  show "table_ok s \<Longrightarrow> table_ok (snd (observe env ip s))"
    using observe_table [of env ip s] by (auto intro: inv_intros)
  show "table_ok s \<Longrightarrow> table_ok (snd (consume env u ip s))"
    using consume_table [of env u ip s] by (auto intro: inv_intros)
  show "observe env ip s = ((b, None), s') \<Longrightarrow>
      row_status s' = (row_status s)(ip \<mapsto> \<not> b) \<and> (b \<longleftrightarrow> row_status s ip \<noteq> Some True)"
    by (drule observe_success)
      (auto simp: select_used_status status_insert split: option.splits)
  show "row_status s x = Some v \<Longrightarrow> row_status (snd (observe env ip s)) x = Some v"
    using observe_table [of env ip s] by (auto simp: status_insert)
  show "row_status (snd (observe env ip s)) x = Some True \<Longrightarrow> row_status s x = Some True"
    using observe_table [of env ip s] by (auto simp: status_insert split: if_splits option.splits)
  show "table_ok s \<Longrightarrow> consume env True ip s = ((True, None), s') \<Longrightarrow>
      row_status s ip = Some False \<and> row_status s' = (row_status s)(ip \<mapsto> True)"
    by (drule consume_true) (auto simp: affected_status status_update fun_eq_iff split: if_splits)
  show "table_ok s \<Longrightarrow> consume env u ip s = ((True, e), s') \<Longrightarrow> row_status s' ip = Some True"
    by (drule consume_true) (auto simp: affected_status status_update split: if_splits)
  show "row_status s x = Some True \<Longrightarrow> row_status (snd (consume env u ip s)) x = Some True"
    using consume_table [of env u ip s] by (auto simp: status_update)
  show "(row_status (snd (consume env u ip s)) x = None) = (row_status s x = None)"
    using consume_table [of env u ip s] by (auto simp: status_update split: if_splits)
  show "x \<noteq> ip \<Longrightarrow> row_status (snd (consume env u ip s)) x = row_status s x"
    using consume_table [of env u ip s] by (auto simp: status_update)
qed

section \<open>Pages of the listing\<close>

text \<open>The bounds \<open>web.go\<close> enforces before it calls \<open>List\<close>.\<close>

definition page_valid :: "int \<Rightarrow> int \<Rightarrow> string \<Rightarrow> bool" where
  "page_valid page psize f \<longleftrightarrow> 1 \<le> page \<and> page \<le> 100000000 \<and> 1 \<le> psize \<and> psize \<le> 100 \<and>
     f \<in> {'''', ''true'', ''false''}"

text \<open>Within them the offset does not wrap around.\<close>

lemma page_offset_exact:
  assumes "1 \<le> page" "page \<le> 100000000" "1 \<le> n" "n \<le> 100"
  shows "page_offset page n = (page - 1) * n"
proof -
  have w: "word_of_int (page - 1) * word_of_int n = (word_of_int ((page - 1) * n) :: 64 word)"
    by simp
  have lo: "0 \<le> (page - 1) * n" using assms by simp
  have "(page - 1) * n \<le> 100000000 * 100"
    using assms by (intro mult_mono) auto
  then have "(page - 1) * n < 2 ^ 63" by simp
  with lo have "signed_take_bit 63 ((page - 1) * n) = (page - 1) * n"
    by (intro signed_take_bit_int_eq_self) auto
  then have "sint (word_of_int ((page - 1) * n) :: 64 word) = (page - 1) * n"
    by (simp only: sint_sbintrunc') simp
  then show ?thesis unfolding page_offset_def w .
qed

lemma store_list_window:
  assumes "page_valid page n f"
  shows "store_list list_ok q f page n t =
     (\<lparr>page_items = take (nat n) (drop (nat (page - 1) * nat n) (sql_select_rows q f t)),
       page_total = length (sql_select_rows q f t), page_page = page, page_size = n\<rparr>, None)"
  using assms
  by (auto simp: store_list_def list_ok_def page_offset_exact page_valid_def Let_def nat_mult_distrib)

lemma concat_windows:
  "concat (map (\<lambda>k. take n (drop (k * n) xs)) [0..<m]) = take (m * n) xs"
proof (induction m)
  case (Suc m)
  then show ?case using take_add [of "m * n" n xs] by (simp add: add.commute)
qed simp

lemma select_rows_set: "set (sql_select_rows q f t) = {r \<in> set t. row_matches q f r}"
  by (auto simp: sql_select_rows_def)

lemma select_rows_sorted: "sorted (map rec_ip (sql_select_rows q f t))"
  by (simp add: sql_select_rows_def)

end
