(* ===== verification/StoreProps.thy ===== *)
theory StoreProps
  imports Store
begin

text \<open>What the address history guarantees, over any sequence of its operations and any answers of the driver.\<close>

section \<open>Sequences of operations\<close>

datatype store_op =
    Do_Observe sql_env string
  | Do_Consume sql_env bool string

fun store_step :: "store_op \<Rightarrow> ip_table \<Rightarrow> (bool \<times> gerr option) \<times> ip_table" where
  "store_step (Do_Observe env ip) t = observe env ip t"
| "store_step (Do_Consume env u ip) t = consume env u ip t"

fun store_run :: "store_op list \<Rightarrow> ip_table \<Rightarrow> (bool \<times> gerr option) list \<times> ip_table" where
  "store_run [] t = ([], t)"
| "store_run (op # ops) t =
     (let (r, t1) = store_step op t; (rs, t2) = store_run ops t1 in (r # rs, t2))"

text \<open>How often the operations handed the address to a caller in unique mode.\<close>

fun grants :: "string \<Rightarrow> store_op list \<Rightarrow> (bool \<times> gerr option) list \<Rightarrow> nat" where
  "grants ip (Do_Consume env True x # ops) (r # rs) =
     (if x = ip \<and> r = (True, None) then 1 else 0) + grants ip ops rs"
| "grants ip (op # ops) (r # rs) = grants ip ops rs"
| "grants ip _ _ = 0"

lemma store_step_good: "table_ok t \<Longrightarrow> store_step op t = (r, t1) \<Longrightarrow> table_ok t1"
  by (cases op) (auto intro: ledger.observe_good ledger.consume_good)

lemma store_step_used: "store_step op t = (r, t1) \<Longrightarrow> row_status t x = Some True \<Longrightarrow> row_status t1 x = Some True"
  by (cases op) (auto intro: ledger.observe_monotone ledger.consume_monotone)

lemma store_run_used:
  "store_run ops t = (rs, t') \<Longrightarrow> row_status t x = Some True \<Longrightarrow> row_status t' x = Some True"
  by (induction ops arbitrary: t rs) (auto simp: Let_def store_step_used split: prod.splits)

lemma grants_step:
  assumes "table_ok t" and "store_step op t = (r, t1)"
  shows "\<exists>k. (\<forall>ops rs. grants ip (op # ops) (r # rs) = k + grants ip ops rs) \<and>
     (k = 0 \<or> k = 1 \<and> row_status t ip \<noteq> Some True \<and> row_status t1 ip = Some True)"
proof (cases op)
  case (Do_Observe env x)
  then show ?thesis by (intro exI [of _ 0]) simp
next
  case (Do_Consume env u x)
  show ?thesis
  proof (cases "u \<and> x = ip \<and> r = (True, None)")
    case True
    with Do_Consume assms have "consume env True ip t = ((True, None), t1)" by simp
    then have "row_status t ip \<noteq> Some True" and "row_status t1 ip = Some True"
      using ledger.consume_not_used [OF assms(1)] ledger.cons_once [OF assms(1)] by auto
    with True Do_Consume show ?thesis by (intro exI [of _ 1]) simp
  next
    case False
    with Do_Consume show ?thesis by (intro exI [of _ 0]) (cases u; auto)
  qed
qed

lemma grants_bound:
  assumes "table_ok t" and "store_run ops t = (rs, t')"
  shows "grants ip ops rs \<le> (if row_status t ip = Some True then 0 else 1)"
  using assms
proof (induction ops arbitrary: t rs)
  case (Cons op ops)
  obtain r t1 where s: "store_step op t = (r, t1)" by (metis surj_pair)
  obtain rs1 where r: "store_run ops t1 = (rs1, t')" and rs: "rs = r # rs1"
    using Cons.prems(2) s by (auto simp: Let_def split: prod.splits)
  have le: "grants ip ops rs1 \<le> (if row_status t1 ip = Some True then 0 else 1)"
    using Cons.IH [OF store_step_good [OF Cons.prems(1) s] r] .
  obtain k where "grants ip (op # ops) rs = k + grants ip ops rs1"
    and "k = 0 \<or> k = 1 \<and> row_status t ip \<noteq> Some True \<and> row_status t1 ip = Some True"
    using grants_step [OF Cons.prems(1) s] unfolding rs by blast
  with le store_step_used [OF s, of ip] show ?case by (auto split: if_splits)
qed simp

section \<open>Properties\<close>

text \<open>
  Claim C21. In unique mode an address is handed out at most once in the life of the database,
  and never when the database already marks it; this includes runs in which writes fail after they
  took effect. And a mark is never cleared.
\<close>

theorem consumed_once:
  assumes "table_ok t" and "store_run ops t = (rs, t')"
  shows "grants ip ops rs \<le> (if row_status t ip = Some True then 0 else 1) \<and>
    (row_status t ip = Some True \<longrightarrow> row_status t' ip = Some True)"
  using grants_bound [OF assms] store_run_used [OF assms(2)] by simp

definition demo_ops :: "store_op list" where
  "demo_ops = [Do_Observe sql_ok ''1.1.1.1'', Do_Consume sql_ok True ''1.1.1.1'',
     Do_Consume sql_ok True ''1.1.1.1'', Do_Observe sql_ok ''1.1.1.1'']"

theorem consumed_once_witness:
  "store_run demo_ops [] = ([(True, None), (True, None), (False, None), (False, None)],
     [\<lparr>rec_ip = ''1.1.1.1'', rec_used = True\<rparr>]) \<and>
   grants ''1.1.1.1'' demo_ops [(True, None), (True, None), (False, None), (False, None)] \<le> 1"
proof -
  have r: "store_run demo_ops [] = ([(True, None), (True, None), (False, None), (False, None)],
      [\<lparr>rec_ip = ''1.1.1.1'', rec_used = True\<rparr>])"
    by code_simp
  have t: "table_ok []" and s: "row_status [] ''1.1.1.1'' \<noteq> Some True"
    by (simp_all add: table_ok_def row_status_def)
  from consumed_once [OF t r, of "''1.1.1.1''"] r s show ?thesis by simp
qed

text \<open>
  The listing loses and repeats nothing: within the bounds the web interface enforces,
  the first pages together are the first rows of the sorted list of all matching
  addresses, in order, and the offset never wraps around. Every page reports the number of all matches.
\<close>

theorem pages_tile:
  assumes "1 \<le> n" and "n \<le> 100" and "m \<le> 100000000" and "f \<in> {'''', ''true'', ''false''}"
  shows "concat (map (\<lambda>k. page_items (fst (store_list list_ok q f (int k + 1) n t))) [0..<m])
      = take (m * nat n) (sql_select_rows q f t) \<and>
    (\<forall>k < m. page_total (fst (store_list list_ok q f (int k + 1) n t)) = length (filter (row_matches q f) t))"
proof -
  have page: "store_list list_ok q f (int k + 1) n t =
      (\<lparr>page_items = take (nat n) (drop (k * nat n) (sql_select_rows q f t)),
        page_total = length (sql_select_rows q f t), page_page = int k + 1, page_size = n\<rparr>, None)"
    if "k < m" for k
    using assms that by (subst store_list_window) (auto simp: page_valid_def)
  then have "map (\<lambda>k. page_items (fst (store_list list_ok q f (int k + 1) n t))) [0..<m]
     = map (\<lambda>k. take (nat n) (drop (k * nat n) (sql_select_rows q f t))) [0..<m]"
    by simp
  then show ?thesis using page by (simp only: concat_windows) (simp add: sql_select_rows_def)
qed

definition demo_table :: ip_table where
  "demo_table = [\<lparr>rec_ip = ''9.9.9.9'', rec_used = True\<rparr>, \<lparr>rec_ip = ''1.1.1.1'', rec_used = False\<rparr>,
     \<lparr>rec_ip = ''8.8.8.8'', rec_used = True\<rparr>]"

theorem pages_tile_witness:
  "concat (map (\<lambda>k. page_items (fst (store_list list_ok ''.'' ''true'' (int k + 1) 1 demo_table))) [0..<2])
     = [\<lparr>rec_ip = ''8.8.8.8'', rec_used = True\<rparr>, \<lparr>rec_ip = ''9.9.9.9'', rec_used = True\<rparr>]"
proof -
  have rows: "sql_select_rows ''.'' ''true'' demo_table
      = [\<lparr>rec_ip = ''8.8.8.8'', rec_used = True\<rparr>, \<lparr>rec_ip = ''9.9.9.9'', rec_used = True\<rparr>]"
    by code_simp
  show ?thesis using pages_tile [of 1 2 "''true''" "''.''" demo_table] rows by simp
qed

end
