(* ===== verification/Config.thy ===== *)
theory Config
  imports GoStrings
begin

text \<open>The configuration of \<open>internal/app/config.go\<close>.\<close>

record config =
  TorCount :: nat
  UniqueIP :: bool
  MaxUsedIPRetries :: int
  DataDir :: string
  ProxyAddr :: string
  WebAddr :: string
  IPCheckURL :: string
  ConnectTimeout :: duration
  IdleTimeout :: duration
  BootstrapTimeout :: duration
  MaxConnections :: int

end
