(* ===== verification/Pool.thy ===== *)
theory Pool
  imports Store Config
begin

text \<open>
  The instance pool of \<open>internal/app/pool.go\<close>. Endpoints and leases are shared mutable
  objects of the program, so the pool record carries a heap of each (a list, an address is an
  index); slots and \<open>reserved\<close> hold addresses. The condition \<open>ep.ctx.Err() != nil\<close> is
  the flag \<open>ep_cancelled\<close>, the channel \<open>done\<close> is the flag \<open>ep_done\<close> (closed or not), a
  \<open>sync.Once\<close> is a flag, and \<open>notify\<close> counts the channels replaced so far: a waiter that
  holds generation \<open>g\<close> is woken when the current generation differs.

  An operation that indexes \<open>p.slots[id-1]\<close> or closes a channel returns \<open>None\<close> where Go
  panics. All operations run under \<open>Pool.mu\<close> and are therefore atomic.
\<close>

section \<open>Data\<close>

datatype inst_state =
    S_Starting | S_Bootstrapping | S_Checking | S_Ready | S_Busy | S_Rotating
  | S_Retrying | S_Restarting | S_Error | S_Stopped

fun state_name :: "inst_state \<Rightarrow> string" where
  "state_name S_Starting = ''Starting''"
| "state_name S_Bootstrapping = ''Bootstrapping''"
| "state_name S_Checking = ''Checking''"
| "state_name S_Ready = ''Ready''"
| "state_name S_Busy = ''Busy''"
| "state_name S_Rotating = ''Rotating''"
| "state_name S_Retrying = ''Retrying''"
| "state_name S_Restarting = ''Restarting''"
| "state_name S_Error = ''Error''"
| "state_name S_Stopped = ''Stopped''"

record instance_view =
  view_id :: nat
  view_state :: inst_state
  view_bootstrap :: int
  view_ip :: string
  view_circuit :: string
  view_last_check :: gotime
  view_last_error :: string
  view_requests :: uint64

record pool_event =
  event_time :: gotime
  event_instance :: nat
  event_message :: string

record endpoint =
  ep_id :: nat
  ep_ip :: string
  ep_circuit :: string
  ep_token :: string
  ep_cancelled :: bool
  ep_done :: bool
  ep_once :: bool
  ep_last_err :: "gerr option"
  ep_active :: nat

record slot =
  slot_view :: instance_view
  slot_ep :: "nat option"
  slot_fails :: nat

text \<open>A lease: its public fields, the endpoint its \<open>finish\<close> closure captured, and \<open>leaseOnce\<close>.\<close>

record lease =
  lease_ip :: string
  lease_instance :: nat
  lease_ep :: nat
  lease_once :: bool

record pool =
  p_store :: ip_table
  p_unique :: bool
  p_max_used_ip_retries :: int
  p_slots :: "slot list"
  p_reserved :: "string \<rightharpoonup> nat"
  p_next :: nat
  p_started :: gotime
  p_requests :: uint64
  p_completed :: uint64
  p_failed :: uint64
  p_rejected :: uint64
  p_revision :: uint64
  p_events :: "pool_event list"
  p_notify :: nat
  p_eps :: "endpoint list"
  p_leases :: "lease list"

section \<open>Construction\<close>

definition new_view :: "nat \<Rightarrow> instance_view" where
  "new_view iid = \<lparr>view_id = iid, view_state = S_Starting, view_bootstrap = 0, view_ip = '''',
     view_circuit = '''', view_last_check = Zero_Time, view_last_error = '''', view_requests = 0\<rparr>"

definition new_pool :: "config \<Rightarrow> ip_table \<Rightarrow> gotime \<Rightarrow> pool" where
  "new_pool cfg t now =
     \<lparr>p_store = t, p_unique = UniqueIP cfg, p_max_used_ip_retries = MaxUsedIPRetries cfg,
      p_slots = map (\<lambda>i. \<lparr>slot_view = new_view (i + 1), slot_ep = None, slot_fails = 0\<rparr>) [0..<TorCount cfg],
      p_reserved = Map.empty, p_next = 0, p_started = now,
      p_requests = 0, p_completed = 0, p_failed = 0, p_rejected = 0, p_revision = 0,
      p_events = [], p_notify = 0, p_eps = [], p_leases = []\<rparr>"

section \<open>Access to slots and endpoints\<close>

definition slot_in :: "pool \<Rightarrow> nat \<Rightarrow> bool" where
  "slot_in p iid \<longleftrightarrow> 1 \<le> iid \<and> iid \<le> length (p_slots p)"

definition slot_of :: "pool \<Rightarrow> nat \<Rightarrow> slot" where
  "slot_of p iid = p_slots p ! (iid - 1)"

definition upd_slot :: "nat \<Rightarrow> (slot \<Rightarrow> slot) \<Rightarrow> pool \<Rightarrow> pool" where
  "upd_slot iid f p = p\<lparr>p_slots := (p_slots p)[iid - 1 := f (p_slots p ! (iid - 1))]\<rparr>"

definition upd_view :: "nat \<Rightarrow> (instance_view \<Rightarrow> instance_view) \<Rightarrow> pool \<Rightarrow> pool" where
  "upd_view iid f = upd_slot iid (\<lambda>s. s\<lparr>slot_view := f (slot_view s)\<rparr>)"

definition ep_of :: "pool \<Rightarrow> nat \<Rightarrow> endpoint" where
  "ep_of p a = p_eps p ! a"

definition upd_ep :: "nat \<Rightarrow> (endpoint \<Rightarrow> endpoint) \<Rightarrow> pool \<Rightarrow> pool" where
  "upd_ep a f p = p\<lparr>p_eps := (p_eps p)[a := f (p_eps p ! a)]\<rparr>"

text \<open>\<open>ep.cancel()\<close>, by the pool itself or by the worker that owns the endpoint.\<close>

definition cancel_ep :: "nat \<Rightarrow> pool \<Rightarrow> pool" where
  "cancel_ep a = upd_ep a (\<lambda>e. e\<lparr>ep_cancelled := True\<rparr>)"

text \<open>The endpoint \<open>cycle\<close> allocates, with the address its IP check returned.\<close>

definition new_endpoint :: "nat \<Rightarrow> string \<Rightarrow> string \<Rightarrow> string \<Rightarrow> bool \<Rightarrow> endpoint" where
  "new_endpoint iid ip circuit token cancelled =
     \<lparr>ep_id = iid, ep_ip = ip, ep_circuit = circuit, ep_token = token, ep_cancelled = cancelled,
      ep_done = False, ep_once = False, ep_last_err = None, ep_active = 0\<rparr>"

definition add_endpoint :: "endpoint \<Rightarrow> pool \<Rightarrow> pool" where
  "add_endpoint e p = p\<lparr>p_eps := p_eps p @ [e]\<rparr>"

section \<open>Events and states\<close>

text \<open>\<open>eventLocked\<close>: the last hundred events are kept.\<close>

definition event_locked :: "nat \<Rightarrow> string \<Rightarrow> gotime \<Rightarrow> pool \<Rightarrow> pool" where
  "event_locked iid message now p =
     (let evs = (if length (p_events p) = 100 then tl (p_events p) else p_events p)
      in p\<lparr>p_events := evs @ [\<lparr>event_time = now, event_instance = iid, event_message = message\<rparr>],
           p_revision := p_revision p + 1\<rparr>)"

text \<open>\<open>Pool.state\<close>.\<close>

definition state_view :: "inst_state \<Rightarrow> int \<Rightarrow> gerr option \<Rightarrow> instance_view \<Rightarrow> instance_view \<times> bool" where
  "state_view st progress problem v =
     (let changed = (view_state v \<noteq> st);
          v = v\<lparr>view_state := st\<rparr>;
          v = (if progress \<ge> 0 then v\<lparr>view_bootstrap := progress\<rparr> else v)
      in case problem of
           Some e \<Rightarrow> (v\<lparr>view_last_error := error_text e\<rparr>, True)
         | None \<Rightarrow> if view_last_error v \<noteq> '''' then (v\<lparr>view_last_error := ''''\<rparr>, True)
                   else (v, changed))"

definition state_message :: "inst_state \<Rightarrow> gerr option \<Rightarrow> string" where
  "state_message st problem =
     state_name st @ (case problem of None \<Rightarrow> '''' | Some e \<Rightarrow> '': '' @ error_text e)"

definition pool_state ::
  "nat \<Rightarrow> inst_state \<Rightarrow> int \<Rightarrow> gerr option \<Rightarrow> gotime \<Rightarrow> pool \<Rightarrow> pool option" where
  "pool_state iid st progress problem now p =
     (if \<not> slot_in p iid then None
      else (case state_view st progress problem (slot_view (slot_of p iid)) of
              (v, changed) \<Rightarrow>
                let p' = upd_view iid (\<lambda>_. v) p
                in Some (if changed then event_locked iid (state_message st problem) now p'
                         else p'\<lparr>p_revision := p_revision p' + 1\<rparr>)))"

definition broadcast_locked :: "pool \<Rightarrow> pool" where
  "broadcast_locked p = p\<lparr>p_notify := Suc (p_notify p)\<rparr>"

section \<open>Publishing a verified endpoint\<close>

definition used_ip_error :: "string \<Rightarrow> gerr" where
  "used_ip_error ip = Err_Wrap (error_text Err_UsedIP @ '': '' @ ip) Err_UsedIP"

text \<open>What \<open>publish\<close> does once the address may be offered.\<close>

definition make_ready :: "nat \<Rightarrow> gotime \<Rightarrow> pool \<Rightarrow> pool" where
  "make_ready a now p =
     (let ep = ep_of p a;
          p = upd_slot (ep_id ep) (\<lambda>s. s\<lparr>slot_ep := Some a\<rparr>) p;
          p = (if p_unique p then p\<lparr>p_reserved := (p_reserved p)(ep_ip ep \<mapsto> a)\<rparr> else p);
          p = upd_view (ep_id ep) (\<lambda>v. v\<lparr>view_state := S_Ready, view_last_error := ''''\<rparr>) p;
          p = event_locked (ep_id ep) (''Ready with '' @ ep_ip ep) now p
      in broadcast_locked p)"

definition publish :: "sql_env \<Rightarrow> gotime \<Rightarrow> nat \<Rightarrow> pool \<Rightarrow> ((bool \<times> gerr option) \<times> pool) option" where
  "publish env now a p =
     (let ep = ep_of p a in
      if \<not> slot_in p (ep_id ep) then None
      else
        let p = upd_view (ep_id ep)
                  (\<lambda>v. v\<lparr>view_ip := ep_ip ep, view_circuit := ep_circuit ep, view_last_check := now\<rparr>) p
        in case observe env (ep_ip ep) (p_store p) of
             ((unused, err), t) \<Rightarrow>
               let p = p\<lparr>p_store := t\<rparr> in
               case err of
                 Some e \<Rightarrow> Some ((False, Some e), p)
               | None \<Rightarrow>
                   if p_unique p \<and> \<not> unused then Some ((False, Some (used_ip_error (ep_ip ep))), p)
                   else if (p_unique p \<and> p_reserved p (ep_ip ep) \<noteq> None) \<or> ep_cancelled ep
                   then Some ((False, None), p)
                   else Some ((True, None), make_ready a now p))"

section \<open>Acquiring a lease\<close>

text \<open>The answers of the driver to the \<open>Consume\<close> at each offset of the scan, and the clock.\<close>

record acq_env =
  acq_sql :: "nat \<Rightarrow> sql_env"
  acq_now :: gotime

definition acq_ok :: "gotime \<Rightarrow> acq_env" where
  "acq_ok now = \<lparr>acq_sql = (\<lambda>_. sql_ok), acq_now = now\<rparr>"

definition scan_index :: "pool \<Rightarrow> nat \<Rightarrow> nat" where
  "scan_index p offset = (p_next p + offset) mod length (p_slots p)"

text \<open>The endpoint a slot can serve with: it is Ready, and its context is alive.\<close>

definition servable :: "pool \<Rightarrow> slot \<Rightarrow> nat option" where
  "servable p s =
     (case slot_ep s of None \<Rightarrow> None
      | Some a \<Rightarrow> if view_state (slot_view s) \<noteq> S_Ready \<or> ep_cancelled (ep_of p a) then None else Some a)"

definition reservation_error :: "gerr \<Rightarrow> gerr" where
  "reservation_error e = Err_Wrap (''persist IP reservation: '' @ error_text e) e"

definition add_lease :: "nat \<Rightarrow> pool \<Rightarrow> pool" where
  "add_lease a p = p\<lparr>p_leases := p_leases p @
     [\<lparr>lease_ip = ep_ip (ep_of p a), lease_instance = ep_id (ep_of p a), lease_ep = a, lease_once = False\<rparr>]\<rparr>"

definition grant_unique :: "gotime \<Rightarrow> nat \<Rightarrow> nat \<Rightarrow> pool \<Rightarrow> pool" where
  "grant_unique now index a p =
     (let p = upd_view (index + 1) (\<lambda>v. v\<lparr>view_state := S_Busy, view_requests := view_requests v + 1\<rparr>) p;
          p = p\<lparr>p_requests := p_requests p + 1, p_next := (index + 1) mod length (p_slots p)\<rparr>;
          p = event_locked (ep_id (ep_of p a)) (''Assigned '' @ ep_ip (ep_of p a)) now p
      in add_lease a p)"

definition grant_reuse :: "gotime \<Rightarrow> nat \<Rightarrow> nat \<Rightarrow> pool \<Rightarrow> pool" where
  "grant_reuse now index a p =
     (let p = upd_view (index + 1) (\<lambda>v. v\<lparr>view_requests := view_requests v + 1, view_last_check := now\<rparr>) p;
          p = p\<lparr>p_requests := p_requests p + 1, p_next := (index + 1) mod length (p_slots p)\<rparr>;
          p = upd_ep a (\<lambda>e. e\<lparr>ep_active := ep_active e + 1\<rparr>) p;
          p = event_locked (ep_id (ep_of p a)) (''Assigned '' @ ep_ip (ep_of p a)) now p
      in add_lease a p)"

text \<open>
  The loop of \<open>acquireLocked\<close> over the offsets that are left. The result is the error, or
  the address of the new lease.
\<close>

fun acquire_scan :: "acq_env \<Rightarrow> nat list \<Rightarrow> pool \<Rightarrow> (gerr + nat) \<times> pool" where
  "acquire_scan env [] p = (Inl Err_NoReady, p)"
| "acquire_scan env (offset # rest) p =
     (let index = scan_index p offset in
      case servable p (p_slots p ! index) of
        None \<Rightarrow> acquire_scan env rest p
      | Some a \<Rightarrow>
          (case consume (acq_sql env offset) (p_unique p) (ep_ip (ep_of p a)) (p_store p) of
             ((ok, Some e), t) \<Rightarrow> (Inl (reservation_error e), p\<lparr>p_store := t\<rparr>)
           | ((ok, None), t) \<Rightarrow>
               (let p = p\<lparr>p_store := t\<rparr> in
                if \<not> ok then acquire_scan env rest (cancel_ep a p)
                else (Inr (length (p_leases p)), grant_unique (acq_now env) index a p))))"

text \<open>The loop of \<open>acquireReuseLocked\<close>.\<close>

fun acquire_reuse_scan :: "acq_env \<Rightarrow> nat list \<Rightarrow> pool \<Rightarrow> (gerr + nat) \<times> pool" where
  "acquire_reuse_scan env [] p = (Inl Err_NoReady, p)"
| "acquire_reuse_scan env (offset # rest) p =
     (let index = scan_index p offset in
      case servable p (p_slots p ! index) of
        None \<Rightarrow> acquire_reuse_scan env rest p
      | Some a \<Rightarrow>
          (case consume (acq_sql env offset) False (ep_ip (ep_of p a)) (p_store p) of
             ((ok, Some e), t) \<Rightarrow> (Inl (reservation_error e), p\<lparr>p_store := t\<rparr>)
           | ((ok, None), t) \<Rightarrow>
               (let p = p\<lparr>p_store := t\<rparr> in
                if \<not> ok then acquire_reuse_scan env rest (cancel_ep a p)
                else (Inr (length (p_leases p)), grant_reuse (acq_now env) index a p))))"

definition acquire_locked :: "acq_env \<Rightarrow> pool \<Rightarrow> (gerr + nat) \<times> pool" where
  "acquire_locked env p =
     (if \<not> p_unique p then acquire_reuse_scan env [0..<length (p_slots p)] p
      else acquire_scan env [0..<length (p_slots p)] p)"

definition count_rejected :: "pool \<Rightarrow> pool" where
  "count_rejected p = p\<lparr>p_rejected := p_rejected p + 1, p_revision := p_revision p + 1\<rparr>"

section \<open>Finishing a lease\<close>

definition count_result :: "nat \<Rightarrow> gerr option \<Rightarrow> pool \<Rightarrow> pool" where
  "count_result iid err p =
     (if err \<noteq> None
      then upd_slot iid (\<lambda>s. s\<lparr>slot_fails := slot_fails s + 1\<rparr>) (p\<lparr>p_failed := p_failed p + 1\<rparr>)
      else upd_slot iid (\<lambda>s. s\<lparr>slot_fails := 0\<rparr>) (p\<lparr>p_completed := p_completed p + 1\<rparr>))"

text \<open>The \<open>finish\<close> closure of \<open>acquireLocked\<close>, run through \<open>ep.once\<close>.\<close>

definition finish_unique :: "nat \<Rightarrow> gerr option \<Rightarrow> gotime \<Rightarrow> pool \<Rightarrow> pool option" where
  "finish_unique a err now p =
     (let ep = ep_of p a; iid = ep_id ep in
      if ep_once ep then Some p
      else if \<not> slot_in p iid \<or> ep_done ep then None
      else
        let p = upd_ep a (\<lambda>e. e\<lparr>ep_once := True, ep_last_err := err\<rparr>) p;
            p = count_result iid err p;
            p = (if slot_ep (slot_of p iid) = Some a
                 then upd_view iid (\<lambda>v. (case err of
                          Some e \<Rightarrow> v\<lparr>view_state := S_Rotating, view_last_error := error_text e\<rparr>
                        | None \<Rightarrow> v\<lparr>view_state := S_Rotating\<rparr>)) p
                 else p);
            p = event_locked iid ''Request finished; rotating'' now p
        in Some (upd_ep a (\<lambda>e. e\<lparr>ep_done := True\<rparr>) p))"

text \<open>\<open>ep.once.Do(func() { close(ep.done) })\<close>\<close>

definition close_done_once :: "nat \<Rightarrow> pool \<Rightarrow> pool option" where
  "close_done_once a p =
     (if ep_once (ep_of p a) then Some p
      else if ep_done (ep_of p a) then None
      else Some (upd_ep a (\<lambda>e. e\<lparr>ep_once := True, ep_done := True\<rparr>) p))"

definition finish_reuse :: "nat \<Rightarrow> gerr option \<Rightarrow> gotime \<Rightarrow> pool \<Rightarrow> pool option" where
  "finish_reuse a err now p =
     (let iid = ep_id (ep_of p a) in
      if \<not> slot_in p iid then None
      else
        let p = upd_ep a (\<lambda>e. if ep_active e > 0 then e\<lparr>ep_active := ep_active e - 1\<rparr> else e) p;
            p = count_result iid err p
        in case err of
             None \<Rightarrow> Some p
           | Some e \<Rightarrow>
               let p = upd_ep a (\<lambda>x. x\<lparr>ep_last_err := Some e\<rparr>) p;
                   p = (if slot_ep (slot_of p iid) = Some a
                        then event_locked iid ''Request finished; rotating'' now
                               (upd_view iid (\<lambda>v. v\<lparr>view_state := S_Rotating, view_last_error := error_text e\<rparr>)
                                 (upd_slot iid (\<lambda>s. s\<lparr>slot_ep := None\<rparr>) p))
                        else p)
               in close_done_once a p)"

definition finish_lease :: "nat \<Rightarrow> gerr option \<Rightarrow> gotime \<Rightarrow> pool \<Rightarrow> pool option" where
  "finish_lease l err now p =
     (let ls = p_leases p ! l in
      if p_unique p then finish_unique (lease_ep ls) err now p
      else if lease_once ls then Some p
      else finish_reuse (lease_ep ls) err now (p\<lparr>p_leases := (p_leases p)[l := ls\<lparr>lease_once := True\<rparr>]\<rparr>))"

section \<open>The worker's side and the observers\<close>

definition reuse_active :: "nat \<Rightarrow> pool \<Rightarrow> nat" where
  "reuse_active a p = ep_active (ep_of p a)"

definition pool_size :: "pool \<Rightarrow> nat" where
  "pool_size p = length (p_slots p)"

definition consecutive_failures :: "nat \<Rightarrow> pool \<Rightarrow> nat option" where
  "consecutive_failures iid p = (if slot_in p iid then Some (slot_fails (slot_of p iid)) else None)"

definition withdraw :: "nat \<Rightarrow> pool \<Rightarrow> pool option" where
  "withdraw a p =
     (let ep = ep_of p a; iid = ep_id ep;
          p = (if p_reserved p (ep_ip ep) = Some a
               then p\<lparr>p_reserved := (p_reserved p)(ep_ip ep := None)\<rparr> else p)
      in if \<not> slot_in p iid then None
         else
           let p = (if slot_ep (slot_of p iid) = Some a
                    then let p = upd_slot iid (\<lambda>s. s\<lparr>slot_ep := None\<rparr>) p;
                             p = upd_view iid (\<lambda>v. v\<lparr>view_state := S_Rotating\<rparr>) p
                         in p\<lparr>p_revision := p_revision p + 1\<rparr>
                    else p)
           in Some (cancel_ep a p))"

definition pool_ready :: "pool \<Rightarrow> bool" where
  "pool_ready p \<longleftrightarrow> list_ex (\<lambda>s. servable p s \<noteq> None) (p_slots p)"

record snapshot =
  snap_started :: gotime
  snap_instances :: "instance_view list"
  snap_states :: "inst_state \<Rightarrow> nat"
  snap_requests :: uint64
  snap_completed :: uint64
  snap_failed :: uint64
  snap_rejected :: uint64
  snap_known_ips :: nat
  snap_used_ips :: nat
  snap_events :: "pool_event list"
  snap_revision :: uint64
  snap_unique_ip :: bool
  snap_max_used_ip_retries :: int

text \<open>
  \<open>Snapshot\<close>: the counters of the store are read after the pool lock is released, from the
  table \<open>t\<close> at that later moment; \<open>err\<close> is the answer of the driver.
\<close>

definition pool_snapshot :: "gerr option \<Rightarrow> ip_table \<Rightarrow> pool \<Rightarrow> snapshot \<times> gerr option" where
  "pool_snapshot err t p =
     (case counts err t of
        ((known, used), e) \<Rightarrow>
          (\<lparr>snap_started = p_started p,
            snap_instances = map slot_view (p_slots p),
            snap_states = (\<lambda>st. length (filter (\<lambda>s. view_state (slot_view s) = st) (p_slots p))),
            snap_requests = p_requests p, snap_completed = p_completed p, snap_failed = p_failed p,
            snap_rejected = p_rejected p, snap_known_ips = known, snap_used_ips = used,
            snap_events = p_events p, snap_revision = p_revision p, snap_unique_ip = p_unique p,
            snap_max_used_ip_retries = p_max_used_ip_retries p\<rparr>, e))"

end
