(* ===== verification/PoolInv.thy ===== *)
theory PoolInv
  imports Pool
begin

text \<open>
  The pool as a state machine: every goroutine touches it only through the operations of
  \<open>Pool\<close>, each under the lock, so an execution is a sequence of them in any order. This
  theory gives the step relation, the structural invariant of the reachable states and the
  invariants of the two modes, each proved operation by operation.
\<close>

section \<open>Frames of the helpers\<close>

lemmas pool_upd_defs = upd_slot_def upd_view_def upd_ep_def cancel_ep_def add_endpoint_def
  event_locked_def broadcast_locked_def count_result_def count_rejected_def add_lease_def Let_def

section \<open>Steps\<close>

text \<open>
  The guards say which calls the sources contain: workers pass \<open>state\<close> any state but
  Ready and Busy, endpoints are allocated by a worker for its own slot, and every other call is made
  on an endpoint or a lease that exists.
\<close>

inductive pool_step :: "pool \<Rightarrow> pool \<Rightarrow> bool" where
  step_new: "slot_in p iid \<Longrightarrow> pool_step p (add_endpoint (new_endpoint iid ip circuit token c) p)"
| step_state: "st \<notin> {S_Ready, S_Busy} \<Longrightarrow> pool_state iid st progress problem now p = Some p' \<Longrightarrow>
    pool_step p p'"
| step_publish: "a < length (p_eps p) \<Longrightarrow> publish env now a p = Some (r, p') \<Longrightarrow> pool_step p p'"
| step_acquire: "acquire_locked acq p = (r, p') \<Longrightarrow> pool_step p p'"
| step_reject: "pool_step p (count_rejected p)"
| step_finish: "l < length (p_leases p) \<Longrightarrow> finish_lease l err now p = Some p' \<Longrightarrow> pool_step p p'"
| step_withdraw: "a < length (p_eps p) \<Longrightarrow> withdraw a p = Some p' \<Longrightarrow> pool_step p p'"
| step_cancel: "a < length (p_eps p) \<Longrightarrow> pool_step p (cancel_ep a p)"

abbreviation pool_steps :: "pool \<Rightarrow> pool \<Rightarrow> bool" where
  "pool_steps \<equiv> pool_step\<^sup>*\<^sup>*"

text \<open>A pool some execution of the program can reach, from a configuration and the table on disk.\<close>

definition pool_reachable :: "config \<Rightarrow> ip_table \<Rightarrow> pool \<Rightarrow> bool" where
  "pool_reachable cfg t p \<longleftrightarrow> table_ok t \<and> (\<exists>now. pool_steps (new_pool cfg t now) p)"

section \<open>The structural invariant\<close>

definition slot_ok :: "endpoint list \<Rightarrow> nat \<Rightarrow> slot \<Rightarrow> bool" where
  "slot_ok eps i s \<longleftrightarrow>
     view_id (slot_view s) = i + 1 \<and>
     (\<forall>a. slot_ep s = Some a \<longrightarrow> a < length eps \<and> ep_id (eps ! a) = i + 1) \<and>
     (view_state (slot_view s) \<in> {S_Ready, S_Busy} \<longrightarrow> slot_ep s \<noteq> None)"

definition slots_ok :: "pool \<Rightarrow> bool" where
  "slots_ok p \<longleftrightarrow> (\<forall>i < length (p_slots p). slot_ok (p_eps p) i (p_slots p ! i))"

definition eps_ok :: "pool \<Rightarrow> bool" where
  "eps_ok p \<longleftrightarrow> (\<forall>a < length (p_eps p). slot_in p (ep_id (p_eps p ! a)) \<and>
     ep_done (p_eps p ! a) = ep_once (p_eps p ! a))"

definition reserved_ok :: "pool \<Rightarrow> bool" where
  "reserved_ok p \<longleftrightarrow> (\<forall>ip a. p_reserved p ip = Some a \<longrightarrow> a < length (p_eps p) \<and> ep_ip (p_eps p ! a) = ip)"

definition leases_ok :: "pool \<Rightarrow> bool" where
  "leases_ok p \<longleftrightarrow> (\<forall>l < length (p_leases p). lease_ep (p_leases p ! l) < length (p_eps p) \<and>
     lease_ip (p_leases p ! l) = ep_ip (p_eps p ! lease_ep (p_leases p ! l)) \<and>
     lease_instance (p_leases p ! l) = ep_id (p_eps p ! lease_ep (p_leases p ! l)))"

definition bounds_ok :: "pool \<Rightarrow> bool" where
  "bounds_ok p \<longleftrightarrow> (p_next p < length (p_slots p) \<or> p_next p = 0) \<and> length (p_events p) \<le> 100 \<and>
     table_ok (p_store p)"

definition pool_wf :: "pool \<Rightarrow> bool" where
  "pool_wf p \<longleftrightarrow> slots_ok p \<and> eps_ok p \<and> reserved_ok p \<and> leases_ok p \<and> bounds_ok p"

lemmas wf_defs = pool_wf_def slots_ok_def eps_ok_def reserved_ok_def leases_ok_def bounds_ok_def

lemma wf_new_pool: "table_ok t \<Longrightarrow> pool_wf (new_pool cfg t now)"
  by (simp add: wf_defs slot_ok_def new_pool_def new_view_def)

text \<open>
  The fields of a pool the invariant reads; an update of any other field keeps it, and so do the
  updates of one slot or one endpoint below.
\<close>

lemma wf_cong:
  assumes "pool_wf p" and "p_slots q = p_slots p" and "p_eps q = p_eps p"
    and "p_reserved q = p_reserved p" and "p_leases q = p_leases p"
    and "p_next q = p_next p" and "p_events q = p_events p" and "p_store q = p_store p"
  shows "pool_wf q"
  using assms by (simp add: wf_defs slot_in_def)

lemma wf_event [inv_intros]: "pool_wf p \<Longrightarrow> pool_wf (event_locked iid m now p)"
  by (auto simp: wf_defs event_locked_def Let_def slot_in_def)

lemma wf_store [inv_intros]: "pool_wf p \<Longrightarrow> table_ok t \<Longrightarrow> pool_wf (p\<lparr>p_store := t\<rparr>)"
  by (simp add: wf_defs slot_in_def)

lemma wf_broadcast [inv_intros]: "pool_wf p \<Longrightarrow> pool_wf (broadcast_locked p)"
  by (simp add: wf_defs broadcast_locked_def slot_in_def)

lemma wf_slots:
  assumes "pool_wf p" and "j < length (p_slots p) \<Longrightarrow> slot_ok (p_eps p) j s"
  shows "pool_wf (p\<lparr>p_slots := (p_slots p)[j := s]\<rparr>)"
proof -
  have "slots_ok (p\<lparr>p_slots := (p_slots p)[j := s]\<rparr>)"
    using assms by (auto simp: pool_wf_def slots_ok_def nth_update_if)
  with assms(1) show ?thesis
    by (simp add: pool_wf_def eps_ok_def reserved_ok_def leases_ok_def bounds_ok_def slot_in_def)
qed

lemma wf_upd_slot:
  assumes "pool_wf p" and "slot_in p iid \<Longrightarrow> slot_ok (p_eps p) (iid - 1) (slot_of p iid) \<Longrightarrow>
     slot_ok (p_eps p) (iid - 1) (f (slot_of p iid))" and "iid \<noteq> 0"
  shows "pool_wf (upd_slot iid f p)"
  unfolding upd_slot_def
proof (rule wf_slots [OF assms(1)])
  assume lt: "iid - 1 < length (p_slots p)"
  then have "slot_ok (p_eps p) (iid - 1) (slot_of p iid)"
    using assms(1) by (simp add: pool_wf_def slots_ok_def slot_of_def)
  with lt assms(2,3) show "slot_ok (p_eps p) (iid - 1) (f (p_slots p ! (iid - 1)))"
    by (auto simp: slot_in_def slot_of_def)
qed

lemma wf_upd_ep:
  assumes "pool_wf p" and "\<And>e. ep_id (f e) = ep_id e" and "\<And>e. ep_ip (f e) = ep_ip e"
    and "\<And>e. ep_done e = ep_once e \<Longrightarrow> ep_done (f e) = ep_once (f e)"
  shows "pool_wf (upd_ep a f p)"
proof -
  let ?q = "upd_ep a f p"
  have ids: "ep_id (p_eps ?q ! b) = ep_id (p_eps p ! b)" "ep_ip (p_eps ?q ! b) = ep_ip (p_eps p ! b)"
    if "b < length (p_eps p)" for b
    using that assms(2,3) by (auto simp: upd_ep_def nth_update_if)
  have len: "length (p_eps ?q) = length (p_eps p)" and sl: "p_slots ?q = p_slots p"
    by (simp_all add: upd_ep_def)
  have "slots_ok ?q"
    using assms(1) ids len sl by (auto simp: pool_wf_def slots_ok_def slot_ok_def)
  moreover have "eps_ok ?q"
    using assms by (auto simp: pool_wf_def eps_ok_def upd_ep_def slot_in_def nth_update_if)
  moreover have "reserved_ok ?q" "leases_ok ?q" "bounds_ok ?q"
    using assms(1) ids len by (auto simp: pool_wf_def reserved_ok_def leases_ok_def bounds_ok_def upd_ep_def)
  ultimately show ?thesis by (simp add: pool_wf_def)
qed

lemma wf_cancel [inv_intros]: "pool_wf p \<Longrightarrow> pool_wf (cancel_ep a p)"
  unfolding cancel_ep_def by (rule wf_upd_ep) auto

lemma wf_revision [inv_intros]: "pool_wf p \<Longrightarrow> pool_wf (p\<lparr>p_revision := r\<rparr>)"
  by (erule wf_cong) auto

lemma wf_upd_view:
  assumes "pool_wf p" and "iid \<noteq> 0" and "\<And>v. view_id (f v) = view_id v"
    and "slot_in p iid \<Longrightarrow> view_state (f (slot_view (slot_of p iid))) \<in> {S_Ready, S_Busy} \<Longrightarrow>
           view_state (slot_view (slot_of p iid)) \<in> {S_Ready, S_Busy} \<or> slot_ep (slot_of p iid) \<noteq> None"
  shows "pool_wf (upd_view iid f p)"
  unfolding upd_view_def
  by (rule wf_upd_slot [OF assms(1) _ assms(2)]) (use assms(3,4) in \<open>auto simp: slot_ok_def\<close>)

lemma wf_slot_ep_None [inv_intros]:
  assumes "pool_wf p" and "iid \<noteq> 0"
    and "slot_in p iid \<Longrightarrow> view_state (f (slot_view (slot_of p iid))) \<notin> {S_Ready, S_Busy}"
    and "\<And>v. view_id (f v) = view_id v"
  shows "pool_wf (upd_view iid f (upd_slot iid (\<lambda>s. s\<lparr>slot_ep := None\<rparr>) p))"
proof -
  have "pool_wf (upd_slot iid (\<lambda>s. s\<lparr>slot_ep := None, slot_view := f (slot_view s)\<rparr>) p)"
    by (rule wf_upd_slot) (use assms in \<open>auto simp: slot_ok_def\<close>)
  moreover have "upd_view iid f (upd_slot iid (\<lambda>s. s\<lparr>slot_ep := None\<rparr>) p)
      = upd_slot iid (\<lambda>s. s\<lparr>slot_ep := None, slot_view := f (slot_view s)\<rparr>) p"
    by (cases "iid - 1 < length (p_slots p)") (auto simp: upd_view_def upd_slot_def list_update_beyond)
  ultimately show ?thesis by simp
qed

lemma ep_id_in: "pool_wf p \<Longrightarrow> a < length (p_eps p) \<Longrightarrow> slot_in p (ep_id (ep_of p a))"
  by (simp add: pool_wf_def eps_ok_def ep_of_def)

lemma slot_in_nonzero: "slot_in p iid \<Longrightarrow> iid \<noteq> 0"
  by (simp add: slot_in_def)

lemma wf_add_endpoint:
  assumes "pool_wf p" and "slot_in p iid"
  shows "pool_wf (add_endpoint (new_endpoint iid ip c tok x) p)" (is "pool_wf ?q")
proof -
  have old: "p_eps ?q ! a = p_eps p ! a" if "a < length (p_eps p)" for a
    using that by (simp add: add_endpoint_def nth_append)
  have new: "p_eps ?q ! length (p_eps p) = new_endpoint iid ip c tok x"
    by (simp add: add_endpoint_def)
  have len: "length (p_eps ?q) = Suc (length (p_eps p))"
    by (simp add: add_endpoint_def)
  have same: "p_slots ?q = p_slots p" "p_reserved ?q = p_reserved p" "p_leases ?q = p_leases p"
    by (simp_all add: add_endpoint_def)
  have "slots_ok ?q"
    using assms(1) old len same by (auto simp: pool_wf_def slots_ok_def slot_ok_def)
  moreover have "eps_ok ?q"
    using assms old new len same
    by (auto simp: pool_wf_def eps_ok_def slot_in_def less_Suc_eq new_endpoint_def)
  moreover have "reserved_ok ?q"
    using assms(1) old len same by (auto simp: pool_wf_def reserved_ok_def less_SucI)
  moreover have "leases_ok ?q"
    using assms(1) old len same by (auto simp: pool_wf_def leases_ok_def less_SucI)
  moreover have "bounds_ok ?q"
    using assms(1) by (simp add: pool_wf_def bounds_ok_def add_endpoint_def)
  ultimately show ?thesis by (simp add: pool_wf_def)
qed

lemma wf_pool_state:
  assumes "pool_wf p" and "st \<notin> {S_Ready, S_Busy}" and "pool_state iid st progress problem now p = Some p'"
  shows "pool_wf p'"
proof -
  obtain v c where v: "state_view st progress problem (slot_view (slot_of p iid)) = (v, c)"
    by (cases "state_view st progress problem (slot_view (slot_of p iid))")
  have iid: "slot_in p iid" using assms(3) by (auto simp: pool_state_def split: if_splits)
  have "slot_ok (p_eps p) (iid - 1) (slot_of p iid)"
    using assms(1) iid by (auto simp: pool_wf_def slots_ok_def slot_of_def slot_in_def)
  then have "view_id v = view_id (slot_view (slot_of p iid))" and "view_state v = st"
    using v by (auto simp: state_view_def Let_def split: option.splits if_splits)
  then have "pool_wf (upd_view iid (\<lambda>_. v) p)"
    using assms(1,2) iid unfolding upd_view_def
    by (intro wf_upd_slot) (auto simp: slot_ok_def slot_in_def)
  then show ?thesis
    using assms(3) v iid by (auto simp: pool_state_def Let_def split: if_splits intro: inv_intros)
qed

lemma wf_make_ready:
  assumes "pool_wf p" and "a < length (p_eps p)"
  shows "pool_wf (make_ready a now p)"
proof -
  let ?iid = "ep_id (ep_of p a)"
  let ?f = "\<lambda>v. v\<lparr>view_state := S_Ready, view_last_error := ''''\<rparr>"
  have iid: "slot_in p ?iid" by (rule ep_id_in [OF assms])
  let ?p1 = "upd_slot ?iid (\<lambda>s. s\<lparr>slot_ep := Some a\<rparr>) p"
  have p1: "pool_wf ?p1"
    using assms iid by (intro wf_upd_slot) (auto simp: slot_ok_def slot_in_def ep_of_def)
  let ?p2 = "if p_unique ?p1 then ?p1\<lparr>p_reserved := (p_reserved ?p1)(ep_ip (ep_of p a) \<mapsto> a)\<rparr> else ?p1"
  have p2: "pool_wf ?p2"
    using p1 assms(2) by (auto simp: wf_defs slot_in_def upd_slot_def ep_of_def)
  have ep: "slot_ep (slot_of ?p2 ?iid) = Some a"
    using iid by (auto simp: slot_of_def upd_slot_def slot_in_def)
  have p3: "pool_wf (upd_view ?iid ?f ?p2)"
    using iid ep by (intro wf_upd_view [OF p2]) (auto simp: slot_in_def)
  show ?thesis
    unfolding make_ready_def Let_def by (intro inv_intros p3)
qed

lemma wf_publish:
  assumes "pool_wf p" and "a < length (p_eps p)" and "publish env now a p = Some (r, p')"
  shows "pool_wf p'"
proof -
  let ?e = "ep_of p a"
  let ?p1 = "upd_view (ep_id ?e)
    (\<lambda>v. v\<lparr>view_ip := ep_ip ?e, view_circuit := ep_circuit ?e, view_last_check := now\<rparr>) p"
  have iid: "slot_in p (ep_id ?e)" by (rule ep_id_in [OF assms(1,2)])
  have p1: "pool_wf ?p1"
    using assms(1) iid by (intro wf_upd_view) (auto simp: slot_in_def)
  obtain u e t where o: "observe env (ep_ip ?e) (p_store ?p1) = ((u, e), t)"
    by (metis surj_pair)
  have "table_ok t"
    using p1 o by (auto simp: pool_wf_def bounds_ok_def intro: ledger.observe_good)
  with p1 have p2: "pool_wf (?p1\<lparr>p_store := t\<rparr>)" by (rule wf_store)
  have len: "a < length (p_eps (?p1\<lparr>p_store := t\<rparr>))"
    using assms(2) by (simp add: upd_view_def upd_slot_def)
  show ?thesis
    using assms(3) iid o p2 wf_make_ready [OF p2 len]
    by (auto simp: publish_def Let_def split: if_splits option.splits)
qed

text \<open>
  A rule for the two scans: what holds of the pool before, and is kept when the store answers, when
  an endpoint is cancelled and when a lease is granted, holds of the pool after.
\<close>

lemma servable_Some:
  "servable p s = Some a \<longleftrightarrow>
     slot_ep s = Some a \<and> view_state (slot_view s) = S_Ready \<and> \<not> ep_cancelled (ep_of p a)"
  by (auto simp: servable_def split: option.splits if_splits)

lemma scan_index_less: "p_slots p \<noteq> [] \<Longrightarrow> scan_index p offset < length (p_slots p)"
  by (simp add: scan_index_def)

text \<open>
  The two loops have one shape, with the mode's flag for \<open>Consume\<close> and the mode's way of
  granting; facts about both are proved on the shape.
\<close>

fun scan :: "bool \<Rightarrow> acq_env \<Rightarrow> nat list \<Rightarrow> pool \<Rightarrow> (gerr + nat) \<times> pool" where
  "scan u env [] p = (Inl Err_NoReady, p)"
| "scan u env (offset # rest) p =
     (let index = scan_index p offset in
      case servable p (p_slots p ! index) of
        None \<Rightarrow> scan u env rest p
      | Some a \<Rightarrow>
          (case consume (acq_sql env offset) u (ep_ip (ep_of p a)) (p_store p) of
             ((ok, Some e), t) \<Rightarrow> (Inl (reservation_error e), p\<lparr>p_store := t\<rparr>)
           | ((ok, None), t) \<Rightarrow>
               (let p = p\<lparr>p_store := t\<rparr> in
                if \<not> ok then scan u env rest (cancel_ep a p)
                else (Inr (length (p_leases p)),
                      (if u then grant_unique else grant_reuse) (acq_now env) index a p))))"

lemma acquire_scan_eq: "p_unique p \<Longrightarrow> acquire_scan env os p = scan True env os p"
  by (induction True env os p rule: scan.induct)
    (auto simp: Let_def cancel_ep_def upd_ep_def split: option.split prod.split)

lemma acquire_reuse_scan_eq: "acquire_reuse_scan env os p = scan False env os p"
  by (induction False env os p rule: scan.induct)
    (auto simp: Let_def split: option.split prod.split)

lemma acquire_locked_eq:
  "acquire_locked env p = scan (p_unique p) env [0..<length (p_slots p)] p"
  by (simp add: acquire_locked_def acquire_scan_eq acquire_reuse_scan_eq)

lemma scan_rule:
  assumes "scan m acq os p = (r, p')" and "P p" and "p_slots p \<noteq> []"
    and store: "\<And>q a i env u e t. P q \<Longrightarrow> i < length (p_slots q) \<Longrightarrow> servable q (p_slots q ! i) = Some a \<Longrightarrow>
        consume env m (ep_ip (ep_of q a)) (p_store q) = ((u, e), t) \<Longrightarrow> P (q\<lparr>p_store := t\<rparr>)"
    and cancel: "\<And>q a. P q \<Longrightarrow> P (cancel_ep a q)"
    and grant: "\<And>q a i env t. P q \<Longrightarrow> i < length (p_slots q) \<Longrightarrow> servable q (p_slots q ! i) = Some a \<Longrightarrow>
        consume env m (ep_ip (ep_of q a)) (p_store q) = ((True, None), t) \<Longrightarrow>
        P ((if m then grant_unique else grant_reuse) (acq_now acq) i a (q\<lparr>p_store := t\<rparr>))"
  shows "P p'"
  using assms(1-3)
proof (induction os arbitrary: p)
  case (Cons offset rest)
  let ?i = "scan_index p offset"
  have i: "?i < length (p_slots p)" using Cons.prems(3) by (rule scan_index_less)
  show ?case
  proof (cases "servable p (p_slots p ! ?i)")
    case None
    with Cons show ?thesis by simp
  next
    case (Some a)
    obtain ok e t where c: "consume (acq_sql acq offset) m (ep_ip (ep_of p a)) (p_store p)
        = ((ok, e), t)" by (metis surj_pair)
    have t: "P (p\<lparr>p_store := t\<rparr>)" using Cons.prems(2) i Some c by (rule store)
    consider (granted) "e = None" "ok" | (refused) "e = None" "\<not> ok" | (failed) e' where "e = Some e'"
      by (cases e) auto
    then show ?thesis
    proof cases
      case granted
      with c have "P ((if m then grant_unique else grant_reuse) (acq_now acq) ?i a (p\<lparr>p_store := t\<rparr>))"
        using grant [OF Cons.prems(2) i Some] by simp
      with granted Cons.prems Some c show ?thesis by (simp add: Let_def)
    next
      case refused
      then have "scan m acq rest (cancel_ep a (p\<lparr>p_store := t\<rparr>)) = (r, p')"
        using Cons.prems(1) Some c by (simp add: Let_def)
      moreover have "p_slots (cancel_ep a (p\<lparr>p_store := t\<rparr>)) \<noteq> []"
        using Cons.prems(3) by (simp add: cancel_ep_def upd_ep_def)
      ultimately show ?thesis by (rule Cons.IH [OF _ cancel [OF t]])
    next
      case failed
      with Cons.prems(1) Some c t show ?thesis by (simp add: Let_def)
    qed
  qed
qed simp

text \<open>The rule for \<open>acquireLocked\<close> as a whole; with no slots it does nothing.\<close>

lemma acquire_rule:
  assumes "acquire_locked acq p = (r, p')" and "P p"
    and "\<And>q a i env u e t. P q \<Longrightarrow> i < length (p_slots q) \<Longrightarrow> servable q (p_slots q ! i) = Some a \<Longrightarrow>
        consume env (p_unique p) (ep_ip (ep_of q a)) (p_store q) = ((u, e), t) \<Longrightarrow> P (q\<lparr>p_store := t\<rparr>)"
    and "\<And>q a. P q \<Longrightarrow> P (cancel_ep a q)"
    and "\<And>q a i env t. P q \<Longrightarrow> i < length (p_slots q) \<Longrightarrow> servable q (p_slots q ! i) = Some a \<Longrightarrow>
        consume env (p_unique p) (ep_ip (ep_of q a)) (p_store q) = ((True, None), t) \<Longrightarrow>
        P ((if p_unique p then grant_unique else grant_reuse) (acq_now acq) i a (q\<lparr>p_store := t\<rparr>))"
  shows "P p'"
proof (cases "p_slots p = []")
  case True
  with assms(1,2) show ?thesis by (simp add: acquire_locked_eq)
next
  case False
  then show ?thesis
    by (rule scan_rule [where P = P, OF assms(1) [unfolded acquire_locked_eq] assms(2)])
      (use assms(3-5) in blast)+
qed

subsection \<open>Acquire and finish keep the structure\<close>

lemma wf_add_lease [inv_intros]:
  "pool_wf p \<Longrightarrow> a < length (p_eps p) \<Longrightarrow> pool_wf (add_lease a p)"
  by (auto simp: wf_defs add_lease_def slot_in_def ep_of_def nth_append less_Suc_eq)

lemma wf_next:
  assumes "pool_wf p" and "i < length (p_slots p)"
  shows "pool_wf (p\<lparr>p_requests := r, p_next := (i + 1) mod length (p_slots p)\<rparr>)"
proof -
  have "(i + 1) mod length (p_slots p) < length (p_slots p)"
    by (rule mod_less_divisor) (rule le_less_trans [OF le0 assms(2)])
  with assms(1) show ?thesis by (simp add: wf_defs slot_in_def)
qed

lemma wf_servable:
  assumes "pool_wf p" and "i < length (p_slots p)" and "servable p (p_slots p ! i) = Some a"
  shows "a < length (p_eps p)" and "ep_id (ep_of p a) = i + 1" and "slot_ep (slot_of p (i + 1)) = Some a"
  using assms by (auto simp: pool_wf_def slots_ok_def slot_ok_def servable_Some ep_of_def slot_of_def)

lemma wf_grant_unique:
  assumes "pool_wf p" and "i < length (p_slots p)" and "servable p (p_slots p ! i) = Some a"
  shows "pool_wf (grant_unique now i a p)"
proof -
  let ?p1 = "upd_view (i + 1) (\<lambda>v. v\<lparr>view_state := S_Busy, view_requests := view_requests v + 1\<rparr>) p"
  have "pool_wf ?p1"
    using wf_servable(3) [OF assms] by (intro wf_upd_view assms(1)) auto
  then have "pool_wf (?p1\<lparr>p_requests := p_requests ?p1 + 1, p_next := (i + 1) mod length (p_slots ?p1)\<rparr>)"
    by (rule wf_next) (simp add: pool_upd_defs assms(2))
  moreover have "length (p_eps ?p1) = length (p_eps p)" by (simp add: pool_upd_defs)
  ultimately show ?thesis
    unfolding grant_unique_def Let_def
    by (intro inv_intros) (use wf_servable(1) [OF assms] in \<open>auto simp: event_locked_def Let_def\<close>)
qed

lemma wf_grant_reuse:
  assumes "pool_wf p" and "i < length (p_slots p)" and "servable p (p_slots p ! i) = Some a"
  shows "pool_wf (grant_reuse now i a p)"
proof -
  let ?p1 = "upd_view (i + 1) (\<lambda>v. v\<lparr>view_requests := view_requests v + 1, view_last_check := now\<rparr>) p"
  have "pool_wf ?p1"
    using wf_servable(3) [OF assms] by (intro wf_upd_view assms(1)) auto
  then have "pool_wf (?p1\<lparr>p_requests := p_requests ?p1 + 1, p_next := (i + 1) mod length (p_slots ?p1)\<rparr>)"
    (is "pool_wf ?p2") by (rule wf_next) (simp add: pool_upd_defs assms(2))
  then have "pool_wf (upd_ep a (\<lambda>e. e\<lparr>ep_active := ep_active e + 1\<rparr>) ?p2)"
    by (rule wf_upd_ep) auto
  moreover have "length (p_eps (upd_ep a (\<lambda>e. e\<lparr>ep_active := ep_active e + 1\<rparr>) ?p2)) = length (p_eps p)"
    by (simp add: pool_upd_defs)
  ultimately show ?thesis
    unfolding grant_reuse_def Let_def
    by (intro inv_intros) (use wf_servable(1) [OF assms] in \<open>auto simp: event_locked_def Let_def\<close>)
qed

lemma wf_acquire:
  assumes "pool_wf p" and "acquire_locked acq p = (r, p')"
  shows "pool_wf p'"
proof (rule acquire_rule [where P = pool_wf, OF assms(2,1)])
  fix q a i env u e t
  assume q: "pool_wf q" and "consume env (p_unique p) (ep_ip (ep_of q a)) (p_store q) = ((u, e), t)"
  then have "table_ok t"
    by (auto simp: pool_wf_def bounds_ok_def intro: ledger.consume_good)
  with q show "pool_wf (q\<lparr>p_store := t\<rparr>)" by (rule wf_store)
next
  fix q a i env t
  assume q: "pool_wf q" and i: "i < length (p_slots q)" and s: "servable q (p_slots q ! i) = Some a"
    and c: "consume env (p_unique p) (ep_ip (ep_of q a)) (p_store q) = ((True, None), t)"
  have "table_ok t" using q c by (auto simp: pool_wf_def bounds_ok_def intro: ledger.consume_good)
  with q have q': "pool_wf (q\<lparr>p_store := t\<rparr>)" by (rule wf_store)
  have s': "servable (q\<lparr>p_store := t\<rparr>) (p_slots (q\<lparr>p_store := t\<rparr>) ! i) = Some a"
    using s by (simp add: servable_Some ep_of_def)
  show "pool_wf ((if p_unique p then grant_unique else grant_reuse) (acq_now acq) i a (q\<lparr>p_store := t\<rparr>))"
    using wf_grant_unique [OF q' _ s'] wf_grant_reuse [OF q' _ s'] i by simp
qed (rule wf_cancel)

text \<open>
  The rule for invariants that need the structure and the mode: both hold at every point of the scan.
\<close>

lemma acquire_wf_rule:
  assumes "acquire_locked acq p = (r, p')" and "pool_wf p" and "P p"
    and store: "\<And>q a env u e t. pool_wf q \<Longrightarrow> p_unique q = p_unique p \<Longrightarrow> P q \<Longrightarrow>
        consume env (p_unique p) (ep_ip (ep_of q a)) (p_store q) = ((u, e), t) \<Longrightarrow> P (q\<lparr>p_store := t\<rparr>)"
    and cancel: "\<And>q a. pool_wf q \<Longrightarrow> P q \<Longrightarrow> P (cancel_ep a q)"
    and grant: "\<And>q a i env t. pool_wf q \<Longrightarrow> p_unique q = p_unique p \<Longrightarrow> P q \<Longrightarrow> i < length (p_slots q) \<Longrightarrow>
        a < length (p_eps q) \<Longrightarrow> servable q (p_slots q ! i) = Some a \<Longrightarrow>
        consume env (p_unique p) (ep_ip (ep_of q a)) (p_store q) = ((True, None), t) \<Longrightarrow>
        P ((if p_unique p then grant_unique else grant_reuse) (acq_now acq) i a (q\<lparr>p_store := t\<rparr>))"
  shows "P p'"
proof -
  define Q where "Q = (\<lambda>q. pool_wf q \<and> p_unique q = p_unique p \<and> P q)"
  have wf: "pool_wf (q\<lparr>p_store := t\<rparr>)"
    if "pool_wf q" "consume env (p_unique p) (ep_ip (ep_of q a)) (p_store q) = ((u, e), t)" for q a env u e t
    using that by (intro wf_store) (auto simp: pool_wf_def bounds_ok_def intro: ledger.consume_good)
  have "Q p'"
  proof (rule acquire_rule [where P = Q, OF assms(1)])
    show "Q p" using assms(2,3) by (simp add: Q_def)
  next
    fix q a i env u e t
    assume "Q q" and "consume env (p_unique p) (ep_ip (ep_of q a)) (p_store q) = ((u, e), t)"
    then show "Q (q\<lparr>p_store := t\<rparr>)" using wf store by (simp add: Q_def)
  next
    fix q a
    assume "Q q"
    then show "Q (cancel_ep a q)" using wf_cancel cancel by (simp add: Q_def cancel_ep_def upd_ep_def)
  next
    fix q a i env t
    assume q: "Q q" and i: "i < length (p_slots q)" and sv: "servable q (p_slots q ! i) = Some a"
      and c: "consume env (p_unique p) (ep_ip (ep_of q a)) (p_store q) = ((True, None), t)"
    let ?g = "(if p_unique p then grant_unique else grant_reuse) (acq_now acq) i a (q\<lparr>p_store := t\<rparr>)"
    have w: "pool_wf q" "p_unique q = p_unique p" "P q" using q by (simp_all add: Q_def)
    have w': "pool_wf (q\<lparr>p_store := t\<rparr>)" by (rule wf [OF w(1) c])
    have i': "i < length (p_slots (q\<lparr>p_store := t\<rparr>))"
      and sv': "servable (q\<lparr>p_store := t\<rparr>) (p_slots (q\<lparr>p_store := t\<rparr>) ! i) = Some a"
      using i sv by (simp_all add: servable_Some ep_of_def)
    have "pool_wf ?g" using wf_grant_unique [OF w' i' sv'] wf_grant_reuse [OF w' i' sv'] by simp
    moreover have "p_unique ?g = p_unique p" using w(2) by (simp add: grant_unique_def grant_reuse_def pool_upd_defs)
    moreover have "P ?g" by (rule grant [OF w i wf_servable(1) [OF w(1) i sv] sv c])
    ultimately show "Q ?g" by (simp add: Q_def)
  qed
  then show ?thesis by (simp add: Q_def)
qed

lemma wf_count_result [inv_intros]:
  assumes "pool_wf p" and "iid \<noteq> 0"
  shows "pool_wf (count_result iid err p)"
proof -
  have *: "pool_wf (p\<lparr>p_failed := x\<rparr>)" "pool_wf (p\<lparr>p_completed := x\<rparr>)" for x
    using assms(1) by (auto intro: wf_cong)
  show ?thesis
    unfolding count_result_def
    by (cases "err = None")
      (auto intro!: wf_upd_slot * simp: slot_ok_def assms(2) [simplified])
qed

lemma finish_unique_eps [simp]: "length (p_eps (count_result iid err p)) = length (p_eps p)"
  by (simp add: count_result_def upd_slot_def)

text \<open>Both ways of finishing a lease withdraw a slot with the state Rotating.\<close>

definition rotating_view :: "gerr option \<Rightarrow> instance_view \<Rightarrow> instance_view" where
  "rotating_view err v = (case err of
       Some e \<Rightarrow> v\<lparr>view_state := S_Rotating, view_last_error := error_text e\<rparr>
     | None \<Rightarrow> v\<lparr>view_state := S_Rotating\<rparr>)"

lemma rotating_view_simps [simp]:
  "view_id (rotating_view err v) = view_id v" "view_state (rotating_view err v) = S_Rotating"
  by (auto simp: rotating_view_def split: option.split)

text \<open>An update of an endpoint commutes with what happens to the slots and the event log.\<close>

lemma upd_ep_event: "upd_ep a f (event_locked iid m now p) = event_locked iid m now (upd_ep a f p)"
  by (simp add: upd_ep_def event_locked_def Let_def)

lemma upd_ep_view: "upd_ep a f (upd_view iid g p) = upd_view iid g (upd_ep a f p)"
  by (simp add: upd_ep_def upd_view_def upd_slot_def)

lemma upd_ep_count: "upd_ep a f (count_result iid err p) = count_result iid err (upd_ep a f p)"
  by (simp add: upd_ep_def upd_slot_def count_result_def)

lemma upd_ep_twice: "upd_ep a f (upd_ep a g p) = upd_ep a (\<lambda>e. f (g e)) p"
  by (cases "a < length (p_eps p)") (simp_all add: upd_ep_def list_update_beyond)

lemma slot_of_upd_ep [simp]: "slot_of (upd_ep a f p) iid = slot_of p iid"
  by (simp add: slot_of_def upd_ep_def)

lemma slot_of_count_ep [simp]:
  "slot_of (count_result iid err (upd_ep a f p)) i = slot_of (count_result iid err p) i"
  by (simp add: slot_of_def upd_ep_def upd_slot_def count_result_def)

text \<open>
  \<open>finish_unique\<close> with the once and done flags set together, which is what the
  invariant says of them.
\<close>

lemma finish_unique_alt:
  "finish_unique a err now p =
     (let ep = ep_of p a; iid = ep_id ep in
      if ep_once ep then Some p
      else if \<not> slot_in p iid \<or> ep_done ep then None
      else
        let p1 = count_result iid err
                   (upd_ep a (\<lambda>e. e\<lparr>ep_once := True, ep_last_err := err, ep_done := True\<rparr>) p);
            p2 = (if slot_ep (slot_of p1 iid) = Some a then upd_view iid (rotating_view err) p1 else p1)
        in Some (event_locked iid ''Request finished; rotating'' now p2))"
proof -
  have f: "(\<lambda>v. case err of Some e \<Rightarrow> v\<lparr>view_state := S_Rotating, view_last_error := error_text e\<rparr>
      | None \<Rightarrow> v\<lparr>view_state := S_Rotating\<rparr>) = rotating_view err"
    by (simp add: fun_eq_iff rotating_view_def)
  show ?thesis
    unfolding finish_unique_def f Let_def
    by (simp add: upd_ep_event upd_ep_view upd_ep_count upd_ep_twice)
qed

lemma wf_finish_unique:
  assumes "pool_wf p" and "a < length (p_eps p)" and "finish_unique a err now p = Some p'"
  shows "pool_wf p'"
proof (cases "ep_once (ep_of p a)")
  case True
  with assms show ?thesis by (simp add: finish_unique_alt Let_def)
next
  case False
  let ?iid = "ep_id (ep_of p a)"
  let ?p0 = "upd_ep a (\<lambda>e. e\<lparr>ep_once := True, ep_last_err := err, ep_done := True\<rparr>) p"
  let ?p1 = "count_result ?iid err ?p0"
  have iid: "slot_in p ?iid" by (rule ep_id_in [OF assms(1,2)])
  have "pool_wf ?p0" by (rule wf_upd_ep [OF assms(1)]) auto
  then have p1: "pool_wf ?p1" by (rule wf_count_result) (rule slot_in_nonzero [OF iid])
  then have "pool_wf (upd_view ?iid (rotating_view err) ?p1)"
    by (rule wf_upd_view) (use slot_in_nonzero [OF iid] in auto)
  with p1 False iid assms(3) show ?thesis
    by (auto simp: finish_unique_alt Let_def split: if_splits intro: wf_event)
qed

lemma wf_close_done:
  "pool_wf p \<Longrightarrow> close_done_once a p = Some p' \<Longrightarrow> pool_wf p'"
  by (auto simp: close_done_once_def split: if_splits intro!: wf_upd_ep)

lemma wf_finish_reuse:
  assumes "pool_wf p" and "a < length (p_eps p)" and "finish_reuse a err now p = Some p'"
  shows "pool_wf p'"
proof -
  let ?iid = "ep_id (ep_of p a)"
  let ?p0 = "upd_ep a (\<lambda>e. if ep_active e > 0 then e\<lparr>ep_active := ep_active e - 1\<rparr> else e) p"
  let ?p1 = "count_result ?iid err ?p0"
  have iid: "slot_in p ?iid" by (rule ep_id_in [OF assms(1,2)])
  have "pool_wf ?p0" by (rule wf_upd_ep [OF assms(1)]) auto
  then have p1: "pool_wf ?p1" by (rule wf_count_result) (rule slot_in_nonzero [OF iid])
  show ?thesis
  proof (cases err)
    case None
    with assms(3) iid p1 show ?thesis by (simp add: finish_reuse_def Let_def)
  next
    case (Some e)
    let ?p2 = "upd_ep a (\<lambda>x. x\<lparr>ep_last_err := Some e\<rparr>) ?p1"
    let ?f = "\<lambda>v. v\<lparr>view_state := S_Rotating, view_last_error := error_text e\<rparr>"
    have p2: "pool_wf ?p2" by (rule wf_upd_ep [OF p1]) auto
    then have "pool_wf (upd_view ?iid ?f (upd_slot ?iid (\<lambda>s. s\<lparr>slot_ep := None\<rparr>) ?p2))"
      by (rule wf_slot_ep_None) (use slot_in_nonzero [OF iid] in auto)
    with p2 assms(3) Some iid show ?thesis
      by (auto simp: finish_reuse_def Let_def split: if_splits intro: inv_intros wf_close_done)
  qed
qed

lemma wf_lease_once:
  "pool_wf p \<Longrightarrow> pool_wf (p\<lparr>p_leases := (p_leases p)[l := (p_leases p ! l)\<lparr>lease_once := b\<rparr>]\<rparr>)"
  by (auto simp: wf_defs slot_in_def nth_update_if)

lemma wf_lease_ep: "pool_wf p \<Longrightarrow> l < length (p_leases p) \<Longrightarrow> lease_ep (p_leases p ! l) < length (p_eps p)"
  by (simp add: pool_wf_def leases_ok_def)

lemma wf_finish:
  assumes "pool_wf p" and "l < length (p_leases p)" and "finish_lease l err now p = Some p'"
  shows "pool_wf p'"
proof -
  have a: "lease_ep (p_leases p ! l) < length (p_eps p)" by (rule wf_lease_ep [OF assms(1,2)])
  show ?thesis
    using assms(3) wf_finish_unique [OF assms(1) a] wf_finish_reuse [OF wf_lease_once [OF assms(1)]]
      assms(1) a
    by (auto simp: finish_lease_def Let_def split: if_splits)
qed

lemma wf_unreserve: "pool_wf p \<Longrightarrow> pool_wf (p\<lparr>p_reserved := (p_reserved p)(ip := None)\<rparr>)"
  by (auto simp: wf_defs slot_in_def)

lemma wf_withdraw:
  assumes "pool_wf p" and "a < length (p_eps p)" and "withdraw a p = Some p'"
  shows "pool_wf p'"
proof -
  let ?e = "ep_of p a"
  let ?iid = "ep_id ?e"
  have iid: "slot_in p ?iid" by (rule ep_id_in [OF assms(1,2)])
  let ?q = "if p_reserved p (ep_ip ?e) = Some a
            then p\<lparr>p_reserved := (p_reserved p)(ep_ip ?e := None)\<rparr> else p"
  have q: "pool_wf ?q" using assms(1) by (simp add: wf_unreserve)
  then have v: "pool_wf (upd_view ?iid (\<lambda>v. v\<lparr>view_state := S_Rotating\<rparr>)
       (upd_slot ?iid (\<lambda>s. s\<lparr>slot_ep := None\<rparr>) ?q))"
    by (rule wf_slot_ep_None) (use slot_in_nonzero [OF iid] in auto)
  show ?thesis
    using assms(3) q v
    by (auto simp: withdraw_def Let_def split: if_splits intro: wf_cancel wf_revision)
qed

lemma wf_reject: "pool_wf p \<Longrightarrow> pool_wf (count_rejected p)"
  by (erule wf_cong) (simp_all add: count_rejected_def)

subsection \<open>Every reachable pool is well formed\<close>

lemma wf_step: "pool_step p p' \<Longrightarrow> pool_wf p \<Longrightarrow> pool_wf p'"
  by (induction rule: pool_step.induct)
    (auto intro: wf_add_endpoint wf_pool_state wf_publish wf_acquire wf_reject wf_finish wf_withdraw wf_cancel)

lemma wf_steps: "pool_steps p p' \<Longrightarrow> pool_wf p \<Longrightarrow> pool_wf p'"
  by (induction rule: rtranclp_induct) (auto intro: wf_step)

lemma wf_reachable: "pool_reachable cfg t p \<Longrightarrow> pool_wf p"
  using wf_steps wf_new_pool unfolding pool_reachable_def by blast

end
