(* ===== verification/PoolUnique.thy ===== *)
theory PoolUnique
  imports PoolInv
begin

text \<open>
  Unique mode (\<open>UNIQUE_IP=true\<close>): an address is reserved by the endpoint that holds it, the
  mark in the store precedes every lease, and so no address is ever leased twice, whatever the
  goroutines do and whatever the database answers.
\<close>

section \<open>Projections and their frames\<close>

definition slot_eps :: "pool \<Rightarrow> nat option list" where
  "slot_eps p = map slot_ep (p_slots p)"

definition ep_ips :: "pool \<Rightarrow> string list" where
  "ep_ips p = map ep_ip (p_eps p)"

definition ep_onces :: "pool \<Rightarrow> bool list" where
  "ep_onces p = map ep_once (p_eps p)"

definition lease_ips :: "pool \<Rightarrow> string list" where
  "lease_ips p = map lease_ip (p_leases p)"

lemmas proj_defs = slot_eps_def ep_ips_def ep_onces_def lease_ips_def

lemma map_update_same: "f (g (xs ! k)) = f (xs ! k) \<Longrightarrow> map f (xs[k := g (xs ! k)]) = map f xs"
  by (cases "k < length xs") (simp_all add: map_update list_update_same_conv list_update_beyond)

text \<open>What the helpers of the pool leave alone.\<close>

lemma frame_event [frame_simps]:
  "slot_eps (event_locked i m now p) = slot_eps p" "ep_ips (event_locked i m now p) = ep_ips p"
  "ep_onces (event_locked i m now p) = ep_onces p" "lease_ips (event_locked i m now p) = lease_ips p"
  "p_reserved (event_locked i m now p) = p_reserved p" "p_store (event_locked i m now p) = p_store p"
  "p_unique (event_locked i m now p) = p_unique p" "p_slots (event_locked i m now p) = p_slots p"
  "p_eps (event_locked i m now p) = p_eps p" "p_leases (event_locked i m now p) = p_leases p"
  by (simp_all add: event_locked_def Let_def proj_defs)

lemma frame_view [frame_simps]:
  "slot_eps (upd_view i f p) = slot_eps p" "ep_ips (upd_view i f p) = ep_ips p"
  "ep_onces (upd_view i f p) = ep_onces p" "lease_ips (upd_view i f p) = lease_ips p"
  "p_reserved (upd_view i f p) = p_reserved p" "p_store (upd_view i f p) = p_store p"
  "p_unique (upd_view i f p) = p_unique p" "p_eps (upd_view i f p) = p_eps p"
  "p_leases (upd_view i f p) = p_leases p"
  "length (p_slots (upd_view i f p)) = length (p_slots p)"
  by (simp_all add: upd_view_def upd_slot_def proj_defs map_update_same)

lemma frame_slot [frame_simps]:
  "ep_ips (upd_slot i f p) = ep_ips p" "ep_onces (upd_slot i f p) = ep_onces p"
  "lease_ips (upd_slot i f p) = lease_ips p" "p_reserved (upd_slot i f p) = p_reserved p"
  "p_store (upd_slot i f p) = p_store p" "p_unique (upd_slot i f p) = p_unique p"
  "p_eps (upd_slot i f p) = p_eps p" "p_leases (upd_slot i f p) = p_leases p"
  "slot_eps (upd_slot i (\<lambda>s. s\<lparr>slot_ep := x\<rparr>) p) = (slot_eps p)[i - 1 := x]"
  "length (p_slots (upd_slot i f p)) = length (p_slots p)"
  by (simp_all add: upd_slot_def proj_defs map_update)

lemma frame_count [frame_simps]:
  "slot_eps (count_result i e p) = slot_eps p" "ep_ips (count_result i e p) = ep_ips p"
  "ep_onces (count_result i e p) = ep_onces p" "lease_ips (count_result i e p) = lease_ips p"
  "p_reserved (count_result i e p) = p_reserved p" "p_store (count_result i e p) = p_store p"
  "p_unique (count_result i e p) = p_unique p" "p_eps (count_result i e p) = p_eps p"
  "p_leases (count_result i e p) = p_leases p"
  "length (p_slots (count_result i e p)) = length (p_slots p)"
  by (simp_all add: count_result_def upd_slot_def proj_defs map_update_same)

lemma frame_ep [frame_simps]:
  "slot_eps (upd_ep a f p) = slot_eps p" "lease_ips (upd_ep a f p) = lease_ips p"
  "p_reserved (upd_ep a f p) = p_reserved p" "p_store (upd_ep a f p) = p_store p"
  "p_unique (upd_ep a f p) = p_unique p" "p_slots (upd_ep a f p) = p_slots p"
  "p_leases (upd_ep a f p) = p_leases p" "length (p_eps (upd_ep a f p)) = length (p_eps p)"
  by (simp_all add: upd_ep_def proj_defs)

lemma ep_ips_upd: "(\<And>e. ep_ip (f e) = ep_ip e) \<Longrightarrow> ep_ips (upd_ep a f p) = ep_ips p"
  by (simp add: upd_ep_def proj_defs map_update_same)

lemma ep_onces_upd: "(\<And>e. ep_once (f e) = ep_once e) \<Longrightarrow> ep_onces (upd_ep a f p) = ep_onces p"
  by (simp add: upd_ep_def proj_defs map_update_same)

lemma ep_onces_set: "(\<And>e. ep_once (f e) = b) \<Longrightarrow> ep_onces (upd_ep a f p) = (ep_onces p)[a := b]"
  by (simp add: upd_ep_def proj_defs map_update)

lemma frame_cancel [frame_simps]:
  "slot_eps (cancel_ep a p) = slot_eps p" "ep_ips (cancel_ep a p) = ep_ips p"
  "ep_onces (cancel_ep a p) = ep_onces p" "lease_ips (cancel_ep a p) = lease_ips p"
  "p_reserved (cancel_ep a p) = p_reserved p" "p_store (cancel_ep a p) = p_store p"
  "p_unique (cancel_ep a p) = p_unique p" "p_slots (cancel_ep a p) = p_slots p"
  "p_leases (cancel_ep a p) = p_leases p" "length (p_eps (cancel_ep a p)) = length (p_eps p)"
  by (simp_all add: cancel_ep_def frame_ep ep_ips_upd ep_onces_upd)

lemma frame_broadcast [frame_simps]:
  "slot_eps (broadcast_locked p) = slot_eps p" "ep_ips (broadcast_locked p) = ep_ips p"
  "ep_onces (broadcast_locked p) = ep_onces p" "lease_ips (broadcast_locked p) = lease_ips p"
  "p_reserved (broadcast_locked p) = p_reserved p" "p_store (broadcast_locked p) = p_store p"
  "p_unique (broadcast_locked p) = p_unique p" "p_slots (broadcast_locked p) = p_slots p"
  "p_eps (broadcast_locked p) = p_eps p" "p_leases (broadcast_locked p) = p_leases p"
  by (simp_all add: broadcast_locked_def proj_defs)

lemma frame_fields [frame_simps]:
  "slot_eps (p\<lparr>p_store := t\<rparr>) = slot_eps p" "ep_ips (p\<lparr>p_store := t\<rparr>) = ep_ips p"
  "ep_onces (p\<lparr>p_store := t\<rparr>) = ep_onces p" "lease_ips (p\<lparr>p_store := t\<rparr>) = lease_ips p"
  "slot_eps (p\<lparr>p_revision := r\<rparr>) = slot_eps p" "ep_ips (p\<lparr>p_revision := r\<rparr>) = ep_ips p"
  "ep_onces (p\<lparr>p_revision := r\<rparr>) = ep_onces p" "lease_ips (p\<lparr>p_revision := r\<rparr>) = lease_ips p"
  "slot_eps (p\<lparr>p_reserved := m\<rparr>) = slot_eps p" "ep_ips (p\<lparr>p_reserved := m\<rparr>) = ep_ips p"
  "ep_onces (p\<lparr>p_reserved := m\<rparr>) = ep_onces p" "lease_ips (p\<lparr>p_reserved := m\<rparr>) = lease_ips p"
  "slot_eps (p\<lparr>p_requests := n, p_next := k\<rparr>) = slot_eps p"
  "ep_ips (p\<lparr>p_requests := n, p_next := k\<rparr>) = ep_ips p"
  "ep_onces (p\<lparr>p_requests := n, p_next := k\<rparr>) = ep_onces p"
  "lease_ips (p\<lparr>p_requests := n, p_next := k\<rparr>) = lease_ips p"
  by (simp_all add: proj_defs)

lemma frame_add_lease [frame_simps]:
  "slot_eps (add_lease a p) = slot_eps p" "ep_ips (add_lease a p) = ep_ips p"
  "ep_onces (add_lease a p) = ep_onces p" "lease_ips (add_lease a p) = lease_ips p @ [ep_ip (ep_of p a)]"
  "p_reserved (add_lease a p) = p_reserved p" "p_store (add_lease a p) = p_store p"
  "p_unique (add_lease a p) = p_unique p"
  by (simp_all add: add_lease_def proj_defs)

section \<open>The invariant\<close>

definition held_ok :: "pool \<Rightarrow> bool" where
  "held_ok p \<longleftrightarrow> (\<forall>i a. i < length (slot_eps p) \<longrightarrow> slot_eps p ! i = Some a \<longrightarrow>
     p_reserved p (ep_ips p ! a) = Some a)"

definition history_ok :: "ip_table \<Rightarrow> pool \<Rightarrow> bool" where
  "history_ok t p \<longleftrightarrow>
     distinct (lease_ips p) \<and>
     (\<forall>ip \<in> set (lease_ips p). row_status t ip \<noteq> Some True \<and> row_status (p_store p) ip = Some True) \<and>
     (\<forall>a < length (ep_ips p). ep_onces p ! a \<longrightarrow> row_status (p_store p) (ep_ips p ! a) = Some True) \<and>
     (\<forall>ip. row_status t ip = Some True \<longrightarrow> row_status (p_store p) ip = Some True)"

definition uniq_ok :: "ip_table \<Rightarrow> pool \<Rightarrow> bool" where
  "uniq_ok t p \<longleftrightarrow> p_unique p \<and> held_ok p \<and> history_ok t p"

lemmas uniq_defs = uniq_ok_def held_ok_def history_ok_def

text \<open>The invariant reads only the projections, the reservations and the store.\<close>

lemma uniq_cong:
  assumes "uniq_ok t p" and "p_unique q = p_unique p" and "slot_eps q = slot_eps p"
    and "ep_ips q = ep_ips p" and "ep_onces q = ep_onces p" and "lease_ips q = lease_ips p"
    and "p_reserved q = p_reserved p" and "p_store q = p_store p"
  shows "uniq_ok t q"
  using assms by (simp add: uniq_defs)

lemma uniq_new: "UniqueIP cfg \<Longrightarrow> uniq_ok t (new_pool cfg t now)"
  by (simp add: uniq_defs new_pool_def proj_defs)

text \<open>A store that remembers every use keeps it.\<close>

lemma uniq_store:
  assumes "uniq_ok t p" and "\<And>x. row_status (p_store p) x = Some True \<Longrightarrow> row_status s x = Some True"
  shows "uniq_ok t (p\<lparr>p_store := s\<rparr>)"
  using assms by (auto simp: uniq_defs frame_fields)

section \<open>Every step keeps it\<close>

lemma wf_slot_eps:
  assumes "pool_wf p" and "i < length (slot_eps p)" and "slot_eps p ! i = Some a"
  shows "a < length (p_eps p)" and "ep_id (ep_of p a) = i + 1"
  using assms by (auto simp: pool_wf_def slots_ok_def slot_ok_def slot_eps_def ep_of_def)

lemma ep_ips_nth: "a < length (p_eps p) \<Longrightarrow> ep_ips p ! a = ep_ip (ep_of p a)"
  by (simp add: ep_ips_def ep_of_def)

lemma uniq_add_endpoint:
  assumes "uniq_ok t p" and "pool_wf p"
  shows "uniq_ok t (add_endpoint (new_endpoint iid ip c tok x) p)" (is "uniq_ok t ?q")
proof -
  have proj: "slot_eps ?q = slot_eps p" "ep_ips ?q = ep_ips p @ [ip]" "ep_onces ?q = ep_onces p @ [False]"
    "lease_ips ?q = lease_ips p" "p_reserved ?q = p_reserved p" "p_store ?q = p_store p"
    "p_unique ?q = p_unique p"
    by (simp_all add: add_endpoint_def new_endpoint_def proj_defs)
  have len: "length (ep_ips p) = length (p_eps p)" "length (ep_onces p) = length (p_eps p)"
    by (simp_all add: proj_defs)
  have "held_ok ?q"
    using assms wf_slot_eps(1) [OF assms(2)] by (auto simp: uniq_defs proj len nth_append)
  moreover have "history_ok t ?q"
    using assms(1) by (auto simp: uniq_defs proj len nth_append less_Suc_eq)
  ultimately show ?thesis using assms(1) by (simp add: uniq_ok_def proj)
qed

lemma pool_state_frame:
  assumes "pool_state iid st progress problem now p = Some p'"
  shows "slot_eps p' = slot_eps p" "ep_ips p' = ep_ips p" "ep_onces p' = ep_onces p"
    "lease_ips p' = lease_ips p" "p_reserved p' = p_reserved p" "p_store p' = p_store p"
    "p_unique p' = p_unique p" "p_leases p' = p_leases p" "p_eps p' = p_eps p"
    "length (p_slots p') = length (p_slots p)"
  using assms
  by (auto simp: pool_state_def Let_def frame_simps split: prod.splits if_splits)

lemma uniq_state:
  "uniq_ok t p \<Longrightarrow> pool_state iid st progress problem now p = Some p' \<Longrightarrow> uniq_ok t p'"
  by (erule uniq_cong) (simp_all add: pool_state_frame)

lemma make_ready_proj:
  assumes "slot_in p (ep_id (ep_of p a))"
  shows "slot_eps (make_ready a now p) = (slot_eps p)[ep_id (ep_of p a) - 1 := Some a]"
    and "ep_ips (make_ready a now p) = ep_ips p" and "ep_onces (make_ready a now p) = ep_onces p"
    and "lease_ips (make_ready a now p) = lease_ips p" and "p_store (make_ready a now p) = p_store p"
    and "p_unique (make_ready a now p) = p_unique p"
    and "p_reserved (make_ready a now p) =
      (if p_unique p then (p_reserved p)(ep_ip (ep_of p a) \<mapsto> a) else p_reserved p)"
  by (simp_all add: make_ready_def Let_def frame_simps)

lemma make_ready_slot:
  assumes "slot_in p (ep_id (ep_of p a))"
  shows "slot_ep (slot_of (make_ready a now p) (ep_id (ep_of p a))) = Some a"
    and "view_state (slot_view (slot_of (make_ready a now p) (ep_id (ep_of p a)))) = S_Ready"
    and "view_last_error (slot_view (slot_of (make_ready a now p) (ep_id (ep_of p a)))) = ''''"
proof -
  have lt: "ep_id (ep_of p a) - Suc 0 < length (p_slots p)"
    using assms by (auto simp: slot_in_def)
  show "slot_ep (slot_of (make_ready a now p) (ep_id (ep_of p a))) = Some a"
    and "view_state (slot_view (slot_of (make_ready a now p) (ep_id (ep_of p a)))) = S_Ready"
    and "view_last_error (slot_view (slot_of (make_ready a now p) (ep_id (ep_of p a)))) = ''''"
    using lt by (simp_all add: make_ready_def Let_def slot_of_def broadcast_locked_def event_locked_def
        upd_view_def upd_slot_def)
qed

lemma uniq_make_ready:
  assumes "uniq_ok t p" and "pool_wf p" and "a < length (p_eps p)"
    and free: "p_reserved p (ep_ip (ep_of p a)) = None"
  shows "uniq_ok t (make_ready a now p)"
proof -
  let ?ip = "ep_ip (ep_of p a)"
  have iid: "slot_in p (ep_id (ep_of p a))" by (rule ep_id_in [OF assms(2,3)])
  note proj = make_ready_proj [OF iid, of now]
  have u: "p_unique p" using assms(1) by (simp add: uniq_ok_def)
  have "held_ok (make_ready a now p)"
    unfolding held_ok_def
  proof (intro allI impI)
    fix i b
    assume i: "i < length (slot_eps (make_ready a now p))"
      and b: "slot_eps (make_ready a now p) ! i = Some b"
    show "p_reserved (make_ready a now p) (ep_ips (make_ready a now p) ! b) = Some b"
    proof (cases "i = ep_id (ep_of p a) - 1")
      case True
      with i b have "b = a" by (simp add: proj)
      with u show ?thesis by (simp add: proj ep_ips_nth assms(3))
    next
      case False
      with i b have "p_reserved p (ep_ips p ! b) = Some b"
        using assms(1) by (simp add: proj uniq_defs)
      moreover from this have "ep_ips p ! b \<noteq> ?ip" using free by auto
      ultimately show ?thesis using u by (simp add: proj)
    qed
  qed
  moreover have "history_ok t (make_ready a now p)"
    using assms(1) by (simp add: uniq_defs proj)
  ultimately show ?thesis using u by (simp add: uniq_ok_def proj)
qed

lemma uniq_publish:
  assumes "uniq_ok t p" and "pool_wf p" and "a < length (p_eps p)"
    and "publish env now a p = Some (r, p')"
  shows "uniq_ok t p'"
proof -
  let ?e = "ep_of p a"
  let ?p1 = "upd_view (ep_id ?e)
    (\<lambda>v. v\<lparr>view_ip := ep_ip ?e, view_circuit := ep_circuit ?e, view_last_check := now\<rparr>) p"
  have iid: "slot_in p (ep_id ?e)" by (rule ep_id_in [OF assms(2,3)])
  have p1: "uniq_ok t ?p1" by (rule uniq_cong [OF assms(1)]) (simp_all add: frame_simps)
  have w1: "pool_wf ?p1" using assms(2) iid by (intro wf_upd_view) (auto simp: slot_in_def)
  obtain u e s where o: "observe env (ep_ip ?e) (p_store ?p1) = ((u, e), s)"
    by (metis surj_pair)
  have p2: "uniq_ok t (?p1\<lparr>p_store := s\<rparr>)"
    using uniq_store [OF p1] ledger.observe_monotone [OF o] by blast
  have "table_ok s"
    using w1 o by (auto simp: pool_wf_def bounds_ok_def intro: ledger.observe_good)
  with w1 have w2: "pool_wf (?p1\<lparr>p_store := s\<rparr>)" by (rule wf_store)
  have e2: "ep_of (?p1\<lparr>p_store := s\<rparr>) a = ?e" "p_eps (?p1\<lparr>p_store := s\<rparr>) = p_eps p"
    by (simp_all add: ep_of_def frame_simps)
  have p3: "p_reserved p (ep_ip ?e) = None \<Longrightarrow> uniq_ok t (make_ready a now (?p1\<lparr>p_store := s\<rparr>))"
    by (rule uniq_make_ready [OF p2 w2]) (use assms(3) in \<open>simp_all add: e2 frame_simps\<close>)
  have "p_unique p" using assms(1) by (simp add: uniq_ok_def)
  then show ?thesis
    using assms(4) iid o p2 p3
    by (auto simp: publish_def Let_def frame_simps split: if_splits option.splits)
qed

lemma grant_unique_proj:
  "slot_eps (grant_unique now i a p) = slot_eps p"
  "ep_ips (grant_unique now i a p) = ep_ips p" "ep_onces (grant_unique now i a p) = ep_onces p"
  "lease_ips (grant_unique now i a p) = lease_ips p @ [ep_ip (ep_of p a)]"
  "p_reserved (grant_unique now i a p) = p_reserved p" "p_store (grant_unique now i a p) = p_store p"
  "p_unique (grant_unique now i a p) = p_unique p"
  by (simp_all add: grant_unique_def Let_def frame_simps ep_of_def)

lemma uniq_grant:
  assumes uq: "uniq_ok t q" and "pool_wf q"
    and c: "consume env True (ep_ip (ep_of q a)) (p_store q) = ((True, None), s)"
  shows "uniq_ok t (grant_unique now i a (q\<lparr>p_store := s\<rparr>))"
proof -
  let ?ip = "ep_ip (ep_of q a)"
  let ?q = "q\<lparr>p_store := s\<rparr>"
  have good: "table_ok (p_store q)" using assms(2) by (simp add: pool_wf_def bounds_ok_def)
  note once = ledger.cons_once [OF good c]
  have uq': "uniq_ok t ?q" using uniq_store [OF uq] ledger.consume_monotone [OF c] by blast
  have fresh: "?ip \<notin> set (lease_ips q)" using uq once by (auto simp: uniq_defs)
  have old: "row_status t ?ip \<noteq> Some True" using uq once by (auto simp: uniq_defs)
  have used: "row_status s ?ip = Some True" using once by simp
  have ip: "ep_ip (ep_of ?q a) = ?ip" by (simp add: ep_of_def)
  have "held_ok (grant_unique now i a ?q)"
    using uq' by (simp add: uniq_ok_def held_ok_def grant_unique_proj)
  moreover have "history_ok t (grant_unique now i a ?q)"
    using uq' fresh old used by (simp add: uniq_ok_def history_ok_def grant_unique_proj ip frame_fields)
  ultimately show ?thesis using uq' by (simp add: uniq_ok_def grant_unique_proj)
qed

lemma uniq_cancel: "uniq_ok t q \<Longrightarrow> uniq_ok t (cancel_ep a q)"
  by (erule uniq_cong) (simp_all add: frame_simps)

lemma uniq_acquire:
  assumes "uniq_ok t p" and "pool_wf p" and "acquire_locked acq p = (r, p')"
  shows "uniq_ok t p'"
proof (rule acquire_wf_rule [where P = "uniq_ok t", OF assms(3,2,1)])
  have u: "p_unique p" using assms(1) by (simp add: uniq_ok_def)
  show "uniq_ok t (q\<lparr>p_store := s\<rparr>)"
    if "uniq_ok t q" "consume env (p_unique p) (ep_ip (ep_of q a)) (p_store q) = ((ok, e), s)" for q a env ok e s
    using uniq_store [OF that(1)] ledger.consume_monotone [OF that(2)] by blast
  show "uniq_ok t ((if p_unique p then grant_unique else grant_reuse) (acq_now acq) i a (q\<lparr>p_store := s\<rparr>))"
    if "pool_wf q" "uniq_ok t q" "consume env (p_unique p) (ep_ip (ep_of q a)) (p_store q) = ((True, None), s)"
    for q a i env s
    using uniq_grant [OF that(2,1)] that(3) u by simp
qed (rule uniq_cancel)

lemma uniq_finish:
  assumes "uniq_ok t p" and "pool_wf p" and "l < length (p_leases p)"
    and "finish_lease l err now p = Some p'"
  shows "uniq_ok t p'"
proof -
  let ?a = "lease_ep (p_leases p ! l)"
  let ?iid = "ep_id (ep_of p ?a)"
  have u: "p_unique p" using assms(1) by (simp add: uniq_ok_def)
  then have f: "finish_unique ?a err now p = Some p'" using assms(4) by (simp add: finish_lease_def Let_def)
  show ?thesis
  proof (cases "ep_once (ep_of p ?a)")
    case True
    with f assms(1) show ?thesis by (simp add: finish_unique_alt Let_def)
  next
    case False
    let ?g = "\<lambda>e. e\<lparr>ep_once := True, ep_last_err := err, ep_done := True\<rparr>"
    let ?p1 = "count_result ?iid err (upd_ep ?a ?g p)"
    have ips: "ep_ips (upd_ep ?a ?g p) = ep_ips p" by (rule ep_ips_upd) simp
    have onces: "ep_onces (upd_ep ?a ?g p) = (ep_onces p)[?a := True]" by (rule ep_onces_set) simp
    have a: "?a < length (p_eps p)" by (rule wf_lease_ep [OF assms(2,3)])
    have "lease_ip (p_leases p ! l) = ep_ips p ! ?a"
      using assms(2,3) a by (auto simp: pool_wf_def leases_ok_def ep_ips_def)
    moreover have "lease_ip (p_leases p ! l) \<in> set (lease_ips p)"
      using assms(3) by (simp add: lease_ips_def)
    ultimately have used: "row_status (p_store p) (ep_ips p ! ?a) = Some True"
      using assms(1) by (auto simp: uniq_defs)
    have len: "length (ep_onces p) = length (p_eps p)" by (simp add: ep_onces_def)
    have p1: "uniq_ok t ?p1"
      using assms(1) used a len
      by (auto simp: uniq_defs frame_simps ips onces nth_list_update)
    then have "uniq_ok t (event_locked ?iid m now (upd_view ?iid v ?p1))"
      and "uniq_ok t (event_locked ?iid m now ?p1)" for m v
      by (auto elim!: uniq_cong simp: frame_simps)
    with f False show ?thesis
      by (auto simp: finish_unique_alt Let_def split: if_splits)
  qed
qed

lemma withdraw_proj:
  assumes "withdraw a p = Some p'"
  shows "slot_eps p' = (if slot_ep (slot_of p (ep_id (ep_of p a))) = Some a
                        then (slot_eps p)[ep_id (ep_of p a) - 1 := None] else slot_eps p)"
    and "ep_ips p' = ep_ips p" and "ep_onces p' = ep_onces p" and "lease_ips p' = lease_ips p"
    and "p_store p' = p_store p" and "p_unique p' = p_unique p"
    and "p_reserved p' = (if p_reserved p (ep_ip (ep_of p a)) = Some a
                          then (p_reserved p)(ep_ip (ep_of p a) := None) else p_reserved p)"
  using assms
  by (auto simp: withdraw_def Let_def frame_simps slot_of_def split: if_splits)

lemma uniq_withdraw:
  assumes "uniq_ok t p" and "pool_wf p" and "a < length (p_eps p)" and "withdraw a p = Some p'"
  shows "uniq_ok t p'"
proof -
  note proj = withdraw_proj [OF assms(4)]
  let ?iid = "ep_id (ep_of p a)"
  have "held_ok p'"
    unfolding held_ok_def
  proof (intro allI impI)
    fix i b
    assume i: "i < length (slot_eps p')" and b: "slot_eps p' ! i = Some b"
    have i': "i < length (slot_eps p)" using i by (simp add: proj split: if_splits)
    have b': "slot_eps p ! i = Some b"
      using i' b by (auto simp: proj nth_update_if split: if_splits)
    have res: "p_reserved p (ep_ips p ! b) = Some b"
      using assms(1) i' b' by (simp add: uniq_defs)
    have "b \<noteq> a"
    proof
      assume ab: "b = a"
      with wf_slot_eps(2) [OF assms(2) i' b'] have "?iid = i + 1" by simp
      moreover from this have "slot_ep (slot_of p ?iid) = Some a"
        using i' b' ab by (simp add: slot_of_def slot_eps_def)
      ultimately show False using b i' by (simp add: proj nth_update_if split: if_splits)
    qed
    then have "p_reserved p' (ep_ips p ! b) = Some b"
      using res by (auto simp: proj)
    then show "p_reserved p' (ep_ips p' ! b) = Some b" by (simp add: proj)
  qed
  moreover have "history_ok t p'" using assms(1) by (simp add: uniq_defs proj)
  ultimately show ?thesis using assms(1) by (simp add: uniq_ok_def proj)
qed

lemma once_used:
  assumes "uniq_ok t p" and "a < length (p_eps p)" and "ep_onces p ! a"
  shows "row_status (p_store p) (ep_ip (ep_of p a)) = Some True"
  using assms ep_ips_nth [OF assms(2)] by (auto simp: uniq_defs ep_ips_def)

lemma uniq_step: "pool_step p p' \<Longrightarrow> pool_wf p \<Longrightarrow> uniq_ok t p \<Longrightarrow> uniq_ok t p'"
proof (induction rule: pool_step.induct)
  case (step_reject p)
  show ?case
    by (rule uniq_cong [OF step_reject(2)]) (simp_all add: count_rejected_def proj_defs)
next
  case (step_cancel a p)
  show ?case
    by (rule uniq_cong [OF step_cancel(3)]) (simp_all add: frame_simps)
qed (auto intro: uniq_add_endpoint uniq_state uniq_publish uniq_acquire uniq_finish uniq_withdraw)

lemma uniq_steps: "pool_steps p p' \<Longrightarrow> pool_wf p \<Longrightarrow> uniq_ok t p \<Longrightarrow> uniq_ok t p'"
  by (induction rule: rtranclp_induct) (auto intro: uniq_step wf_steps)

lemma uniq_reachable:
  assumes "pool_reachable cfg t p" and "UniqueIP cfg"
  shows "uniq_ok t p"
proof -
  obtain now where "table_ok t" and s: "pool_steps (new_pool cfg t now) p"
    using assms(1) by (auto simp: pool_reachable_def)
  then show ?thesis using uniq_steps [OF s] wf_new_pool uniq_new [OF assms(2)] by blast
qed

end
