(* ===== verification/PoolCount.thy ===== *)
theory PoolCount
  imports PoolUnique
begin

text \<open>
  Accounting: the counters of the dashboard against the leases that exist, the in-flight count of an
  endpoint in reuse mode, and the absence of panics in reachable states.
\<close>

section \<open>Counting in updated lists\<close>

lemma filter_update_count:
  assumes "l < length xs"
  shows "length (filter P (xs[l := x])) + (if P (xs ! l) then 1 else 0)
       = length (filter P xs) + (if P x then 1 else 0)"
proof -
  have "xs[l := x] = take l xs @ x # drop (Suc l) xs"
    using assms by (rule upd_conv_take_nth_drop)
  moreover have "length (filter P xs) = length (filter P (take l xs @ xs ! l # drop (Suc l) xs))"
    using id_take_nth_drop [OF assms] by simp
  ultimately show ?thesis by auto
qed

section \<open>Frames of the counters\<close>

definition tally :: "pool \<Rightarrow> uint64 \<times> uint64" where
  "tally p = (p_requests p, p_completed p + p_failed p)"

lemma frame_tally [frame_simps]:
  "tally (event_locked i m now p) = tally p" "tally (upd_view i v p) = tally p"
  "tally (upd_slot i s p) = tally p" "tally (upd_ep a f p) = tally p"
  "tally (cancel_ep a p) = tally p" "tally (broadcast_locked p) = tally p"
  "tally (add_lease a p) = tally p" "tally (p\<lparr>p_store := t\<rparr>) = tally p"
  "tally (p\<lparr>p_revision := r\<rparr>) = tally p" "tally (p\<lparr>p_reserved := m'\<rparr>) = tally p"
  "tally (p\<lparr>p_leases := ls\<rparr>) = tally p" "tally (count_rejected p) = tally p"
  by (simp_all add: tally_def pool_upd_defs)

lemma tally_count [frame_simps]: "tally (count_result i e p) = (fst (tally p), snd (tally p) + 1)"
  by (simp add: tally_def count_result_def upd_slot_def algebra_simps)

section \<open>The invariant\<close>

definition lease_finished :: "pool \<Rightarrow> lease \<Rightarrow> bool" where
  "lease_finished p ls \<longleftrightarrow>
     (if p_unique p then ep_once (p_eps p ! lease_ep ls) else lease_once ls)"

definition in_flight :: "pool \<Rightarrow> nat" where
  "in_flight p = length (filter (\<lambda>ls. \<not> lease_finished p ls) (p_leases p))"

definition in_flight_on :: "pool \<Rightarrow> nat \<Rightarrow> nat" where
  "in_flight_on p a =
     length (filter (\<lambda>ls. lease_ep ls = a \<and> \<not> lease_finished p ls) (p_leases p))"

definition tally_ok :: "pool \<Rightarrow> bool" where
  "tally_ok p \<longleftrightarrow> tally p = (of_nat (length (p_leases p)),
     of_nat (length (filter (lease_finished p) (p_leases p))))"

definition active_ok :: "pool \<Rightarrow> bool" where
  "active_ok p \<longleftrightarrow> (\<not> p_unique p \<longrightarrow>
     (\<forall>a < length (p_eps p). ep_active (p_eps p ! a) = in_flight_on p a))"

definition count_ok :: "pool \<Rightarrow> bool" where
  "count_ok p \<longleftrightarrow> tally_ok p \<and> active_ok p"

lemmas count_defs = count_ok_def tally_ok_def active_ok_def in_flight_on_def

lemma count_new: "count_ok (new_pool cfg t now)"
  by (simp add: count_defs tally_def new_pool_def)

text \<open>What the invariant reads of the endpoints.\<close>

definition ep_actives :: "pool \<Rightarrow> nat list" where
  "ep_actives p = map ep_active (p_eps p)"

lemma finished_onces:
  assumes "lease_ep ls < length (p_eps p)"
  shows "lease_finished p ls \<longleftrightarrow> (if p_unique p then ep_onces p ! lease_ep ls else lease_once ls)"
  using assms by (simp add: lease_finished_def ep_onces_def)

lemma count_cong:
  assumes "count_ok p" and "pool_wf p" and "tally q = tally p" and "p_leases q = p_leases p"
    and "ep_onces q = ep_onces p" and "ep_actives q = ep_actives p" and "p_unique q = p_unique p"
  shows "count_ok q"
proof -
  have len: "length (p_eps q) = length (p_eps p)"
    using assms(5) by (metis ep_onces_def length_map)
  have act: "ep_active (p_eps q ! a) = ep_active (p_eps p ! a)" if "a < length (p_eps p)" for a
    using assms(6) that len by (metis ep_actives_def nth_map)
  have fin: "lease_finished q ls = lease_finished p ls" if "ls \<in> set (p_leases p)" for ls
  proof -
    have "lease_ep ls < length (p_eps p)"
      using that assms(2) by (auto simp: in_set_conv_nth intro: wf_lease_ep)
    then show ?thesis using len assms(5,7) by (simp add: finished_onces)
  qed
  have f1: "filter (lease_finished q) (p_leases p) = filter (lease_finished p) (p_leases p)"
    by (rule filter_cong) (simp_all add: fin)
  have f2: "filter (\<lambda>ls. lease_ep ls = a \<and> \<not> lease_finished q ls) (p_leases p)
      = filter (\<lambda>ls. lease_ep ls = a \<and> \<not> lease_finished p ls) (p_leases p)" for a
    by (rule filter_cong) (auto simp: fin)
  show ?thesis
    using assms(1,3,4,7) len act by (simp add: count_defs f1 f2)
qed

lemma frame_actives [frame_simps]:
  "ep_actives (event_locked i m now p) = ep_actives p" "ep_actives (upd_view i v p) = ep_actives p"
  "ep_actives (upd_slot i s p) = ep_actives p" "ep_actives (broadcast_locked p) = ep_actives p"
  "ep_actives (p\<lparr>p_store := t\<rparr>) = ep_actives p" "ep_actives (p\<lparr>p_revision := r\<rparr>) = ep_actives p"
  "ep_actives (p\<lparr>p_reserved := m'\<rparr>) = ep_actives p" "ep_actives (count_result i e p) = ep_actives p"
  "ep_actives (add_lease a p) = ep_actives p" "ep_actives (count_rejected p) = ep_actives p"
  "ep_actives (p\<lparr>p_leases := ls\<rparr>) = ep_actives p"
  "ep_actives (p\<lparr>p_requests := n, p_next := k\<rparr>) = ep_actives p"
  by (simp_all add: ep_actives_def pool_upd_defs)

lemma actives_upd: "(\<And>e. ep_active (f e) = ep_active e) \<Longrightarrow> ep_actives (upd_ep a f p) = ep_actives p"
  by (simp add: upd_ep_def ep_actives_def map_update_same)

lemma actives_cancel [frame_simps]: "ep_actives (cancel_ep a p) = ep_actives p"
  by (simp add: cancel_ep_def actives_upd)

section \<open>Every step keeps it\<close>

lemma count_add_endpoint:
  assumes "count_ok p" and "pool_wf p"
  shows "count_ok (add_endpoint (new_endpoint iid ip c tok x) p)" (is "count_ok ?q")
proof -
  have le: "lease_ep ls < length (p_eps p)" if "ls \<in> set (p_leases p)" for ls
    using that assms(2) by (auto simp: in_set_conv_nth intro: wf_lease_ep)
  then have fin: "lease_finished ?q ls = lease_finished p ls" if "ls \<in> set (p_leases p)" for ls
    using that by (simp add: lease_finished_def add_endpoint_def nth_append)
  have f1: "filter (lease_finished ?q) (p_leases p) = filter (lease_finished p) (p_leases p)"
    by (rule filter_cong) (simp_all add: fin)
  have f2: "filter (\<lambda>ls. lease_ep ls = a \<and> \<not> lease_finished ?q ls) (p_leases p)
      = filter (\<lambda>ls. lease_ep ls = a \<and> \<not> lease_finished p ls) (p_leases p)" for a
    by (rule filter_cong) (auto simp: fin)
  have proj: "p_leases ?q = p_leases p" "p_unique ?q = p_unique p" "tally ?q = tally p"
    "length (p_eps ?q) = Suc (length (p_eps p))"
    by (simp_all add: add_endpoint_def tally_def)
  have eps: "p_eps ?q ! a = (if a < length (p_eps p) then p_eps p ! a else new_endpoint iid ip c tok x)"
    if "a \<le> length (p_eps p)" for a
    using that by (simp add: add_endpoint_def nth_append)
  have new_active: "ep_active (new_endpoint iid ip c tok x) = 0" by (simp add: new_endpoint_def)
  have none: "filter (\<lambda>ls. lease_ep ls = length (p_eps p) \<and> \<not> lease_finished p ls) (p_leases p) = []"
    by (auto simp: filter_empty_conv dest!: le)
  show ?thesis
    using assms(1) none new_active by (auto simp: count_defs proj f1 f2 eps less_Suc_eq)
qed

lemma count_state:
  assumes "count_ok p" and "pool_wf p" and "pool_state iid st progress problem now p = Some p'"
  shows "count_ok p'"
proof (rule count_cong [OF assms(1,2)])
  show "tally p' = tally p" using assms(3)
    by (auto simp: pool_state_def Let_def frame_simps split: prod.splits if_splits)
  show "ep_actives p' = ep_actives p"
    using pool_state_frame(9) [OF assms(3)] by (simp add: ep_actives_def)
qed (simp_all add: pool_state_frame [OF assms(3)])

lemma publish_frame:
  assumes "publish env now a p = Some (r, p')"
  shows "tally p' = tally p" "p_leases p' = p_leases p" "p_eps p' = p_eps p" "p_unique p' = p_unique p"
  using assms
  by (auto simp: publish_def make_ready_def Let_def frame_simps
      split: prod.splits if_splits option.splits)

lemma count_publish:
  assumes "count_ok p" and "pool_wf p" and "publish env now a p = Some (r, p')"
  shows "count_ok p'"
  by (rule count_cong [OF assms(1,2)])
    (simp_all add: publish_frame [OF assms(3)] ep_onces_def ep_actives_def)

lemma grant_proj:
  "p_leases (grant_unique now i a p) = p_leases p @
     [\<lparr>lease_ip = ep_ip (ep_of p a), lease_instance = ep_id (ep_of p a), lease_ep = a, lease_once = False\<rparr>]"
  "p_eps (grant_unique now i a p) = p_eps p"
  "tally (grant_unique now i a p) = (fst (tally p) + 1, snd (tally p))"
  "p_unique (grant_unique now i a p) = p_unique p"
  "p_leases (grant_reuse now i a p) = p_leases p @
     [\<lparr>lease_ip = ep_ip (ep_of p a), lease_instance = ep_id (ep_of p a), lease_ep = a, lease_once = False\<rparr>]"
  "p_eps (grant_reuse now i a p) = (p_eps p)[a := (p_eps p ! a)\<lparr>ep_active := ep_active (p_eps p ! a) + 1\<rparr>]"
  "tally (grant_reuse now i a p) = (fst (tally p) + 1, snd (tally p))"
  "p_unique (grant_reuse now i a p) = p_unique p"
proof -
  have ep: "(p_eps p)[a := (p_eps p ! a)\<lparr>ep_active := n\<rparr>] ! a
      = (p_eps p ! a)\<lparr>ep_active := n\<rparr> \<or> \<not> a < length (p_eps p)" for n
    by (cases "a < length (p_eps p)") simp_all
  show "p_leases (grant_reuse now i a p) = p_leases p @
     [\<lparr>lease_ip = ep_ip (ep_of p a), lease_instance = ep_id (ep_of p a), lease_ep = a, lease_once = False\<rparr>]"
    using ep
    by (cases "a < length (p_eps p)")
      (auto simp: grant_reuse_def pool_upd_defs ep_of_def list_update_beyond)
qed (simp_all add: grant_unique_def grant_reuse_def pool_upd_defs ep_of_def tally_def)

text \<open>Granting in unique mode happens on an endpoint whose once flag is not set: it was never used.\<close>

lemma count_grant_unique:
  assumes "count_ok p" and "pool_wf p" and "p_unique p" and "\<not> ep_once (p_eps p ! a)"
  shows "count_ok (grant_unique now i a p)"
proof -
  let ?q = "grant_unique now i a p"
  have fin: "lease_finished ?q = lease_finished p"
    by (simp add: fun_eq_iff lease_finished_def grant_proj)
  show ?thesis
    using assms by (simp add: count_defs fin grant_proj lease_finished_def)
qed

lemma count_grant_reuse:
  assumes "count_ok p" and "\<not> p_unique p" and "a < length (p_eps p)"
  shows "count_ok (grant_reuse now i a p)"
proof -
  let ?q = "grant_reuse now i a p"
  have fin: "lease_finished ?q = lease_finished p"
    using assms(2) by (simp add: fun_eq_iff lease_finished_def grant_proj)
  show ?thesis
    using assms by (auto simp: count_defs fin grant_proj nth_list_update lease_finished_def)
qed

lemma count_acquire:
  assumes "count_ok p" and "pool_wf p" and "p_unique p \<Longrightarrow> uniq_ok t p"
    and "acquire_locked acq p = (r, p')"
  shows "count_ok p'"
proof -
  define P where "P = (\<lambda>q. count_ok q \<and> (p_unique p \<longrightarrow> uniq_ok t q))"
  have cong: "count_ok (q\<lparr>p_store := s\<rparr>)" if "count_ok q" "pool_wf q" for q s
    by (rule count_cong [OF that]) (simp_all add: frame_simps)
  have "P p'"
  proof (rule acquire_wf_rule [where P = P, OF assms(4,2)])
    show "P p" using assms by (simp add: P_def)
  next
    fix q a env ok e s
    assume w: "pool_wf q" and q: "P q"
      and c: "consume env (p_unique p) (ep_ip (ep_of q a)) (p_store q) = ((ok, e), s)"
    then show "P (q\<lparr>p_store := s\<rparr>)"
      using cong uniq_store [of t q s] ledger.consume_monotone [OF c] by (auto simp: P_def)
  next
    fix q a
    assume w: "pool_wf q" and q: "P q"
    have "count_ok (cancel_ep a q)" by (rule count_cong [OF _ w]) (use q in \<open>simp_all add: P_def frame_simps\<close>)
    with q show "P (cancel_ep a q)" using uniq_cancel by (simp add: P_def)
  next
    fix q a i env s
    assume w: "pool_wf q" and mode: "p_unique q = p_unique p" and q: "P q" and a: "a < length (p_eps q)"
      and c: "consume env (p_unique p) (ep_ip (ep_of q a)) (p_store q) = ((True, None), s)"
    let ?q = "q\<lparr>p_store := s\<rparr>"
    have cq: "count_ok ?q" using cong q w by (simp add: P_def)
    have good: "table_ok (p_store q)" using w by (simp add: pool_wf_def bounds_ok_def)
    have w': "pool_wf ?q" by (rule wf_store [OF w ledger.consume_good [OF c good]])
    show "P ((if p_unique p then grant_unique else grant_reuse) (acq_now acq) i a ?q)"
    proof (cases "p_unique p")
      case True
      with q c have uq: "uniq_ok t q" and c': "consume env True (ep_ip (ep_of q a)) (p_store q) = ((True, None), s)"
        by (simp_all add: P_def)
      have "\<not> ep_onces q ! a"
        using once_used [OF uq a] ledger.cons_once [OF good c'] by auto
      then have "count_ok (grant_unique (acq_now acq) i a ?q)"
        using cq w' True mode a by (intro count_grant_unique) (simp_all add: ep_onces_def)
      with True uniq_grant [OF uq w c'] show ?thesis by (simp add: P_def)
    next
      case False
      with cq mode a show ?thesis using count_grant_reuse by (simp add: P_def)
    qed
  qed
  then show ?thesis by (simp add: P_def)
qed

lemma filter_single:
  assumes "distinct (map f xs)" and "l < length xs" and "P (xs ! l)"
    and "\<And>x. x \<in> set xs \<Longrightarrow> P x \<Longrightarrow> f x = f (xs ! l)"
  shows "filter P xs = [xs ! l]"
proof -
  have xs: "xs = take l xs @ xs ! l # drop (Suc l) xs" by (rule id_take_nth_drop [OF assms(2)])
  have "distinct (map f (take l xs @ xs ! l # drop (Suc l) xs))"
    using assms(1) by (simp only: xs [symmetric])
  then have ne: "f x \<noteq> f (xs ! l)" if "x \<in> set (take l xs) \<union> set (drop (Suc l) xs)" for x
    using that by (auto simp: image_iff)
  have "\<not> P x" if "x \<in> set (take l xs) \<union> set (drop (Suc l) xs)" for x
    using ne [OF that] assms(4) [of x] that by (auto dest: in_set_takeD in_set_dropD)
  then have "filter P (take l xs) = []" "filter P (drop (Suc l) xs) = []"
    by (auto simp: filter_empty_conv)
  then have "filter P (take l xs @ xs ! l # drop (Suc l) xs) = [xs ! l]"
    using assms(3) by simp
  then show ?thesis by (simp only: xs [symmetric])
qed

lemma length_filter_disj:
  "(\<And>x. x \<in> set xs \<Longrightarrow> \<not> (P x \<and> Q x)) \<Longrightarrow>
     length (filter (\<lambda>x. P x \<or> Q x) xs) = length (filter P xs) + length (filter Q xs)"
  by (induction xs) auto

text \<open>In unique mode a lease is the only one on its endpoint.\<close>

lemma single_lease:
  assumes "uniq_ok t p" and "pool_wf p" and "l < length (p_leases p)"
  shows "filter (\<lambda>ls. lease_ep ls = lease_ep (p_leases p ! l)) (p_leases p) = [p_leases p ! l]"
proof (rule filter_single [where f = lease_ip])
  show "distinct (map lease_ip (p_leases p))"
    using assms(1) by (simp add: uniq_defs lease_ips_def)
  show "lease_ip ls = lease_ip (p_leases p ! l)"
    if "ls \<in> set (p_leases p)" "lease_ep ls = lease_ep (p_leases p ! l)" for ls
    using that assms(2,3) by (auto simp: pool_wf_def leases_ok_def in_set_conv_nth)
qed (use assms in simp_all)

lemma count_finish_unique:
  assumes "count_ok p" and "pool_wf p" and "uniq_ok t p" and "l < length (p_leases p)"
    and "finish_unique (lease_ep (p_leases p ! l)) err now p = Some p'"
  shows "count_ok p'"
proof (cases "ep_once (ep_of p (lease_ep (p_leases p ! l)))")
  case True
  with assms(1,5) show ?thesis by (simp add: finish_unique_alt Let_def)
next
  case False
  let ?a = "lease_ep (p_leases p ! l)"
  let ?g = "\<lambda>e. e\<lparr>ep_once := True, ep_last_err := err, ep_done := True\<rparr>"
  have u: "p_unique p" using assms(3) by (simp add: uniq_ok_def)
  have onces: "ep_onces (upd_ep ?a ?g p) = (ep_onces p)[?a := True]" by (rule ep_onces_set) simp
  have proj: "p_leases p' = p_leases p" "p_unique p' = p_unique p"
    "ep_onces p' = (ep_onces p)[?a := True]" "length (p_eps p') = length (p_eps p)"
    "tally p' = (fst (tally p), snd (tally p) + 1)"
    using assms(5) False
    by (auto simp: finish_unique_alt Let_def frame_simps onces tally_count split: if_splits)
  have le: "lease_ep ls < length (p_eps p)" if "ls \<in> set (p_leases p)" for ls
    using that assms(2) by (auto simp: in_set_conv_nth intro: wf_lease_ep)
  have len: "length (ep_onces p) = length (p_eps p)" by (simp add: ep_onces_def)
  have fin: "lease_finished p' ls \<longleftrightarrow> lease_finished p ls \<or> lease_ep ls = ?a"
    if "ls \<in> set (p_leases p)" for ls
    using le [OF that] u by (auto simp: finished_onces proj len nth_update_if)
  have unfin: "\<not> (lease_finished p ls \<and> lease_ep ls = ?a)" for ls
    using False u by (auto simp: lease_finished_def ep_of_def)
  have "filter (lease_finished p') (p_leases p) = filter (\<lambda>ls. lease_finished p ls \<or> lease_ep ls = ?a) (p_leases p)"
    by (rule filter_cong) (simp_all add: fin)
  then have "length (filter (lease_finished p') (p_leases p)) = Suc (length (filter (lease_finished p) (p_leases p)))"
    using unfin by (simp add: length_filter_disj single_lease [OF assms(3,2,4)])
  then show ?thesis using assms(1) u by (simp add: count_defs proj)
qed

lemma frame_close_done:
  assumes "close_done_once a p = Some p'"
  shows "p_leases p' = p_leases p" "p_unique p' = p_unique p" "tally p' = tally p"
    "ep_actives p' = ep_actives p"
  using assms
  by (auto simp: close_done_once_def frame_simps split: if_splits intro: actives_upd)

lemma finish_reuse_proj:
  assumes "finish_reuse a err now p = Some p'"
  shows "p_leases p' = p_leases p" "p_unique p' = p_unique p"
    "tally p' = (fst (tally p), snd (tally p) + 1)"
    "ep_actives p' = (ep_actives p)[a := ep_actives p ! a - 1]"
proof -
  let ?f = "\<lambda>e. if ep_active e > 0 then e\<lparr>ep_active := ep_active e - 1\<rparr> else e"
  let ?iid = "ep_id (ep_of p a)"
  let ?p1 = "count_result ?iid err (upd_ep a ?f p)"
  have act: "ep_actives (upd_ep a ?f p) = (ep_actives p)[a := ep_actives p ! a - 1]"
    by (cases "a < length (p_eps p)") (auto simp: ep_actives_def upd_ep_def map_update list_update_beyond)
  obtain p2 where p2: "p_leases p2 = p_leases ?p1" "p_unique p2 = p_unique ?p1" "tally p2 = tally ?p1"
    "ep_actives p2 = ep_actives ?p1" and cd: "p' = p2 \<or> close_done_once a p2 = Some p'"
  proof (cases err)
    case None
    with assms that [of ?p1] show ?thesis by (auto simp: finish_reuse_def Let_def split: if_splits)
  next
    case (Some e)
    let ?q = "upd_ep a (\<lambda>x. x\<lparr>ep_last_err := Some e\<rparr>) ?p1"
    have qa: "ep_actives ?q = ep_actives ?p1" by (rule actives_upd) simp
    have "\<exists>p2. close_done_once a p2 = Some p' \<and> p_leases p2 = p_leases ?p1 \<and> p_unique p2 = p_unique ?p1 \<and>
        tally p2 = tally ?p1 \<and> ep_actives p2 = ep_actives ?p1"
      using assms Some
      by (auto simp: finish_reuse_def Let_def frame_simps qa [unfolded Some] split: if_splits)
    then show ?thesis using that by blast
  qed
  have frame: "p_leases ?p1 = p_leases p" "p_unique ?p1 = p_unique p"
    "tally ?p1 = (fst (tally p), snd (tally p) + 1)"
    "ep_actives ?p1 = (ep_actives p)[a := ep_actives p ! a - 1]"
    by (simp_all add: frame_simps tally_count act)
  from cd show "p_leases p' = p_leases p" "p_unique p' = p_unique p"
    "tally p' = (fst (tally p), snd (tally p) + 1)"
    "ep_actives p' = (ep_actives p)[a := ep_actives p ! a - 1]"
    using p2 frame by (auto simp: frame_close_done)
qed

lemma count_finish_reuse:
  assumes "count_ok p" and "pool_wf p" and "\<not> p_unique p" and "l < length (p_leases p)"
    and "\<not> lease_once (p_leases p ! l)"
    and "finish_reuse (lease_ep (p_leases p ! l)) err now
      (p\<lparr>p_leases := (p_leases p)[l := (p_leases p ! l)\<lparr>lease_once := True\<rparr>]\<rparr>) = Some p'"
  shows "count_ok p'"
proof -
  let ?a = "lease_ep (p_leases p ! l)"
  let ?ls = "(p_leases p)[l := (p_leases p ! l)\<lparr>lease_once := True\<rparr>]"
  note proj = finish_reuse_proj [OF assms(6)]
  have a: "?a < length (p_eps p)" by (rule wf_lease_ep [OF assms(2,4)])
  have leases: "p_leases p' = ?ls" "\<not> p_unique p'" and tal: "tally p' = (fst (tally p), snd (tally p) + 1)"
    and acts: "ep_actives p' = (ep_actives p)[?a := ep_actives p ! ?a - 1]"
    using proj assms(3) by (simp_all add: frame_simps)
  have fin: "lease_finished p' = lease_once" "lease_finished p = lease_once"
    using leases assms(3) by (auto simp: fun_eq_iff lease_finished_def)
  have once_count: "length (filter lease_once ?ls) = Suc (length (filter lease_once (p_leases p)))"
    using filter_update_count [OF assms(4), of lease_once "(p_leases p ! l)\<lparr>lease_once := True\<rparr>"] assms(5)
    by simp
  have fly: "length (filter (\<lambda>ls. lease_ep ls = b \<and> \<not> lease_once ls) ?ls) =
      length (filter (\<lambda>ls. lease_ep ls = b \<and> \<not> lease_once ls) (p_leases p)) - (if b = ?a then 1 else 0)" for b
    using filter_update_count [OF assms(4), of "\<lambda>ls. lease_ep ls = b \<and> \<not> lease_once ls"
        "(p_leases p ! l)\<lparr>lease_once := True\<rparr>"] assms(5)
    by (auto split: if_splits)
  have len: "length (p_eps p') = length (p_eps p)"
    using acts by (metis ep_actives_def length_list_update length_map)
  have act: "ep_active (p_eps p' ! b) = ep_active (p_eps p ! b) - (if b = ?a then 1 else 0)"
    if "b < length (p_eps p)" for b
  proof -
    have "ep_active (p_eps p' ! b) = ep_actives p' ! b" using that len by (simp add: ep_actives_def)
    also have "\<dots> = ep_active (p_eps p ! b) - (if b = ?a then 1 else 0)"
      using that a by (simp add: acts nth_list_update) (simp add: ep_actives_def)
    finally show ?thesis .
  qed
  show ?thesis
    using assms(1,3) tal len act by (simp add: count_defs fin leases once_count fly)
qed

lemma count_finish:
  assumes "count_ok p" and "pool_wf p" and "p_unique p \<Longrightarrow> uniq_ok t p" and "l < length (p_leases p)"
    and "finish_lease l err now p = Some p'"
  shows "count_ok p'"
proof (cases "p_unique p")
  case True
  with assms(5) have "finish_unique (lease_ep (p_leases p ! l)) err now p = Some p'"
    by (simp add: finish_lease_def Let_def)
  then show ?thesis by (rule count_finish_unique [OF assms(1,2) assms(3) [OF True] assms(4)])
next
  case False
  with assms show ?thesis
    by (cases "lease_once (p_leases p ! l)")
      (auto simp: finish_lease_def Let_def intro: count_finish_reuse)
qed

lemma count_withdraw:
  assumes "count_ok p" and "pool_wf p" and "withdraw a p = Some p'"
  shows "count_ok p'"
proof (rule count_cong [OF assms(1,2)])
  show "tally p' = tally p" "p_leases p' = p_leases p" "ep_actives p' = ep_actives p"
    using assms(3) by (auto simp: withdraw_def Let_def frame_simps split: if_splits)
qed (simp_all add: withdraw_proj [OF assms(3)])

lemma count_step:
  "pool_step p p' \<Longrightarrow> pool_wf p \<Longrightarrow> (p_unique p \<Longrightarrow> uniq_ok t p) \<Longrightarrow> count_ok p \<Longrightarrow> count_ok p'"
proof (induction rule: pool_step.induct)
  case (step_reject p)
  show ?case
    by (rule count_cong [OF step_reject(3,1)])
      (simp_all add: frame_simps, simp_all add: count_rejected_def proj_defs)
next
  case (step_cancel a p)
  show ?case by (rule count_cong [OF step_cancel(4,2)]) (simp_all add: frame_simps)
qed (auto intro: count_add_endpoint count_state count_publish count_acquire count_finish count_withdraw)

text \<open>The mode of a pool never changes.\<close>

lemma acquire_mode: "acquire_locked acq p = (r, p') \<Longrightarrow> p_unique p' = p_unique p"
  by (erule acquire_rule [where P = "\<lambda>q. p_unique q = p_unique p"]) (simp_all add: frame_simps grant_proj)

lemma mode_step: "pool_step p p' \<Longrightarrow> pool_wf p \<Longrightarrow> p_unique p' = p_unique p"
proof (induction rule: pool_step.induct)
  case (step_finish l p err now p')
  then show ?case
    using finish_reuse_proj(2) [of "lease_ep (p_leases p ! l)" err now _ p']
    by (auto simp: finish_lease_def finish_unique_alt Let_def frame_simps split: if_splits)
qed (auto simp: add_endpoint_def pool_state_frame publish_frame acquire_mode withdraw_proj
      count_rejected_def frame_simps)

lemma count_steps:
  "pool_steps p p' \<Longrightarrow> pool_wf p \<Longrightarrow> (p_unique p \<Longrightarrow> uniq_ok t p) \<Longrightarrow> count_ok p \<Longrightarrow>
     count_ok p' \<and> p_unique p' = p_unique p"
proof (induction rule: rtranclp_induct)
  case (step q r)
  then have "count_ok q \<and> p_unique q = p_unique p" by blast
  moreover have "pool_wf q" using step.hyps(1) step.prems(1) by (rule wf_steps)
  moreover have "p_unique q \<Longrightarrow> uniq_ok t q"
    using calculation(1) step.prems uniq_steps [OF step.hyps(1)] by blast
  ultimately show ?case using count_step [OF step.hyps(2)] mode_step [OF step.hyps(2)] by auto
qed simp

lemma count_reachable:
  assumes "pool_reachable cfg t p"
  shows "count_ok p \<and> p_unique p = UniqueIP cfg"
proof -
  obtain now where t: "table_ok t" and s: "pool_steps (new_pool cfg t now) p"
    using assms by (auto simp: pool_reachable_def)
  have mode: "p_unique (new_pool cfg t now) = UniqueIP cfg" by (simp add: new_pool_def)
  show ?thesis
    using count_steps [OF s wf_new_pool [OF t] _ count_new, of t] uniq_new [of cfg t now]
    by (simp add: mode)
qed

end
