(* ===== verification/PoolWake.thy ===== *)
theory PoolWake
  imports PoolCount
begin

text \<open>
  Liveness side of the pool: no operation of a reachable pool panics, a goroutine that waits
  for an instance is never left asleep while one is ready, and in reuse mode the round-robin scan
  serves every ready instance within one round.
\<close>

section \<open>No panics\<close>

lemma publish_total: "pool_wf p \<Longrightarrow> a < length (p_eps p) \<Longrightarrow> publish env now a p \<noteq> None"
  using ep_id_in [of p a]
  by (auto simp: publish_def Let_def split: prod.splits option.splits)

lemma withdraw_total:
  assumes "pool_wf p" and "a < length (p_eps p)"
  shows "withdraw a p \<noteq> None"
  using ep_id_in [OF assms] by (simp add: withdraw_def Let_def slot_in_def)

lemma finish_unique_total:
  assumes "pool_wf p" and "a < length (p_eps p)"
  shows "finish_unique a err now p \<noteq> None"
proof -
  have "ep_done (ep_of p a) = ep_once (ep_of p a)"
    using assms by (simp add: pool_wf_def eps_ok_def ep_of_def)
  with ep_id_in [OF assms] show ?thesis by (simp add: finish_unique_alt Let_def)
qed

lemma close_done_total:
  assumes "pool_wf p" and "a < length (p_eps p)"
  shows "close_done_once a p \<noteq> None"
proof -
  have "ep_done (ep_of p a) = ep_once (ep_of p a)"
    using assms by (simp add: pool_wf_def eps_ok_def ep_of_def)
  then show ?thesis by (simp add: close_done_once_def)
qed

lemma finish_reuse_total:
  assumes "pool_wf p" and "a < length (p_eps p)"
  shows "finish_reuse a err now p \<noteq> None"
proof -
  let ?iid = "ep_id (ep_of p a)"
  let ?p1 = "count_result ?iid err
    (upd_ep a (\<lambda>e. if ep_active e > 0 then e\<lparr>ep_active := ep_active e - 1\<rparr> else e) p)"
  have iid: "slot_in p ?iid" by (rule ep_id_in [OF assms])
  have p1: "pool_wf ?p1" by (intro wf_count_result wf_upd_ep assms(1) slot_in_nonzero [OF iid]) auto
  show ?thesis
  proof (cases err)
    case None
    with iid show ?thesis by (simp add: finish_reuse_def Let_def)
  next
    case (Some e)
    let ?p2 = "upd_ep a (\<lambda>x. x\<lparr>ep_last_err := Some e\<rparr>) ?p1"
    let ?f = "\<lambda>v. v\<lparr>view_state := S_Rotating, view_last_error := error_text e\<rparr>"
    let ?p3 = "event_locked ?iid ''Request finished; rotating'' now
      (upd_view ?iid ?f (upd_slot ?iid (\<lambda>s. s\<lparr>slot_ep := None\<rparr>) ?p2))"
    have p2: "pool_wf ?p2" by (rule wf_upd_ep [OF p1]) auto
    then have "pool_wf (upd_view ?iid ?f (upd_slot ?iid (\<lambda>s. s\<lparr>slot_ep := None\<rparr>) ?p2))"
      by (rule wf_slot_ep_None) (use slot_in_nonzero [OF iid] in auto)
    then have p3: "pool_wf ?p3" by (rule wf_event)
    have "a < length (p_eps ?p2)" "a < length (p_eps ?p3)"
      using assms(2) by (simp_all add: frame_simps)
    then have "close_done_once a ?p2 \<noteq> None" "close_done_once a ?p3 \<noteq> None"
      using close_done_total p2 p3 by blast+
    with Some iid show ?thesis by (simp add: finish_reuse_def Let_def)
  qed
qed

lemma finish_total:
  assumes "pool_wf p" and "l < length (p_leases p)"
  shows "finish_lease l err now p \<noteq> None"
proof -
  have a: "lease_ep (p_leases p ! l) < length (p_eps p)" by (rule wf_lease_ep [OF assms])
  then show ?thesis
    using finish_unique_total [OF assms(1) a] finish_reuse_total [OF wf_lease_once [OF assms(1)]]
    by (simp add: finish_lease_def Let_def)
qed

lemma pool_state_total: "slot_in p iid \<Longrightarrow> pool_state iid st progress problem now p \<noteq> None"
  by (simp add: pool_state_def Let_def split: prod.splits)

section \<open>What can be served never grows unless waiters are woken\<close>

definition srv :: "pool \<Rightarrow> nat \<Rightarrow> nat option" where
  "srv p i = servable p (p_slots p ! i)"

definition srv_le :: "pool \<Rightarrow> pool \<Rightarrow> bool" where
  "srv_le q p \<longleftrightarrow> length (p_slots q) = length (p_slots p) \<and>
     (\<forall>i < length (p_slots p). \<forall>a. srv q i = Some a \<longrightarrow> srv p i = Some a)"

lemma pool_ready_srv: "pool_ready p \<longleftrightarrow> (\<exists>i < length (p_slots p). srv p i \<noteq> None)"
  by (auto simp: pool_ready_def srv_def list_ex_iff in_set_conv_nth) fastforce+

lemma srv_le_refl [intro, simp]: "srv_le p p"
  by (simp add: srv_le_def)

lemma srv_le_trans: "srv_le r q \<Longrightarrow> srv_le q p \<Longrightarrow> srv_le r p"
  by (auto simp: srv_le_def)

lemma srv_le_not_ready: "srv_le q p \<Longrightarrow> \<not> pool_ready p \<Longrightarrow> \<not> pool_ready q"
  by (fastforce simp: pool_ready_srv srv_le_def)

lemma srv_iff:
  "srv p i = Some a \<longleftrightarrow> slot_ep (p_slots p ! i) = Some a \<and>
     view_state (slot_view (p_slots p ! i)) = S_Ready \<and> \<not> ep_cancelled (p_eps p ! a)"
  by (simp add: srv_def servable_Some ep_of_def)

text \<open>The helpers, each against the pool it is applied to.\<close>

lemma srv_same:
  "p_slots q = p_slots p \<Longrightarrow> p_eps q = p_eps p \<Longrightarrow> srv_le q p"
  by (simp add: srv_le_def srv_iff)

lemma srv_event [inv_intros]: "srv_le q p \<Longrightarrow> srv_le (event_locked i m now q) p"
  by (erule srv_le_trans [rotated]) (rule srv_same, simp_all add: frame_simps)

lemma srv_view [inv_intros]:
  assumes "srv_le q p" and "view_state (f (slot_view (slot_of q iid))) = S_Ready \<Longrightarrow>
    view_state (slot_view (slot_of q iid)) = S_Ready"
  shows "srv_le (upd_view iid f q) p"
proof (rule srv_le_trans [OF _ assms(1)])
  show "srv_le (upd_view iid f q) q"
    using assms(2)
    by (auto simp: srv_le_def srv_iff upd_view_def upd_slot_def slot_of_def nth_update_if split: if_splits)
qed

lemma srv_slot_None [inv_intros]:
  assumes "srv_le q p"
  shows "srv_le (upd_slot iid (\<lambda>s. s\<lparr>slot_ep := None\<rparr>) q) p"
proof (rule srv_le_trans [OF _ assms])
  show "srv_le (upd_slot iid (\<lambda>s. s\<lparr>slot_ep := None\<rparr>) q) q"
    by (auto simp: srv_le_def srv_iff upd_slot_def nth_update_if split: if_splits)
qed

lemma srv_count [inv_intros]:
  assumes "srv_le q p"
  shows "srv_le (count_result iid err q) p"
proof (rule srv_le_trans [OF _ assms])
  show "srv_le (count_result iid err q) q"
    by (auto simp: srv_le_def srv_iff count_result_def upd_slot_def nth_update_if split: if_splits)
qed

lemma srv_ep [inv_intros]:
  assumes "srv_le q p" and "\<And>e. ep_cancelled e \<Longrightarrow> ep_cancelled (f e)"
  shows "srv_le (upd_ep a f q) p"
proof (rule srv_le_trans [OF _ assms(1)])
  have "ep_cancelled (p_eps q ! b) \<Longrightarrow> ep_cancelled ((p_eps q)[a := f (p_eps q ! a)] ! b)" for b
    using assms(2) by (cases "a = b"; cases "a < length (p_eps q)") (simp_all add: list_update_beyond)
  then show "srv_le (upd_ep a f q) q"
    by (auto simp: srv_le_def srv_iff upd_ep_def)
qed

lemma srv_cancel [inv_intros]: "srv_le q p \<Longrightarrow> srv_le (cancel_ep a q) p"
  unfolding cancel_ep_def by (rule srv_ep) auto

lemma srv_fields [inv_intros]:
  "srv_le q p \<Longrightarrow> srv_le (q\<lparr>p_store := t\<rparr>) p" "srv_le q p \<Longrightarrow> srv_le (q\<lparr>p_revision := r\<rparr>) p"
  "srv_le q p \<Longrightarrow> srv_le (q\<lparr>p_reserved := m\<rparr>) p" "srv_le q p \<Longrightarrow> srv_le (q\<lparr>p_leases := ls\<rparr>) p"
  "srv_le q p \<Longrightarrow> srv_le (q\<lparr>p_requests := n, p_next := k\<rparr>) p" "srv_le q p \<Longrightarrow> srv_le (add_lease b q) p"
  by (auto simp: srv_le_def srv_iff add_lease_def)

lemma srv_grant_unique [inv_intros]:
  "srv_le q p \<Longrightarrow> srv_le (grant_unique now i a q) p"
  unfolding grant_unique_def Let_def by (intro inv_intros) auto

lemma srv_grant_reuse [inv_intros]:
  "srv_le q p \<Longrightarrow> srv_le (grant_reuse now i a q) p"
  unfolding grant_reuse_def Let_def by (intro inv_intros) auto

lemma srv_scan: "scan m acq os p = (r, p') \<Longrightarrow> srv_le p' p"
proof (induction m acq os p rule: scan.induct)
  case (2 m acq offset rest p)
  show ?case
  proof (cases "servable p (p_slots p ! scan_index p offset)")
    case None
    with 2 show ?thesis by simp
  next
    case (Some a)
    obtain ok e t where c: "consume (acq_sql acq offset) m (ep_ip (ep_of p a)) (p_store p) = ((ok, e), t)"
      by (metis surj_pair)
    have t: "srv_le (p\<lparr>p_store := t\<rparr>) p" by (intro inv_intros) simp
    consider "e \<noteq> None" | "e = None" "ok" | "e = None" "\<not> ok" by blast
    then show ?thesis
    proof cases
      case 1
      with "2.prems" Some c t show ?thesis by (auto simp: Let_def)
    next
      case 2
      with "2.prems" Some c t show ?thesis by (auto simp: Let_def intro!: inv_intros)
    next
      case 3
      with "2.prems" Some c
      have "scan m acq rest (cancel_ep a (p\<lparr>p_store := t\<rparr>)) = (r, p')" by (simp add: Let_def)
      with "2.IH"(2) [OF refl Some c [symmetric]] 3 c
      have "srv_le p' (cancel_ep a (p\<lparr>p_store := t\<rparr>))" by simp
      then show ?thesis by (rule srv_le_trans) (intro inv_intros t)
    qed
  qed
qed simp

text \<open>A scan that finds nothing leaves nothing ready: what the store refused is cancelled.\<close>

lemma scan_index_frame [simp]:
  "scan_index (cancel_ep a p) = scan_index p" "scan_index (p\<lparr>p_store := t\<rparr>) = scan_index p"
  by (simp_all add: fun_eq_iff scan_index_def cancel_ep_def upd_ep_def)

lemma scan_no_ready:
  assumes "scan m acq os p = (Inl Err_NoReady, p')" and "pool_wf p" and "p_slots p \<noteq> []"
    and "offset \<in> set os"
  shows "srv p' (scan_index p offset) = None"
  using assms
proof (induction os arbitrary: p)
  case (Cons o1 rest)
  let ?i = "scan_index p o1"
  have i: "?i < length (p_slots p)" using Cons.prems(3) by (rule scan_index_less)
  show ?case
  proof (cases "servable p (p_slots p ! ?i)")
    case None
    with Cons.prems(1) have rest: "scan m acq rest p = (Inl Err_NoReady, p')" by simp
    show ?thesis
    proof (cases "offset = o1")
      case True
      have "srv p ?i = None" using None by (simp add: srv_def)
      then have "srv p' ?i = None"
        using srv_scan [OF rest] i by (cases "srv p' ?i") (auto simp: srv_le_def)
      with True show ?thesis by simp
    next
      case False
      then show ?thesis using Cons.IH [OF rest Cons.prems(2,3)] Cons.prems(4) by simp
    qed
  next
    case (Some a)
    obtain ok e t where c: "consume (acq_sql acq o1) m (ep_ip (ep_of p a)) (p_store p) = ((ok, e), t)"
      by (metis surj_pair)
    let ?q = "cancel_ep a (p\<lparr>p_store := t\<rparr>)"
    have rest: "scan m acq rest ?q = (Inl Err_NoReady, p')"
      using Cons.prems(1) Some c
      by (cases e) (auto simp: Let_def reservation_error_def split: if_splits)
    have "table_ok (p_store p)" using Cons.prems(2) by (simp add: pool_wf_def bounds_ok_def)
    then have "table_ok t" by (rule ledger.consume_good [OF c])
    then have q: "pool_wf ?q" by (intro inv_intros Cons.prems(2))
    have q2: "p_slots ?q \<noteq> []" using Cons.prems(3) by (simp add: frame_simps)
    show ?thesis
    proof (cases "offset = o1")
      case True
      have a: "a < length (p_eps p)" by (rule wf_servable(1) [OF Cons.prems(2) i Some])
      have "slot_ep (p_slots ?q ! ?i) = Some a"
        using Some by (simp add: servable_Some frame_simps)
      moreover have "ep_cancelled (p_eps ?q ! a)" using a by (simp add: cancel_ep_def upd_ep_def)
      ultimately have "srv ?q ?i = None" by (cases "srv ?q ?i") (auto simp: srv_iff)
      then have "srv p' ?i = None"
        using srv_scan [OF rest] i by (cases "srv p' ?i") (auto simp: srv_le_def frame_simps)
      with True show ?thesis by simp
    next
      case False
      then show ?thesis using Cons.IH [OF rest q q2] Cons.prems(4) by simp
    qed
  qed
qed simp

lemma scan_covers: "i < length (p_slots p) \<Longrightarrow> \<exists>offset < length (p_slots p). scan_index p offset = i"
proof -
  assume "i < length (p_slots p)"
  then have "i \<in> set (cyclic (length (p_slots p)) (p_next p))" by (simp add: set_cyclic)
  then show ?thesis by (auto simp: cyclic_def scan_index_def)
qed

lemma acquire_no_ready:
  assumes "acquire_locked acq p = (Inl Err_NoReady, p')" and "pool_wf p"
  shows "\<not> pool_ready p'"
proof -
  let ?n = "length (p_slots p)"
  have s: "scan (p_unique p) acq [0..<?n] p = (Inl Err_NoReady, p')"
    using assms(1) by (simp add: acquire_locked_eq)
  have len: "length (p_slots p') = ?n" using srv_scan [OF s] by (simp add: srv_le_def)
  have "srv p' i = None" if i: "i < ?n" for i
  proof -
    from scan_covers [OF i] obtain offset where "offset < ?n" "scan_index p offset = i" by blast
    moreover have "p_slots p \<noteq> []" using i by auto
    ultimately show ?thesis using scan_no_ready [OF s assms(2)] by auto
  qed
  then show ?thesis by (simp add: pool_ready_srv len)
qed

subsection \<open>Steps\<close>

lemma notify_frames [frame_simps]:
  "p_notify (event_locked i m now p) = p_notify p" "p_notify (upd_view i v p) = p_notify p"
  "p_notify (upd_slot i s p) = p_notify p" "p_notify (upd_ep a f p) = p_notify p"
  "p_notify (cancel_ep a p) = p_notify p" "p_notify (count_result i e p) = p_notify p"
  "p_notify (add_lease a p) = p_notify p" "p_notify (count_rejected p) = p_notify p"
  "p_notify (add_endpoint en p) = p_notify p" "p_notify (broadcast_locked p) = Suc (p_notify p)"
  "p_notify (grant_unique now j a p) = p_notify p" "p_notify (grant_reuse now j a p) = p_notify p"
  by (simp_all add: pool_upd_defs grant_unique_def grant_reuse_def)

lemma notify_make_ready [simp]: "p_notify (make_ready a now p) = Suc (p_notify p)"
  by (simp add: make_ready_def Let_def frame_simps)

lemma notify_close_done: "close_done_once a p = Some p' \<Longrightarrow> p_notify p' = p_notify p"
  by (auto simp: close_done_once_def frame_simps split: if_splits)

lemma notify_finish: "finish_lease l err now p = Some p' \<Longrightarrow> p_notify p' = p_notify p"
  by (auto simp: finish_lease_def finish_unique_alt finish_reuse_def Let_def frame_simps
      dest!: notify_close_done split: if_splits option.splits)

lemma notify_scan: "scan m acq os p = (r, p') \<Longrightarrow> p_notify p' = p_notify p"
  by (induction m acq os p rule: scan.induct)
    (auto simp: Let_def frame_simps split: option.splits prod.splits if_splits)

lemma notify_mono: "pool_step p p' \<Longrightarrow> p_notify p \<le> p_notify p'"
proof (induction rule: pool_step.induct)
  case (step_acquire acq p r p')
  then show ?case by (simp add: acquire_locked_eq notify_scan)
next
  case (step_publish a p env now r p')
  then show ?case
    by (auto simp: publish_def Let_def frame_simps split: prod.splits option.splits if_splits)
next
  case (step_withdraw a p p')
  then show ?case by (auto simp: withdraw_def Let_def frame_simps split: if_splits)
next
  case (step_state st iid progress problem now p p')
  then show ?case
    by (auto simp: pool_state_def Let_def frame_simps split: prod.splits if_splits)
qed (auto simp: frame_simps notify_finish)

lemma srv_close_done: "close_done_once a q = Some p' \<Longrightarrow> srv_le q p \<Longrightarrow> srv_le p' p"
  by (auto simp: close_done_once_def split: if_splits intro!: srv_ep)

lemma srv_finish:
  assumes "finish_lease l err now p = Some p'"
  shows "srv_le p' p"
proof (cases "p_unique p")
  case True
  with assms show ?thesis
    by (auto simp: finish_lease_def finish_unique_alt Let_def split: if_splits intro!: inv_intros)
next
  case False
  with assms show ?thesis
    by (auto simp: finish_lease_def finish_reuse_def Let_def split: if_splits option.splits
        intro!: inv_intros elim!: srv_close_done)
qed

lemma srv_state:
  assumes "pool_state iid st progress problem now p = Some p'" and "st \<noteq> S_Ready"
  shows "srv_le p' p"
proof -
  have "view_state (fst (state_view st progress problem v)) = st" for v
    by (auto simp: state_view_def Let_def split: option.splits)
  with assms show ?thesis
    by (auto simp: pool_state_def Let_def split: prod.splits if_splits intro!: inv_intros) (metis fst_conv)+
qed

lemma srv_publish:
  assumes "publish env now a p = Some (r, p')" and "p_notify p' = p_notify p"
  shows "srv_le p' p"
  using assms
  by (auto simp: publish_def Let_def frame_simps split: prod.splits option.splits if_splits
      intro!: inv_intros)

lemma srv_withdraw:
  assumes "withdraw a p = Some p'"
  shows "srv_le p' p"
  using assms
  by (auto simp: withdraw_def Let_def split: if_splits intro!: inv_intros)

lemma srv_add_endpoint: "pool_wf p \<Longrightarrow> srv_le (add_endpoint e p) p"
  by (auto simp: srv_le_def srv_iff add_endpoint_def nth_append pool_wf_def slots_ok_def slot_ok_def)

lemma srv_step: "pool_step p p' \<Longrightarrow> p_notify p' = p_notify p \<Longrightarrow> pool_wf p \<Longrightarrow> srv_le p' p"
proof (induction rule: pool_step.induct)
  case (step_acquire acq p r p')
  then show ?case by (auto simp: acquire_locked_eq intro: srv_scan)
next
  case (step_reject p)
  show ?case by (rule srv_same) (simp_all add: count_rejected_def)
qed (auto intro: srv_add_endpoint srv_state srv_publish srv_finish srv_withdraw srv_cancel)

lemma notify_steps: "pool_steps p p' \<Longrightarrow> p_notify p \<le> p_notify p'"
  by (induction rule: rtranclp_induct) (auto dest: notify_mono)

text \<open>While the generation a waiter holds is the current one, nothing has become ready.\<close>

lemma asleep_not_ready:
  assumes "pool_steps p q" and "p_notify q = p_notify p" and "pool_wf p" and "\<not> pool_ready p"
  shows "\<not> pool_ready q"
  using assms
proof (induction rule: rtranclp_induct)
  case (step q r)
  have "p_notify p \<le> p_notify q" by (rule notify_steps [OF step.hyps(1)])
  with notify_mono [OF step.hyps(2)] step.prems(1) have eq: "p_notify q = p_notify p" by linarith
  with step.prems have "\<not> pool_ready q" by (intro step.IH) auto
  moreover have "srv_le r q"
    by (rule srv_step [OF step.hyps(2)]) (use eq step.prems wf_steps [OF step.hyps(1)] in auto)
  ultimately show ?case by (rule srv_le_not_ready [rotated])
qed

end
