(* ===== verification/PoolRound.thy ===== *)
theory PoolRound
  imports PoolWake
begin

text \<open>
  Reuse mode (\<open>UNIQUE_IP=false\<close>): every published address is known to the store, so with a
  working database the scan grants the first ready instance in cyclic order, and an instance that
  stays ready is served within one round of the pool.
\<close>

section \<open>Published addresses are known\<close>

definition known_ok :: "pool \<Rightarrow> bool" where
  "known_ok p \<longleftrightarrow> (\<forall>i a. i < length (slot_eps p) \<longrightarrow> slot_eps p ! i = Some a \<longrightarrow>
     row_status (p_store p) (ep_ips p ! a) \<noteq> None)"

definition fewer_eps :: "pool \<Rightarrow> pool \<Rightarrow> bool" where
  "fewer_eps q p \<longleftrightarrow> length (slot_eps q) = length (slot_eps p) \<and>
     (\<forall>i < length (slot_eps p). slot_eps q ! i = slot_eps p ! i \<or> slot_eps q ! i = None)"

lemma known_mono:
  assumes "known_ok p" and "fewer_eps q p" and "ep_ips q = ep_ips p"
    and "\<And>x. row_status (p_store p) x \<noteq> None \<Longrightarrow> row_status (p_store q) x \<noteq> None"
  shows "known_ok q"
  using assms unfolding known_ok_def fewer_eps_def by (metis option.distinct(1))

lemma fewer_refl [simp]: "slot_eps q = slot_eps p \<Longrightarrow> fewer_eps q p"
  by (simp add: fewer_eps_def)

lemma fewer_update: "slot_eps q = (slot_eps p)[i := None] \<Longrightarrow> fewer_eps q p"
  by (auto simp: fewer_eps_def nth_update_if)

lemma frame_close_done2:
  assumes "close_done_once a p = Some p'"
  shows "slot_eps p' = slot_eps p \<and> ep_ips p' = ep_ips p \<and> p_store p' = p_store p"
  using assms by (auto simp: close_done_once_def frame_simps split: if_splits intro: ep_ips_upd)

lemma finish_fewer:
  assumes "finish_lease l err now p = Some p'"
  shows "fewer_eps p' p" "ep_ips p' = ep_ips p" "p_store p' = p_store p"
proof -
  have upd: "ep_ips (upd_ep a (\<lambda>e. e\<lparr>ep_once := True, ep_last_err := er, ep_done := True\<rparr>) q) = ep_ips q"
    "ep_ips (upd_ep a (\<lambda>x. x\<lparr>ep_last_err := er\<rparr>) q) = ep_ips q"
    "ep_ips (upd_ep a (\<lambda>e. if ep_active e > 0 then e\<lparr>ep_active := ep_active e - 1\<rparr> else e) q) = ep_ips q"
    for a er q by (rule ep_ips_upd; simp)+
  have "(slot_eps p' = slot_eps p \<or> (\<exists>i. slot_eps p' = (slot_eps p)[i := None])) \<and>
      ep_ips p' = ep_ips p \<and> p_store p' = p_store p"
  proof (cases "p_unique p")
    case True
    with assms show ?thesis
      by (auto simp: finish_lease_def finish_unique_alt Let_def frame_simps upd split: if_splits)
  next
    case False
    have leases: "slot_eps (p\<lparr>p_leases := ls\<rparr>) = slot_eps p" "ep_ips (p\<lparr>p_leases := ls\<rparr>) = ep_ips p" for ls
      by (simp_all add: proj_defs)
    from False assms show ?thesis
      by (auto simp: finish_lease_def finish_reuse_def Let_def frame_simps upd leases
          split: if_splits option.splits dest!: frame_close_done2)
  qed
  then show "fewer_eps p' p" "ep_ips p' = ep_ips p" "p_store p' = p_store p"
    by (auto intro: fewer_update)
qed

lemma grant_frames:
  "slot_eps (grant_reuse now i a p) = slot_eps p" "ep_ips (grant_reuse now i a p) = ep_ips p"
  "p_store (grant_reuse now i a p) = p_store p"
proof -
  have "ep_ips (upd_ep a (\<lambda>e. e\<lparr>ep_active := ep_active e + 1\<rparr>) q) = ep_ips q" for q
    by (rule ep_ips_upd) simp
  then show "slot_eps (grant_reuse now i a p) = slot_eps p" "ep_ips (grant_reuse now i a p) = ep_ips p"
    "p_store (grant_reuse now i a p) = p_store p"
    by (simp_all add: grant_reuse_def Let_def frame_simps)
qed

lemma acquire_frames:
  assumes "acquire_locked acq p = (r, p')"
  shows "slot_eps p' = slot_eps p \<and> ep_ips p' = ep_ips p \<and>
    (\<forall>x. row_status (p_store p) x \<noteq> None \<longrightarrow> row_status (p_store p') x \<noteq> None)"
proof (rule acquire_rule [where P = "\<lambda>q. slot_eps q = slot_eps p \<and> ep_ips q = ep_ips p \<and>
    (\<forall>x. row_status (p_store p) x \<noteq> None \<longrightarrow> row_status (p_store q) x \<noteq> None)", OF assms])
  have known: "row_status s x \<noteq> None" if "consume env m ip t = (r, s)" "row_status t x \<noteq> None"
    for env m ip t r s x
    using ledger.cons_known [of env m ip t x] that by simp
  fix q a i env u e t
  assume q: "slot_eps q = slot_eps p \<and> ep_ips q = ep_ips p \<and>
    (\<forall>x. row_status (p_store p) x \<noteq> None \<longrightarrow> row_status (p_store q) x \<noteq> None)"
  show "slot_eps (q\<lparr>p_store := t\<rparr>) = slot_eps p \<and> ep_ips (q\<lparr>p_store := t\<rparr>) = ep_ips p \<and>
    (\<forall>x. row_status (p_store p) x \<noteq> None \<longrightarrow> row_status (p_store (q\<lparr>p_store := t\<rparr>)) x \<noteq> None)"
    if "consume env (p_unique p) (ep_ip (ep_of q a)) (p_store q) = ((u, e), t)"
    using q known [OF that] by (simp add: frame_simps)
  show "slot_eps ((if p_unique p then grant_unique else grant_reuse) (acq_now acq) i a (q\<lparr>p_store := t\<rparr>)) = slot_eps p \<and>
    ep_ips ((if p_unique p then grant_unique else grant_reuse) (acq_now acq) i a (q\<lparr>p_store := t\<rparr>)) = ep_ips p \<and>
    (\<forall>x. row_status (p_store p) x \<noteq> None \<longrightarrow> row_status (p_store
       ((if p_unique p then grant_unique else grant_reuse) (acq_now acq) i a (q\<lparr>p_store := t\<rparr>))) x \<noteq> None)"
    if "consume env (p_unique p) (ep_ip (ep_of q a)) (p_store q) = ((True, None), t)"
    using q known [OF that] by (simp add: frame_simps grant_unique_proj grant_frames)
qed (simp_all add: frame_simps)

lemma known_publish:
  assumes "known_ok p" and "pool_wf p" and "a < length (p_eps p)" and "publish env now a p = Some (r, p')"
  shows "known_ok p'"
proof -
  let ?e = "ep_of p a"
  let ?p1 = "upd_view (ep_id ?e)
    (\<lambda>v. v\<lparr>view_ip := ep_ip ?e, view_circuit := ep_circuit ?e, view_last_check := now\<rparr>) p"
  have iid: "slot_in p (ep_id ?e)" by (rule ep_id_in [OF assms(2,3)])
  obtain u e s where o: "observe env (ep_ip ?e) (p_store p) = ((u, e), s)"
    by (metis surj_pair)
  have keep: "row_status s x \<noteq> None" if "row_status (p_store p) x \<noteq> None" for x
    using that ledger.obs_keeps [of "p_store p" x _ env "ep_ip ?e"] o by fastforce
  let ?p2 = "?p1\<lparr>p_store := s\<rparr>"
  have p2: "known_ok ?p2"
    by (rule known_mono [OF assms(1)]) (simp_all add: frame_simps keep)
  have e2: "ep_of ?p2 a = ?e" by (simp add: ep_of_def frame_simps)
  have "known_ok (make_ready a now ?p2)" if none: "e = None"
  proof -
    have "row_status s (ep_ip ?e) \<noteq> None" using ledger.obs_result o none by fastforce
    moreover have "slot_in ?p2 (ep_id (ep_of ?p2 a))" using iid by (simp add: e2 slot_in_def frame_simps)
    note proj = make_ready_proj [OF this, of now]
    show ?thesis
      using p2 calculation assms(3)
      by (auto simp: known_ok_def proj e2 nth_update_if frame_simps ep_ips_nth split: if_splits)
  qed
  then show ?thesis
    using assms(4) iid o p2
    by (auto simp: publish_def Let_def frame_simps split: if_splits option.splits)
qed

lemma known_step: "pool_step p p' \<Longrightarrow> pool_wf p \<Longrightarrow> known_ok p \<Longrightarrow> known_ok p'"
proof (induction rule: pool_step.induct)
  case (step_new p iid ip circuit token c)
  then show ?case
    using wf_slot_eps(1) [of p]
    by (auto simp: known_ok_def add_endpoint_def new_endpoint_def proj_defs nth_append)
next
  case (step_state st iid progress problem now p p')
  show ?case
    by (rule known_mono [OF step_state(4)]) (simp_all add: pool_state_frame [OF step_state(2)])
next
  case (step_publish a p env now r p')
  show ?case by (rule known_publish [OF step_publish(4,3,1,2)])
next
  case (step_acquire acq p r p')
  show ?case
    by (rule known_mono [OF step_acquire(3)]) (use acquire_frames [OF step_acquire(1)] in simp_all)
next
  case (step_reject p)
  show ?case
    by (rule known_mono [OF step_reject(2)]) (simp_all add: count_rejected_def proj_defs)
next
  case (step_finish l p err now p')
  show ?case
    by (rule known_mono [OF step_finish(4)]) (simp_all add: finish_fewer [OF step_finish(2)])
next
  case (step_withdraw a p p')
  show ?case
    by (rule known_mono [OF step_withdraw(4)])
      (simp_all add: withdraw_proj [OF step_withdraw(2)] fewer_eps_def nth_update_if)
next
  case (step_cancel a p)
  show ?case by (rule known_mono [OF step_cancel(3)]) (simp_all add: frame_simps)
qed

lemma known_reachable:
  assumes "pool_reachable cfg t p"
  shows "known_ok p"
proof -
  obtain now where t: "table_ok t" and s: "pool_steps (new_pool cfg t now) p"
    using assms by (auto simp: pool_reachable_def)
  from s have "pool_wf (new_pool cfg t now) \<Longrightarrow> known_ok (new_pool cfg t now) \<Longrightarrow> known_ok p"
    by (induction rule: rtranclp_induct) (auto intro: known_step wf_steps)
  moreover have "known_ok (new_pool cfg t now)" by (simp add: known_ok_def new_pool_def proj_defs)
  ultimately show ?thesis using wf_new_pool [OF t] by blast
qed

section \<open>Round robin\<close>

text \<open>With a working database the reuse scan stops at the first ready slot.\<close>

lemma consume_reuse_ok:
  assumes "table_ok t" and "row_status t ip \<noteq> None"
  shows "\<exists>t'. consume sql_ok False ip t = ((True, None), t')"
proof -
  have "sql_affected False ip t = 1" using assms by (auto simp: affected_status)
  then show ?thesis by (simp add: consume_def sql_ok_def)
qed

lemma srv_known:
  assumes "pool_wf p" and "known_ok p" and "i < length (p_slots p)" and "srv p i = Some a"
  shows "row_status (p_store p) (ep_ip (ep_of p a)) \<noteq> None" and "ep_id (ep_of p a) = i + 1"
proof -
  have sv: "servable p (p_slots p ! i) = Some a" using assms(4) by (simp add: srv_def)
  have a: "a < length (p_eps p)" by (rule wf_servable(1) [OF assms(1,3) sv])
  have "slot_eps p ! i = Some a" using sv assms(3) by (simp add: servable_Some slot_eps_def)
  then show "row_status (p_store p) (ep_ip (ep_of p a)) \<noteq> None"
    using assms(2,3) a by (auto simp: known_ok_def ep_ips_nth slot_eps_def)
  show "ep_id (ep_of p a) = i + 1" by (rule wf_servable(2) [OF assms(1,3) sv])
qed

lemma scan_reuse_first:
  assumes "pool_wf p" and "known_ok p" and "p_slots p \<noteq> []"
    and "offset \<in> set os" and "srv p (scan_index p offset) \<noteq> None"
  shows "\<exists>os1 k os2 a t. os = os1 @ k # os2 \<and> (\<forall>j \<in> set os1. srv p (scan_index p j) = None) \<and>
    srv p (scan_index p k) = Some a \<and>
    scan False (acq_ok now) os p = (Inr (length (p_leases p)), grant_reuse now (scan_index p k) a (p\<lparr>p_store := t\<rparr>))"
  using assms(4)
proof (induction os)
  case (Cons j os)
  show ?case
  proof (cases "srv p (scan_index p j)")
    case None
    with Cons.prems assms(5) have "offset \<in> set os" by auto
    from Cons.IH [OF this] obtain os1 k os2 a t where ih: "os = os1 @ k # os2"
      "\<forall>j \<in> set os1. srv p (scan_index p j) = None" "srv p (scan_index p k) = Some a"
      "scan False (acq_ok now) os p =
         (Inr (length (p_leases p)), grant_reuse now (scan_index p k) a (p\<lparr>p_store := t\<rparr>))"
      by blast
    have step: "scan False (acq_ok now) (j # os) p = scan False (acq_ok now) os p"
      using None by (simp add: srv_def)
    show ?thesis
    proof (intro exI conjI)
      show "j # os = (j # os1) @ k # os2" using ih(1) by simp
      show "\<forall>i \<in> set (j # os1). srv p (scan_index p i) = None" using ih(2) None by simp
    qed (use ih step in simp_all)
  next
    case (Some a)
    have "table_ok (p_store p)" using assms(1) by (simp add: pool_wf_def bounds_ok_def)
    then obtain t where c: "consume sql_ok False (ep_ip (ep_of p a)) (p_store p) = ((True, None), t)"
      using consume_reuse_ok srv_known(1) [OF assms(1,2) scan_index_less [OF assms(3)] Some] by blast
    have "scan False (acq_ok now) (j # os) p =
        (Inr (length (p_leases p)), grant_reuse now (scan_index p j) a (p\<lparr>p_store := t\<rparr>))"
      using Some c by (simp add: srv_def acq_ok_def Let_def)
    with Some show ?thesis
    proof (intro exI conjI)
      show "j # os = [] @ j # os" by simp
      show "\<forall>i \<in> set []. srv p (scan_index p i) = None" by simp
    qed
  qed
qed simp

lemma upt_split: "[0..<n] = xs @ k # ys \<Longrightarrow> k = length xs \<and> set xs = {..<k}"
proof -
  assume e: "[0..<n] = xs @ k # ys"
  have "length xs < n" using arg_cong [OF e, of length] by simp
  moreover have "take (length xs) [0..<n] = xs" and "[0..<n] ! length xs = k" by (simp_all add: e)
  ultimately show ?thesis by (auto simp: take_upt)
qed

lemma acquire_reuse_first:
  assumes "pool_wf p" and "known_ok p" and "\<not> p_unique p" and "d < length (p_slots p)"
    and "srv p (scan_index p d) \<noteq> None"
  obtains k a t where "k \<le> d" and "srv p (scan_index p k) = Some a"
    and "\<forall>j < k. srv p (scan_index p j) = None"
    and "acquire_locked (acq_ok now) p =
      (Inr (length (p_leases p)), grant_reuse now (scan_index p k) a (p\<lparr>p_store := t\<rparr>))"
proof -
  have ne: "p_slots p \<noteq> []" using assms(4) by auto
  have d: "d \<in> set [0..<length (p_slots p)]" using assms(4) by simp
  obtain os1 k os2 a t where os: "[0..<length (p_slots p)] = os1 @ k # os2"
    and none: "\<forall>j \<in> set os1. srv p (scan_index p j) = None" and some: "srv p (scan_index p k) = Some a"
    and res: "scan False (acq_ok now) [0..<length (p_slots p)] p =
      (Inr (length (p_leases p)), grant_reuse now (scan_index p k) a (p\<lparr>p_store := t\<rparr>))"
    using scan_reuse_first [OF assms(1,2) ne d assms(5), of now] by blast
  have os1: "set os1 = {..<k}" using upt_split [OF os] by blast
  have "k \<le> d"
  proof (rule ccontr)
    assume "\<not> k \<le> d"
    then have "d \<in> set os1" by (simp add: os1)
    with none have "srv p (scan_index p d) = None" by (rule bspec)
    with assms(5) show False ..
  qed
  then show ?thesis
    using that some none res assms(3) os1 by (simp add: acquire_locked_eq)
qed

text \<open>Consecutive acquisitions, each with a working database.\<close>

fun acquire_times :: "nat \<Rightarrow> gotime \<Rightarrow> pool \<Rightarrow> pool" where
  "acquire_times 0 now p = p"
| "acquire_times (Suc k) now p = acquire_times k now (snd (acquire_locked (acq_ok now) p))"

lemma acquire_appends: "\<exists>ext. p_leases (snd (acquire_locked acq p)) = p_leases p @ ext"
proof -
  obtain r p' where a: "acquire_locked acq p = (r, p')" by (metis surj_pair)
  have "\<exists>ext. p_leases p' = p_leases p @ ext"
    by (rule acquire_rule [where P = "\<lambda>q. \<exists>ext. p_leases q = p_leases p @ ext", OF a])
      (auto simp: frame_simps grant_proj)
  with a show ?thesis by simp
qed

lemma acquire_times_appends: "\<exists>ext. p_leases (acquire_times k now p) = p_leases p @ ext"
proof (induction k arbitrary: p)
  case (Suc k)
  from acquire_appends [of "acq_ok now" p] Suc.IH [of "snd (acquire_locked (acq_ok now) p)"]
  show ?case by fastforce
qed simp

lemma srv_grant_same:
  assumes "i < length (p_slots p)"
  shows "srv (grant_reuse now j a p) i = srv p i"
proof -
  have eq: "srv (grant_reuse now j a p) i = Some b \<longleftrightarrow> srv p i = Some b" for b
  proof -
    have c: "ep_cancelled ((p_eps p)[a := (p_eps p ! a)\<lparr>ep_active := n\<rparr>] ! b) = ep_cancelled (p_eps p ! b)" for n
      by (cases "a = b"; cases "a < length (p_eps p)") (simp_all add: list_update_beyond)
    show ?thesis using assms
      by (auto simp: srv_iff grant_reuse_def pool_upd_defs nth_update_if c)
  qed
  show ?thesis
  proof (cases "srv p i")
    case None
    then show ?thesis using eq by (metis not_Some_eq)
  next
    case (Some b)
    then show ?thesis by (simp add: eq)
  qed
qed

lemma served_within:
  assumes "pool_wf p" and "known_ok p" and "\<not> p_unique p" and "d < length (p_slots p)"
    and "srv p (scan_index p d) \<noteq> None" and "d < m"
  shows "\<exists>ls \<in> set (drop (length (p_leases p)) (p_leases (acquire_times m now p))).
           lease_instance ls = scan_index p d + 1"
  using assms
proof (induction d arbitrary: p m rule: less_induct)
  case (less d)
  obtain k a t where k: "k \<le> d" and some: "srv p (scan_index p k) = Some a"
    and acq: "acquire_locked (acq_ok now) p =
      (Inr (length (p_leases p)), grant_reuse now (scan_index p k) a (p\<lparr>p_store := t\<rparr>))"
    by (rule acquire_reuse_first [OF less.prems(1-5)])
  let ?n = "length (p_slots p)"
  let ?q = "grant_reuse now (scan_index p k) a (p\<lparr>p_store := t\<rparr>)"
  obtain m' where m: "m = Suc m'" using less.prems(6) by (cases m) auto
  then have times: "acquire_times m now p = acquire_times m' now ?q" by (simp add: acq)
  obtain ext where ext: "p_leases (acquire_times m' now ?q) = p_leases ?q @ ext"
    using acquire_times_appends by blast
  have ql: "p_leases ?q = p_leases p @ [\<lparr>lease_ip = ep_ip (ep_of p a), lease_instance = ep_id (ep_of p a),
      lease_ep = a, lease_once = False\<rparr>]"
    by (simp add: grant_proj ep_of_def)
  have ne: "p_slots p \<noteq> []" using less.prems(4) by auto
  show ?case
  proof (cases "k = d")
    case True
    have "ep_id (ep_of p a) = scan_index p k + 1"
      by (rule srv_known(2) [OF less.prems(1,2) scan_index_less [OF ne] some])
    then show ?thesis unfolding True [symmetric] by (simp add: times ext ql)
  next
    case False
    let ?d = "d - k - 1"
    have lenq: "length (p_slots ?q) = ?n" by (simp add: grant_reuse_def Let_def frame_simps add_lease_def)
    have nextq: "p_next ?q = (scan_index p k + 1) mod ?n"
      by (simp add: grant_reuse_def pool_upd_defs)
    have idx: "scan_index ?q ?d = scan_index p d"
    proof -
      have "scan_index ?q ?d = ((scan_index p k + 1) mod ?n + ?d) mod ?n"
        by (simp only: scan_index_def [of ?q] nextq lenq)
      also have "\<dots> = (scan_index p k + 1 + ?d) mod ?n" by (rule mod_add_left_eq)
      also have "scan_index p k + 1 + ?d = (p_next p + k) mod ?n + (1 + ?d)"
        by (simp add: scan_index_def)
      also have "\<dots> mod ?n = (p_next p + k + (1 + ?d)) mod ?n" by (rule mod_add_left_eq)
      also have "p_next p + k + (1 + ?d) = p_next p + d" using k False by simp
      finally show ?thesis by (simp add: scan_index_def)
    qed
    have wfq: "pool_wf ?q" by (rule wf_acquire [OF less.prems(1) acq])
    have kq: "known_ok ?q"
      by (rule known_mono [OF less.prems(2)]) (use acquire_frames [OF acq] in simp_all)
    have mq: "\<not> p_unique ?q" using less.prems(3) by (simp add: grant_proj)
    have "scan_index p d < ?n" by (rule scan_index_less [OF ne])
    then have "srv ?q (scan_index p d) = srv p (scan_index p d)"
      by (subst srv_grant_same) (auto simp: srv_def servable_def ep_of_def split: option.split)
    then have sq: "srv ?q (scan_index ?q ?d) \<noteq> None" using less.prems(5) unfolding idx by simp
    have "\<exists>ls \<in> set (drop (length (p_leases ?q)) (p_leases (acquire_times m' now ?q))).
        lease_instance ls = scan_index ?q ?d + 1"
      by (rule less.IH [OF _ wfq kq mq _ sq]) (use k False less.prems(4,6) m in \<open>simp_all add: lenq\<close>)
    then show ?thesis unfolding idx by (auto simp: times ext ql)
  qed
qed
end
