(* ===== verification/PoolRun.thy ===== *)
theory PoolRun
  imports PoolRound
begin

text \<open>
  The step relation of the pool as a function: an operation with its inputs either runs (\<open>Some\<close>)
  or is not one the program performs in that state. A run of operations reaches exactly the pools of
  the relation, which is how concrete executions are replayed below.
\<close>

datatype pool_op =
    Op_New nat string string string bool
  | Op_State nat inst_state int "gerr option" gotime
  | Op_Publish sql_env gotime nat
  | Op_Acquire acq_env
  | Op_Reject
  | Op_Finish nat "gerr option" gotime
  | Op_Withdraw nat
  | Op_Cancel nat

fun pool_exec :: "pool_op \<Rightarrow> pool \<Rightarrow> pool option" where
  "pool_exec (Op_New iid ip circuit token c) p =
     (if slot_in p iid then Some (add_endpoint (new_endpoint iid ip circuit token c) p) else None)"
| "pool_exec (Op_State iid st progress problem now) p =
     (if st = S_Ready \<or> st = S_Busy then None else pool_state iid st progress problem now p)"
| "pool_exec (Op_Publish env now a) p =
     (if a < length (p_eps p) then map_option snd (publish env now a p) else None)"
| "pool_exec (Op_Acquire acq) p = Some (snd (acquire_locked acq p))"
| "pool_exec Op_Reject p = Some (count_rejected p)"
| "pool_exec (Op_Finish l err now) p =
     (if l < length (p_leases p) then finish_lease l err now p else None)"
| "pool_exec (Op_Withdraw a) p = (if a < length (p_eps p) then withdraw a p else None)"
| "pool_exec (Op_Cancel a) p = (if a < length (p_eps p) then Some (cancel_ep a p) else None)"

lemma pool_exec_step: "pool_exec op p = Some q \<Longrightarrow> pool_step p q"
  by (cases op)
    (auto intro: pool_step.intros step_acquire [OF prod.collapse [symmetric]] split: if_splits prod.splits)

lemma pool_step_exec:
  assumes "pool_step p q"
  shows "\<exists>op. pool_exec op p = Some q"
  using assms
proof cases
  case (step_new iid ip circuit token c)
  then show ?thesis by (intro exI [of _ "Op_New iid ip circuit token c"]) simp
next
  case (step_state st iid progress problem now)
  then show ?thesis by (intro exI [of _ "Op_State iid st progress problem now"]) simp
next
  case (step_publish a env now r)
  then show ?thesis by (intro exI [of _ "Op_Publish env now a"]) simp
next
  case (step_acquire acq r)
  then show ?thesis by (intro exI [of _ "Op_Acquire acq"]) simp
next
  case step_reject
  then show ?thesis by (intro exI [of _ Op_Reject]) simp
next
  case (step_finish l err now)
  then show ?thesis by (intro exI [of _ "Op_Finish l err now"]) simp
next
  case (step_withdraw a)
  then show ?thesis by (intro exI [of _ "Op_Withdraw a"]) simp
next
  case (step_cancel a)
  then show ?thesis by (intro exI [of _ "Op_Cancel a"]) simp
qed

fun pool_run :: "pool_op list \<Rightarrow> pool \<Rightarrow> pool option" where
  "pool_run [] p = Some p"
| "pool_run (op # ops) p = Option.bind (pool_exec op p) (pool_run ops)"

lemma pool_run_append: "pool_run (xs @ ys) p = Option.bind (pool_run xs p) (pool_run ys)"
  by (induction xs arbitrary: p) (auto split: bind_splits)

lemma pool_run_steps: "pool_run ops p = Some q \<Longrightarrow> pool_steps p q"
proof (induction ops arbitrary: p)
  case (Cons op ops)
  then obtain r where "pool_exec op p = Some r" "pool_run ops r = Some q"
    by (auto elim: bind_eq_SomeE)
  then show ?case using Cons.IH pool_exec_step by (metis converse_rtranclp_into_rtranclp)
qed simp

lemma pool_steps_run: "pool_steps p q \<Longrightarrow> \<exists>ops. pool_run ops p = Some q"
proof (induction rule: rtranclp_induct)
  case base
  show ?case by (intro exI [of _ "[]"]) simp
next
  case (step q r)
  then obtain ops op where "pool_run ops p = Some q" "pool_exec op q = Some r"
    using pool_step_exec by blast
  then have "pool_run (ops @ [op]) p = Some r" by (simp add: pool_run_append)
  then show ?case by blast
qed

section \<open>Two concrete executions\<close>

text \<open>Two instances; the configuration of each mode.\<close>

definition demo_cfg :: "bool \<Rightarrow> config" where
  "demo_cfg u = \<lparr>TorCount = 2, UniqueIP = u, MaxUsedIPRetries = 3, DataDir = ''/data'',
     ProxyAddr = '':3128'', WebAddr = '':8080'', IPCheckURL = ''https://api.ipify.org'',
     ConnectTimeout = 30000000000, IdleTimeout = 120000000000, BootstrapTimeout = 300000000000,
     MaxConnections = 1024\<rparr>"

definition demo_pool :: "bool \<Rightarrow> pool_op list \<Rightarrow> pool" where
  "demo_pool u ops = the (pool_run ops (new_pool (demo_cfg u) [] (At 0)))"

lemma demo_reachable:
  "pool_run ops (new_pool (demo_cfg u) [] (At 0)) \<noteq> None \<Longrightarrow>
     pool_reachable (demo_cfg u) [] (demo_pool u ops)"
  using pool_run_steps [of ops "new_pool (demo_cfg u) [] (At 0)"]
  by (auto simp: pool_reachable_def demo_pool_def table_ok_def)

text \<open>Both instances publish, two requests are served, and the first finishes.\<close>

definition demo_publish :: "pool_op list" where
  "demo_publish =
     [Op_State 1 S_Bootstrapping 0 None (At 1), Op_State 1 S_Checking 100 None (At 2),
      Op_New 1 ''1.1.1.1'' ''7'' ''aa'' False, Op_Publish sql_ok (At 3) 0,
      Op_New 2 ''8.8.8.8'' ''9'' ''bb'' False, Op_Publish sql_ok (At 4) 1]"

definition demo_serve :: "pool_op list" where
  "demo_serve = demo_publish @
     [Op_Acquire (acq_ok (At 5)), Op_Acquire (acq_ok (At 6)), Op_Finish 0 None (At 7)]"

end
