(* ===== verification/PoolFinish.thy ===== *)
theory PoolFinish
  imports PoolRun
begin

text \<open>
  Finishing is final: the flags of the \<open>sync.Once\<close> values are only ever set, and a lease keeps its
  endpoint. So a lease that was finished stays finished, whatever runs after.
\<close>

definition le_bools :: "bool list \<Rightarrow> bool list \<Rightarrow> bool" where
  "le_bools xs ys \<longleftrightarrow> length xs \<le> length ys \<and> (\<forall>i < length xs. xs ! i \<longrightarrow> ys ! i)"

definition lease_onces :: "pool \<Rightarrow> bool list" where
  "lease_onces p = map lease_once (p_leases p)"

definition lease_eps :: "pool \<Rightarrow> nat list" where
  "lease_eps p = map lease_ep (p_leases p)"

definition kept :: "pool \<Rightarrow> pool \<Rightarrow> bool" where
  "kept p q \<longleftrightarrow> p_unique q = p_unique p \<and> le_bools (ep_onces p) (ep_onces q) \<and>
     le_bools (lease_onces p) (lease_onces q) \<and> prefix (lease_eps p) (lease_eps q)"

lemma le_bools_refl [simp]: "le_bools xs xs"
  by (simp add: le_bools_def)

lemma le_bools_append [simp]: "le_bools xs (xs @ ys)"
  by (simp add: le_bools_def nth_append)

lemma le_bools_set [simp]: "le_bools xs (xs[i := True])"
  by (simp add: le_bools_def nth_update_if)

lemma le_bools_trans: "le_bools xs ys \<Longrightarrow> le_bools ys zs \<Longrightarrow> le_bools xs zs"
  by (simp add: le_bools_def)

lemma kept_trans: "kept p q \<Longrightarrow> kept q r \<Longrightarrow> kept p r"
  unfolding kept_def by (metis le_bools_trans prefix_order.trans)

lemma kept_same:
  assumes "p_unique q = p_unique p" and "ep_onces q = ep_onces p" and "p_leases q = p_leases p"
  shows "kept p q"
  using assms by (simp add: kept_def lease_onces_def lease_eps_def)

lemma kept_acquire:
  assumes "acquire_locked acq p = (r, q)"
  shows "kept p q"
proof (rule acquire_rule [where P = "kept p", OF assms])
  show "kept p p" by (rule kept_same) simp_all
next
  fix s :: pool and a i env u e t
  assume "kept p s"
  then show "kept p (s\<lparr>p_store := t\<rparr>)"
    by (rule kept_trans) (rule kept_same, simp_all add: frame_simps)
next
  fix s :: pool and a
  assume "kept p s"
  then show "kept p (cancel_ep a s)"
    by (rule kept_trans) (rule kept_same, simp_all add: frame_simps)
next
  fix s :: pool and a i env t
  let ?s = "s\<lparr>p_store := t\<rparr>"
  let ?q = "(if p_unique p then grant_unique else grant_reuse) (acq_now acq) i a ?s"
  assume "kept p s"
  moreover have "kept s ?q"
    by (auto simp: kept_def lease_onces_def lease_eps_def grant_proj ep_onces_def map_update_same)
  ultimately show "kept p ?q" by (rule kept_trans)
qed

lemma kept_finish_unique:
  assumes "finish_unique a err now p = Some q" and "a < length (p_eps p)"
  shows "kept p q \<and> ep_onces q ! a"
proof (cases "ep_once (ep_of p a)")
  case True
  with assms have "q = p" by (simp add: finish_unique_alt Let_def)
  with True assms(2) show ?thesis by (simp add: kept_same ep_onces_def ep_of_def)
next
  case False
  with assms(1) have "ep_onces q = (ep_onces p)[a := True]" "p_leases q = p_leases p" "p_unique q = p_unique p"
    by (auto simp: finish_unique_alt Let_def frame_simps ep_onces_set split: if_splits)
  with assms(2) show ?thesis by (simp add: kept_def lease_onces_def lease_eps_def ep_onces_def)
qed

lemma finish_reuse_onces:
  assumes "finish_reuse a err now p = Some q"
  shows "le_bools (ep_onces p) (ep_onces q)"
proof -
  let ?f = "\<lambda>e. if ep_active e > 0 then e\<lparr>ep_active := ep_active e - 1\<rparr> else e"
  let ?p1 = "count_result (ep_id (ep_of p a)) err (upd_ep a ?f p)"
  have o1: "ep_onces ?p1 = ep_onces p" by (simp add: frame_simps ep_onces_upd)
  obtain p2 where p2: "ep_onces p2 = ep_onces ?p1" and cd: "q = p2 \<or> close_done_once a p2 = Some q"
  proof (cases err)
    case None
    with assms that [of ?p1] show thesis
      by (auto simp: finish_reuse_def Let_def split: if_splits)
  next
    case (Some e)
    let ?p3 = "upd_ep a (\<lambda>x. x\<lparr>ep_last_err := Some e\<rparr>) ?p1"
    let ?iid = "ep_id (ep_of p a)"
    let ?p4 = "if slot_ep (slot_of ?p3 ?iid) = Some a
               then event_locked ?iid ''Request finished; rotating'' now
                     (upd_view ?iid (\<lambda>v. v\<lparr>view_state := S_Rotating, view_last_error := error_text e\<rparr>)
                       (upd_slot ?iid (\<lambda>s. s\<lparr>slot_ep := None\<rparr>) ?p3))
               else ?p3"
    have "ep_onces ?p4 = ep_onces ?p1" by (simp add: frame_simps ep_onces_upd)
    moreover have "close_done_once a ?p4 = Some q"
      using assms Some by (simp add: finish_reuse_def Let_def split: if_splits)
    ultimately show thesis using that by blast
  qed
  from cd p2 o1 show ?thesis
    by (auto simp: close_done_once_def ep_onces_set split: if_splits)
qed

lemma kept_finish:
  assumes "finish_lease l err now p = Some q" and "pool_wf p" and "l < length (p_leases p)"
  shows "kept p q \<and> lease_finished q (p_leases q ! l)"
proof (cases "p_unique p")
  case True
  let ?a = "lease_ep (p_leases p ! l)"
  have a: "?a < length (p_eps p)" by (rule wf_lease_ep [OF assms(2,3)])
  have f: "finish_unique ?a err now p = Some q" using assms(1) True by (simp add: finish_lease_def Let_def)
  have same: "p_leases q = p_leases p" and len: "length (p_eps q) = length (p_eps p)"
    using f by (auto simp: finish_unique_alt Let_def frame_simps split: if_splits)
  from kept_finish_unique [OF f a] True same len a show ?thesis
    by (simp add: kept_def lease_finished_def ep_onces_def)
next
  case reuse: False
  show ?thesis
  proof (cases "lease_once (p_leases p ! l)")
    case True
    with assms(1) reuse have "q = p" by (simp add: finish_lease_def Let_def)
    with True reuse show ?thesis by (simp add: kept_same lease_finished_def)
  next
    case False
    let ?ls = "(p_leases p)[l := (p_leases p ! l)\<lparr>lease_once := True\<rparr>]"
    let ?p1 = "p\<lparr>p_leases := ?ls\<rparr>"
    have f: "finish_reuse (lease_ep (p_leases p ! l)) err now ?p1 = Some q"
      using assms(1) reuse False by (simp add: finish_lease_def Let_def)
    have "ep_onces ?p1 = ep_onces p" by (simp add: ep_onces_def)
    moreover have "lease_onces ?p1 = (lease_onces p)[l := True]" and "lease_eps ?p1 = lease_eps p"
      by (simp_all add: lease_onces_def lease_eps_def map_update list_update_same_conv assms(3))
    ultimately show ?thesis
      using finish_reuse_proj(1,2) [OF f] finish_reuse_onces [OF f] reuse assms(3)
      by (simp add: kept_def lease_onces_def lease_eps_def lease_finished_def)
  qed
qed

lemma kept_step: "pool_step p q \<Longrightarrow> pool_wf p \<Longrightarrow> kept p q"
proof (induction rule: pool_step.induct)
  case (step_new p iid ip circuit token c)
  show ?case by (simp add: kept_def add_endpoint_def lease_onces_def lease_eps_def ep_onces_def)
next
  case (step_publish a p env now r q)
  then show ?case by (simp add: kept_same publish_frame ep_onces_def)
next
  case (step_reject p)
  show ?case by (simp add: kept_same count_rejected_def ep_onces_def)
next
  case (step_withdraw a p q)
  then have "p_leases q = p_leases p"
    by (auto simp: withdraw_def Let_def frame_simps split: if_splits)
  with step_withdraw show ?case by (simp add: kept_same withdraw_proj)
qed (auto simp: kept_same pool_state_frame frame_simps dest: kept_acquire kept_finish)

lemma kept_steps: "pool_steps p q \<Longrightarrow> pool_wf p \<Longrightarrow> kept p q"
proof (induction rule: rtranclp_induct)
  case base
  show ?case by (simp add: kept_same)
next
  case (step q r)
  then show ?case using kept_trans kept_step wf_steps by metis
qed

lemma kept_finished:
  assumes "kept p q" and "pool_wf p" and "l < length (p_leases p)" and "lease_finished p (p_leases p ! l)"
  shows "lease_finished q (p_leases q ! l)"
proof -
  let ?a = "lease_ep (p_leases p ! l)"
  have a: "?a < length (p_eps p)" by (rule wf_lease_ep [OF assms(2,3)])
  have k: "p_unique q = p_unique p" "le_bools (ep_onces p) (ep_onces q)"
    "le_bools (lease_onces p) (lease_onces q)" "prefix (lease_eps p) (lease_eps q)"
    using assms(1) by (simp_all add: kept_def)
  have l: "l < length (p_leases q)"
    using k(3) assms(3) by (simp add: le_bools_def lease_onces_def)
  have "lease_eps q ! l = lease_eps p ! l"
    using k(4) assms(3) by (auto simp: prefix_def nth_append lease_eps_def)
  then have "lease_ep (p_leases q ! l) = ?a" using l assms(3) by (simp add: lease_eps_def)
  then show ?thesis
    using assms(3,4) k a l by (auto simp: lease_finished_def le_bools_def ep_onces_def lease_onces_def)
qed

lemma finished_noop:
  assumes "lease_finished p (p_leases p ! l)"
  shows "finish_lease l err now p = Some p"
  using assms by (auto simp: lease_finished_def finish_lease_def finish_unique_def ep_of_def Let_def)

text \<open>Finishing leaves the assignments as they are.\<close>

lemma lease_eps_finish:
  assumes "finish_lease l err now p = Some q"
  shows "lease_eps q = lease_eps p"
proof -
  have once: "lease_eps (p\<lparr>p_leases := (p_leases p)[l := (p_leases p ! l)\<lparr>lease_once := True\<rparr>]\<rparr>) = lease_eps p"
    by (simp add: lease_eps_def map_update_same)
  show ?thesis
    using assms once
    by (auto simp: finish_lease_def finish_unique_alt lease_eps_def Let_def frame_simps
        split: if_splits dest: finish_reuse_proj(1))
qed

section \<open>The number of instances is fixed\<close>

lemma frame_len [frame_simps]:
  "length (p_slots (grant_unique now i a p)) = length (p_slots p)"
  "length (p_slots (grant_reuse now i a p)) = length (p_slots p)"
  by (simp_all add: grant_unique_def grant_reuse_def Let_def frame_simps add_lease_def)

lemma size_finish: "finish_lease l err now p = Some q \<Longrightarrow> length (p_slots q) = length (p_slots p)"
  by (auto simp: finish_lease_def finish_unique_alt finish_reuse_def close_done_once_def Let_def frame_simps
      split: if_splits option.splits)

lemma size_acquire:
  assumes "acquire_locked acq p = (r, q)"
  shows "length (p_slots q) = length (p_slots p)"
  by (rule acquire_rule [where P = "\<lambda>s. length (p_slots s) = length (p_slots p)", OF assms])
    (simp_all add: frame_simps)

lemma size_publish: "publish env now a p = Some (r, q) \<Longrightarrow> length (p_slots q) = length (p_slots p)"
  by (auto simp: publish_def make_ready_def Let_def frame_simps
      split: prod.splits if_splits option.splits)

lemma size_withdraw: "withdraw a p = Some q \<Longrightarrow> length (p_slots q) = length (p_slots p)"
  by (auto simp: withdraw_def Let_def frame_simps split: if_splits)

lemma size_step: "pool_step p q \<Longrightarrow> length (p_slots q) = length (p_slots p)"
  by (induction rule: pool_step.induct)
    (auto simp: add_endpoint_def pool_state_frame count_rejected_def frame_simps
      dest: size_finish size_acquire size_publish size_withdraw)

lemma size_steps: "pool_steps p q \<Longrightarrow> length (p_slots q) = length (p_slots p)"
  by (induction rule: rtranclp_induct) (simp_all add: size_step)

lemma size_reachable: "pool_reachable cfg t p \<Longrightarrow> length (p_slots p) = TorCount cfg"
  using size_steps by (fastforce simp: pool_reachable_def new_pool_def)

section \<open>Replaying one more operation\<close>

lemma demo_exec:
  assumes "pool_run (ops @ [op]) (new_pool (demo_cfg u) [] (At 0)) \<noteq> None"
  shows "pool_exec op (demo_pool u ops) = Some (demo_pool u (ops @ [op]))"
  using assms by (auto simp: demo_pool_def pool_run_append split: bind_splits)

end
