(* ===== verification/PoolProps.thy ===== *)
theory PoolProps
  imports PoolFinish
begin

text \<open>What the pool guarantees, over every configuration, every table on disk and every execution.\<close>

section \<open>Unique mode\<close>

text \<open>
  Claim C2. In unique mode no address is ever assigned twice: the leases of any reachable
  pool have pairwise different addresses, none of them was marked used in the database the
  program started from, and each is marked used in the database now (the mark is committed
  before the lease exists). This holds whatever errors the database returned on the way.
\<close>

theorem never_reassigned:
  assumes "pool_reachable cfg t p" and "UniqueIP cfg"
  shows "distinct (map lease_ip (p_leases p)) \<and>
    (\<forall>ls \<in> set (p_leases p). row_status t (lease_ip ls) \<noteq> Some True \<and>
       row_status (p_store p) (lease_ip ls) = Some True)"
  using uniq_reachable [OF assms] by (auto simp: uniq_defs lease_ips_def)

theorem never_reassigned_witness:
  "map lease_ip (p_leases (demo_pool True demo_serve)) = [''1.1.1.1'', ''8.8.8.8''] \<and>
   distinct (map lease_ip (p_leases (demo_pool True demo_serve)))"
proof -
  have r: "pool_reachable (demo_cfg True) [] (demo_pool True demo_serve)"
    by (rule demo_reachable) code_simp
  have "UniqueIP (demo_cfg True)" by (simp add: demo_cfg_def)
  from never_reassigned [OF r this]
  have "distinct (map lease_ip (p_leases (demo_pool True demo_serve)))" by blast
  moreover have "map lease_ip (p_leases (demo_pool True demo_serve)) = [''1.1.1.1'', ''8.8.8.8'']"
    by code_simp
  ultimately show ?thesis by blast
qed

text \<open>
  In unique mode two instances never hold endpoints with the same exit address,
  and the address of every endpoint a slot holds is reserved for exactly that endpoint.
\<close>

theorem exclusive_exits:
  assumes "pool_reachable cfg t p" and "UniqueIP cfg"
    and "i < length (p_slots p)" and "j < length (p_slots p)"
    and "slot_ep (p_slots p ! i) = Some a" and "slot_ep (p_slots p ! j) = Some b"
  shows "p_reserved p (ep_ip (ep_of p a)) = Some a \<and>
    (ep_ip (ep_of p a) = ep_ip (ep_of p b) \<longrightarrow> i = j)"
proof -
  have w: "pool_wf p" and u: "held_ok p"
    using wf_reachable [OF assms(1)] uniq_reachable [OF assms(1,2)] by (simp_all add: uniq_ok_def)
  have ia: "i < length (slot_eps p)" "slot_eps p ! i = Some a"
    and jb: "j < length (slot_eps p)" "slot_eps p ! j = Some b"
    using assms(3-6) by (simp_all add: slot_eps_def)
  note a = wf_slot_eps [OF w ia] and b = wf_slot_eps [OF w jb]
  have "p_reserved p (ep_ips p ! a) = Some a" and "p_reserved p (ep_ips p ! b) = Some b"
    using u ia jb unfolding held_ok_def by blast+
  then have res: "p_reserved p (ep_ip (ep_of p a)) = Some a" and "p_reserved p (ep_ip (ep_of p b)) = Some b"
    by (simp_all only: ep_ips_nth [OF a(1)] ep_ips_nth [OF b(1)])
  then have "a = b" if "ep_ip (ep_of p a) = ep_ip (ep_of p b)"
    using that by (metis option.inject)
  then have "i = j" if "ep_ip (ep_of p a) = ep_ip (ep_of p b)"
    using that a(2) b(2) by (metis add_right_cancel)
  with res show ?thesis by simp
qed

theorem exclusive_exits_witness:
  "slot_ep (p_slots (demo_pool True demo_publish) ! 0) = Some 0 \<and>
   slot_ep (p_slots (demo_pool True demo_publish) ! 1) = Some 1 \<and>
   ep_ip (ep_of (demo_pool True demo_publish) 0) \<noteq> ep_ip (ep_of (demo_pool True demo_publish) 1)"
proof -
  let ?p = "demo_pool True demo_publish"
  have r: "pool_reachable (demo_cfg True) [] ?p" by (rule demo_reachable) code_simp
  have u: "UniqueIP (demo_cfg True)" by (simp add: demo_cfg_def)
  have i: "0 < length (p_slots ?p)" and j: "1 < length (p_slots ?p)" by code_simp+
  have a: "slot_ep (p_slots ?p ! 0) = Some 0" and b: "slot_ep (p_slots ?p ! 1) = Some 1"
    by code_simp+
  from exclusive_exits [OF r u i j a b] a b show ?thesis by auto
qed

definition demo_new :: "pool_op list" where
  "demo_new = [Op_New 1 ''1.1.1.1'' ''7'' ''aa'' False]"

text \<open>
  What \<open>publish\<close> answers when the database works, on every branch: in unique mode a
  used address is refused with the used-IP error (which the worker counts), a reserved one or a dead
  circuit is refused without an error, and otherwise the slot becomes Ready with this endpoint,
  its last error is cleared, the address is reserved and the waiters are woken. The address is known to
  the database afterwards in every case and keeps its mark.
\<close>

theorem publish_outcomes:
  assumes "pool_wf p" and "a < length (p_eps p)" and "ip = ep_ip (ep_of p a)" and "iid = ep_id (ep_of p a)"
  shows "\<exists>q. publish sql_ok now a p = Some
     (if p_unique p \<and> row_status (p_store p) ip = Some True then (False, Some (used_ip_error ip))
      else (\<not> (p_unique p \<and> p_reserved p ip \<noteq> None) \<and> \<not> ep_cancelled (ep_of p a), None), q) \<and>
     row_status (p_store q) ip = Some (row_status (p_store p) ip = Some True) \<and>
     ((p_unique p \<longrightarrow> row_status (p_store p) ip \<noteq> Some True \<and> p_reserved p ip = None) \<and> \<not> ep_cancelled (ep_of p a) \<longrightarrow>
        slot_ep (slot_of q iid) = Some a \<and> view_state (slot_view (slot_of q iid)) = S_Ready \<and>
        view_last_error (slot_view (slot_of q iid)) = '''' \<and>
        (p_unique p \<longrightarrow> p_reserved q ip = Some a) \<and> p_notify q = p_notify p + 1)"
proof -
  let ?e = "ep_of p a"
  let ?ip = "ep_ip ?e" and ?iid = "ep_id ?e"
  let ?p1 = "upd_view (ep_id ?e)
    (\<lambda>v. v\<lparr>view_ip := ep_ip ?e, view_circuit := ep_circuit ?e, view_last_check := now\<rparr>) p"
  let ?s = "sql_insert ?ip (p_store p)"
  let ?p2 = "?p1\<lparr>p_store := ?s\<rparr>"
  have iid: "slot_in p ?iid" using ep_id_in [OF assms(1,2)] by simp
  have o: "observe sql_ok ?ip (p_store p) = ((row_status (p_store p) ?ip \<noteq> Some True, None), ?s)"
    by (auto simp: observe_def sql_ok_def select_used_status status_insert split: option.splits)
  have st: "row_status ?s ?ip = Some (row_status (p_store p) ?ip = Some True)"
    by (auto simp: status_insert split: option.splits)
  have e2: "ep_of ?p2 a = ?e" by (simp add: ep_of_def frame_simps)
  let ?q = "make_ready a now ?p2"
  have in2: "slot_in ?p2 (ep_id (ep_of ?p2 a))" using iid by (simp add: e2 slot_in_def frame_simps)
  have idq: "ep_id (ep_of ?p2 a) = ?iid" by (simp add: e2)
  note proj = make_ready_proj [OF in2, of now]
  have ready: "slot_ep (slot_of ?q ?iid) = Some a \<and> view_state (slot_view (slot_of ?q ?iid)) = S_Ready \<and>
      view_last_error (slot_view (slot_of ?q ?iid)) = '''' \<and>
      (p_unique p \<longrightarrow> p_reserved ?q ?ip = Some a) \<and> p_notify ?q = p_notify p + 1"
    using make_ready_slot [OF in2, of now, unfolded idq] by (simp add: proj e2 frame_simps)
  have pub: "publish sql_ok now a p =
      (if p_unique p \<and> row_status (p_store p) ?ip = Some True
       then Some ((False, Some (used_ip_error ?ip)), ?p2)
       else if (p_unique p \<and> p_reserved p ?ip \<noteq> None) \<or> ep_cancelled ?e then Some ((False, None), ?p2)
       else Some ((True, None), ?q))"
    using iid o by (auto simp: publish_def Let_def frame_simps)
  have stq: "row_status (p_store ?q) ?ip = Some (row_status (p_store p) ?ip = Some True)"
    and st2: "row_status (p_store ?p2) ?ip = Some (row_status (p_store p) ?ip = Some True)"
    using st by (simp_all add: proj)
  consider "p_unique p \<and> row_status (p_store p) ?ip = Some True"
    | "\<not> (p_unique p \<and> row_status (p_store p) ?ip = Some True)"
      "(p_unique p \<and> p_reserved p ?ip \<noteq> None) \<or> ep_cancelled ?e"
    | "\<not> (p_unique p \<and> row_status (p_store p) ?ip = Some True)"
      "\<not> ((p_unique p \<and> p_reserved p ?ip \<noteq> None) \<or> ep_cancelled ?e)"
    by blast
  then show ?thesis
  proof cases
    case 1
    then show ?thesis unfolding assms(3,4) using st2 by (intro exI [of _ ?p2]) (simp add: pub)
  next
    case 2
    then show ?thesis unfolding assms(3,4) using st2 by (intro exI [of _ ?p2]) (auto simp: pub)
  next
    case 3
    then show ?thesis unfolding assms(3,4) using stq ready by (intro exI [of _ ?q]) (auto simp: pub)
  qed
qed

theorem publish_outcomes_witness:
  "\<exists>q. publish sql_ok (At 9) 0 (demo_pool True demo_new)
     = Some ((True, None), q) \<and> p_reserved q ''1.1.1.1'' = Some 0"
proof -
  let ?p = "demo_pool True demo_new"
  have "pool_reachable (demo_cfg True) [] ?p" by (rule demo_reachable) code_simp
  then have w: "pool_wf ?p" by (rule wf_reachable)
  have l: "0 < length (p_eps ?p)" by code_simp
  have ip: "''1.1.1.1'' = ep_ip (ep_of ?p 0)" and iid: "1 = ep_id (ep_of ?p 0)"
    and f: "p_unique ?p" "row_status (p_store ?p) ''1.1.1.1'' = None" "p_reserved ?p ''1.1.1.1'' = None"
      "\<not> ep_cancelled (ep_of ?p 0)"
    by code_simp+
  from publish_outcomes [OF w l ip iid, of "At 9"] show ?thesis
    unfolding f(2,3) using f(1,4) by auto
qed

section \<open>Accounting\<close>

text \<open>
  Claim C14. The counters account for every lease: the requests are the completed ones, the
  failed ones and the leases not finished yet, as 64-bit counters; and in reuse mode the number
  \<open>cycleReuse\<close> waits on before it drains an endpoint is exactly the number of its
  unfinished leases.
\<close>

theorem lease_accounting:
  assumes "pool_reachable cfg t p"
  shows "p_requests p = p_completed p + p_failed p + of_nat (in_flight p) \<and>
    (\<not> UniqueIP cfg \<longrightarrow> (\<forall>a < length (p_eps p). reuse_active a p = in_flight_on p a))"
proof -
  have c: "tally_ok p" "active_ok p" and u: "p_unique p = UniqueIP cfg"
    using count_reachable [OF assms] by (simp_all add: count_ok_def)
  have "length (p_leases p) = length (filter (lease_finished p) (p_leases p)) + in_flight p"
    unfolding in_flight_def by (simp add: sum_length_filter_compl)
  then have "p_requests p = p_completed p + p_failed p + of_nat (in_flight p)"
    using c(1) by (simp add: tally_ok_def tally_def)
  moreover have "\<not> UniqueIP cfg \<longrightarrow> (\<forall>a < length (p_eps p). reuse_active a p = in_flight_on p a)"
    using c(2) u by (simp add: active_ok_def reuse_active_def ep_of_def)
  ultimately show ?thesis by blast
qed

theorem lease_accounting_witness:
  "p_requests (demo_pool False demo_serve) = 2 \<and> in_flight (demo_pool False demo_serve) = 1 \<and>
   p_completed (demo_pool False demo_serve) + p_failed (demo_pool False demo_serve) = 1 \<and>
   reuse_active 1 (demo_pool False demo_serve) = 1"
proof -
  let ?p = "demo_pool False demo_serve"
  have r: "pool_reachable (demo_cfg False) [] ?p" by (rule demo_reachable) code_simp
  have u: "\<not> UniqueIP (demo_cfg False)" by (simp add: demo_cfg_def)
  have f: "p_requests ?p = 2" "in_flight ?p = 1" "1 < length (p_eps ?p)" "in_flight_on ?p 1 = 1"
    by code_simp+
  from lease_accounting [OF r] u f show ?thesis by simp
qed

text \<open>
  Finishing a lease is idempotent: whatever happens after a lease was finished, finishing
  it again, with any result, succeeds and changes nothing.
\<close>

theorem finish_once:
  assumes "pool_reachable cfg t p" and "l < length (p_leases p)"
    and "finish_lease l err now p = Some q" and "pool_steps q r"
  shows "finish_lease l err' now' r = Some r"
proof -
  have w: "pool_wf p" by (rule wf_reachable [OF assms(1)])
  have f: "kept p q" "lease_finished q (p_leases q ! l)" using kept_finish [OF assms(3) w assms(2)] by auto
  have wq: "pool_wf q" using wf_step [OF step_finish [OF assms(2,3)] w] .
  have "length (lease_eps p) \<le> length (lease_eps q)"
    using f(1) by (simp add: kept_def prefix_length_le)
  then have l: "l < length (p_leases q)" using assms(2) by (simp add: lease_eps_def)
  show ?thesis
    by (rule finished_noop) (rule kept_finished [OF kept_steps [OF assms(4) wq] wq l f(2)])
qed

theorem finish_once_witness:
  "finish_lease 0 (Some Err_NoReady) (At 9) (demo_pool True (demo_serve @ [Op_Withdraw 0]))
     = Some (demo_pool True (demo_serve @ [Op_Withdraw 0]))"
proof -
  let ?ops = "demo_publish @ [Op_Acquire (acq_ok (At 5)), Op_Acquire (acq_ok (At 6))]"
  let ?p = "demo_pool True ?ops" and ?q = "demo_pool True demo_serve"
    and ?r = "demo_pool True (demo_serve @ [Op_Withdraw 0])"
  have r: "pool_reachable (demo_cfg True) [] ?p" by (rule demo_reachable) code_simp
  have l: "0 < length (p_leases ?p)" by code_simp
  have "pool_exec (Op_Finish 0 None (At 7)) ?p = Some (demo_pool True (?ops @ [Op_Finish 0 None (At 7)]))"
    by (rule demo_exec) code_simp
  then have f: "finish_lease 0 None (At 7) ?p = Some ?q" using l by (simp add: demo_serve_def)
  have "pool_exec (Op_Withdraw 0) ?q = Some ?r" by (rule demo_exec) code_simp
  then have "pool_steps ?q ?r" by (intro r_into_rtranclp pool_exec_step)
  from finish_once [OF r l f this] show ?thesis .
qed

text \<open>
  Claim C27. No operation panics on a reachable pool: no slot index is out of range, and no \<open>done\<close>
  channel is closed twice. Every publish, withdrawal, state change and finish returns, on every
  answer of the database.
\<close>

theorem no_panic:
  assumes "pool_reachable cfg t p"
  shows "(\<forall>env now. \<forall>a < length (p_eps p). publish env now a p \<noteq> None \<and> withdraw a p \<noteq> None) \<and>
    (\<forall>err now. \<forall>l < length (p_leases p). finish_lease l err now p \<noteq> None) \<and>
    (\<forall>iid st progress problem now. 1 \<le> iid \<and> iid \<le> TorCount cfg \<longrightarrow>
       pool_state iid st progress problem now p \<noteq> None \<and> consecutive_failures iid p \<noteq> None)"
proof -
  have w: "pool_wf p" by (rule wf_reachable [OF assms])
  have n: "length (p_slots p) = TorCount cfg" by (rule size_reachable [OF assms])
  show ?thesis
    using publish_total [OF w] withdraw_total [OF w] finish_total [OF w] pool_state_total n
    by (simp add: slot_in_def consecutive_failures_def)
qed

theorem no_panic_witness:
  "finish_lease 1 (Some Err_NoReady) (At 9) (demo_pool True demo_serve) \<noteq> None \<and>
   withdraw 0 (demo_pool True demo_serve) \<noteq> None"
proof -
  let ?p = "demo_pool True demo_serve"
  have r: "pool_reachable (demo_cfg True) [] ?p" by (rule demo_reachable) code_simp
  have l: "1 < length (p_leases ?p)" and e: "0 < length (p_eps ?p)" by code_simp+
  from no_panic [OF r] l e show ?thesis by blast
qed

section \<open>Spreading the load\<close>

text \<open>
  Claim C28. In reuse mode the load is spread: an instance that can serve gets one of the next
  \<open>Size\<close> requests.
\<close>

theorem round_robin:
  assumes "pool_reachable cfg t p" and "\<not> UniqueIP cfg" and "i < pool_size p"
    and "servable p (p_slots p ! i) \<noteq> None"
  shows "\<exists>ls \<in> set (drop (length (p_leases p)) (p_leases (acquire_times (pool_size p) now p))).
           lease_instance ls = i + 1"
proof -
  have i: "i < length (p_slots p)" using assms(3) by (simp add: pool_size_def)
  then obtain d where d: "d < length (p_slots p)" "scan_index p d = i" using scan_covers by blast
  have "srv p (scan_index p d) \<noteq> None" using assms(4) d(2) by (simp add: srv_def)
  moreover have "\<not> p_unique p" using count_reachable [OF assms(1)] assms(2) by simp
  ultimately show ?thesis
    using served_within [OF wf_reachable [OF assms(1)] known_reachable [OF assms(1)] _ d(1) _ d(1)] d(2)
    by (simp add: pool_size_def)
qed

theorem round_robin_witness:
  "\<exists>ls \<in> set (drop 2 (p_leases (acquire_times 2 (At 9) (demo_pool False demo_serve)))).
     lease_instance ls = 1 + 1"
proof -
  let ?p = "demo_pool False demo_serve"
  have r: "pool_reachable (demo_cfg False) [] ?p" by (rule demo_reachable) code_simp
  have u: "\<not> UniqueIP (demo_cfg False)" by (simp add: demo_cfg_def)
  have i: "1 < pool_size ?p" and s: "servable ?p (p_slots ?p ! 1) \<noteq> None"
    and n: "length (p_leases ?p) = 2" "pool_size ?p = 2"
    by code_simp+
  from round_robin [OF r u i s, of "At 9"] show ?thesis unfolding n .
qed

end
