(* ===== verification/Acquire.thy ===== *)
theory Acquire
  imports PoolFinish "HOL-Library.Multiset"
begin

text \<open>
  \<open>Pool.Acquire\<close> of \<open>internal/app/pool.go\<close>: a request scans for a ready instance under the
  lock, and when there is none it sleeps until the notification channel it read under the same lock is
  closed, its context ends or the deadline passes. The pool changes between the steps, so \<open>Acquire\<close>
  is a program counter, each step of which is one critical section, one reading of the clock or one
  branch of the \<open>select\<close>; the outcomes of the environment are the events.
\<close>

section \<open>The steps of one call\<close>

datatype acq_pc =
    At_Scan gotime           \<comment> \<open>about to scan; the deadline\<close>
  | At_Clock gotime nat      \<comment> \<open>nothing was ready; the deadline and the channel it read\<close>
  | At_Select gotime nat     \<comment> \<open>blocked in the \<open>select\<close>\<close>
  | At_Final                 \<comment> \<open>the timer fired: the final scan\<close>
  | At_Reject                \<comment> \<open>about to call \<open>countRejected\<close>\<close>
  | Returned "gerr + nat"    \<comment> \<open>the error, or the address of the lease\<close>

datatype acq_event =
    Ev_Scan acq_env
  | Ev_Clock gotime
  | Ev_Canceled gerr
  | Ev_Notified
  | Ev_Timeout
  | Ev_Count

definition acquire_call :: "gotime \<Rightarrow> duration \<Rightarrow> acq_pc" where
  "acquire_call now wait = At_Scan (time_add now wait)"

fun acquire_next :: "acq_pc \<Rightarrow> acq_event \<Rightarrow> pool \<Rightarrow> (acq_pc \<times> pool) option" where
  "acquire_next (At_Scan deadline) (Ev_Scan acq) p =
     (case acquire_locked acq p of
        (Inr l, p') \<Rightarrow> Some (Returned (Inr l), p')
      | (Inl e, p') \<Rightarrow>
          if \<not> errors_is e Err_NoReady then Some (Returned (Inl e), p')
          else Some (At_Clock deadline (p_notify p'), p'))"
| "acquire_next (At_Clock deadline g) (Ev_Clock now) p =
     (if deadline \<le> now then Some (At_Reject, p) else Some (At_Select deadline g, p))"
| "acquire_next (At_Select deadline g) (Ev_Canceled e) p = Some (Returned (Inl e), p)"
| "acquire_next (At_Select deadline g) Ev_Notified p =
     (if p_notify p \<noteq> g then Some (At_Scan deadline, p) else None)"
| "acquire_next (At_Select deadline g) Ev_Timeout p = Some (At_Final, p)"
| "acquire_next At_Final (Ev_Scan acq) p =
     (case acquire_locked acq p of
        (Inr l, p') \<Rightarrow> Some (Returned (Inr l), p')
      | (Inl e, p') \<Rightarrow>
          if \<not> errors_is e Err_NoReady then Some (Returned (Inl e), p') else Some (At_Reject, p'))"
| "acquire_next At_Reject Ev_Count p = Some (Returned (Inl Err_NoReady), count_rejected p)"
| "acquire_next _ _ p = None"

section \<open>What the environment can answer\<close>

text \<open>
  The driver of the database cannot return the pool's own sentinel, and \<open>ctx.Err()\<close> is one of the
  two errors of the package \<open>context\<close>.
\<close>

definition foreign_sql :: "sql_env \<Rightarrow> bool" where
  "foreign_sql env \<longleftrightarrow>
     (case env_exec env of Exec_Ok \<Rightarrow> True | Exec_Fail b e \<Rightarrow> \<not> errors_is e Err_NoReady) \<and>
     (case env_read env of None \<Rightarrow> True | Some e \<Rightarrow> \<not> errors_is e Err_NoReady)"

fun event_ok :: "acq_event \<Rightarrow> bool" where
  "event_ok (Ev_Scan acq) \<longleftrightarrow> (\<forall>k. foreign_sql (acq_sql acq k))"
| "event_ok (Ev_Canceled e) \<longleftrightarrow> e = Ctx_Canceled \<or> e = Ctx_DeadlineExceeded"
| "event_ok _ \<longleftrightarrow> True"

lemma foreign_ok [simp]: "foreign_sql sql_ok"
  by (simp add: foreign_sql_def sql_ok_def)

lemma consume_foreign:
  assumes "consume env u ip t = ((b, Some e), t')" and "foreign_sql env"
  shows "\<not> errors_is e Err_NoReady"
  using assms by (cases "env_exec env") (auto simp: consume_def foreign_sql_def split: option.splits)

lemma scan_foreign:
  assumes "scan u acq os p = (Inl e, p')" and "\<forall>k. foreign_sql (acq_sql acq k)" and "errors_is e Err_NoReady"
  shows "e = Err_NoReady"
  using assms
proof (induction os arbitrary: p)
  case (Cons offset rest)
  show ?case
  proof (cases "servable p (p_slots p ! scan_index p offset)")
    case None
    with Cons show ?thesis by simp
  next
    case (Some a)
    obtain ok x t where c: "consume (acq_sql acq offset) u (ep_ip (ep_of p a)) (p_store p) = ((ok, x), t)"
      by (metis surj_pair)
    show ?thesis
    proof (cases x)
      case None
      with Cons.prems Some c have "\<not> ok" by (auto simp: Let_def split: if_splits)
      with Cons None Some c show ?thesis by (simp add: Let_def)
    next
      case (Some y)
      then have "\<not> errors_is y Err_NoReady" using consume_foreign c Cons.prems(2) by blast
      moreover have "e = reservation_error y"
        using Cons.prems(1) Some c \<open>servable p (p_slots p ! scan_index p offset) = Some a\<close>
        by (simp add: Let_def)
      ultimately show ?thesis using Cons.prems(3) by (simp add: reservation_error_def)
    qed
  qed
qed simp

lemma acquire_foreign:
  assumes "acquire_locked acq p = (Inl e, p')" and "\<forall>k. foreign_sql (acq_sql acq k)"
    and "errors_is e Err_NoReady"
  shows "e = Err_NoReady"
  using scan_foreign assms unfolding acquire_locked_eq by blast

section \<open>All requests and workers together\<close>

text \<open>Everything else that runs: the operations of the workers and the ends of requests.\<close>

fun other_op :: "pool_op \<Rightarrow> bool" where
  "other_op (Op_Acquire acq) \<longleftrightarrow> False"
| "other_op Op_Reject \<longleftrightarrow> False"
| "other_op _ \<longleftrightarrow> True"

record acq_sys =
  sys_pcs :: "acq_pc list"
  sys_pool :: pool

inductive sys_step :: "acq_sys \<Rightarrow> acq_sys \<Rightarrow> bool" where
  sys_call: "sys_step s (s\<lparr>sys_pcs := sys_pcs s @ [acquire_call now wait]\<rparr>)"
| sys_own: "i < length (sys_pcs s) \<Longrightarrow> event_ok ev \<Longrightarrow>
    acquire_next (sys_pcs s ! i) ev (sys_pool s) = Some (pc, p) \<Longrightarrow>
    sys_step s (s\<lparr>sys_pcs := (sys_pcs s)[i := pc], sys_pool := p\<rparr>)"
| sys_other: "other_op op \<Longrightarrow> pool_exec op (sys_pool s) = Some p \<Longrightarrow> sys_step s (s\<lparr>sys_pool := p\<rparr>)"

definition sys_start :: "config \<Rightarrow> ip_table \<Rightarrow> gotime \<Rightarrow> acq_sys" where
  "sys_start cfg t now = \<lparr>sys_pcs = [], sys_pool = new_pool cfg t now\<rparr>"

definition sys_reachable :: "config \<Rightarrow> ip_table \<Rightarrow> acq_sys \<Rightarrow> bool" where
  "sys_reachable cfg t s \<longleftrightarrow> table_ok t \<and> (\<exists>now. sys_step\<^sup>*\<^sup>* (sys_start cfg t now) s)"

section \<open>The invariants\<close>

text \<open>What a sleeping or about-to-sleep request knows.\<close>

fun pc_ok :: "pool \<Rightarrow> acq_pc \<Rightarrow> bool" where
  "pc_ok p (At_Clock d g) \<longleftrightarrow> g \<le> p_notify p \<and> (p_notify p = g \<longrightarrow> \<not> pool_ready p)"
| "pc_ok p (At_Select d g) \<longleftrightarrow> g \<le> p_notify p \<and> (p_notify p = g \<longrightarrow> \<not> pool_ready p)"
| "pc_ok p (Returned (Inl e)) \<longleftrightarrow>
     e = Err_NoReady \<or> e = Ctx_Canceled \<or> e = Ctx_DeadlineExceeded \<or> \<not> errors_is e Err_NoReady"
| "pc_ok p _ \<longleftrightarrow> True"

text \<open>The leases the calls returned, and how many calls were rejected.\<close>

fun pc_lease :: "acq_pc \<Rightarrow> nat list" where
  "pc_lease (Returned (Inr l)) = [l]"
| "pc_lease _ = []"

definition sys_leases :: "acq_sys \<Rightarrow> nat list" where
  "sys_leases s = concat (map pc_lease (sys_pcs s))"

definition sys_rejected :: "acq_sys \<Rightarrow> nat" where
  "sys_rejected s = length (filter (\<lambda>pc. pc = Returned (Inl Err_NoReady)) (sys_pcs s))"

end
