(* ===== verification/AcquireInv.thy ===== *)
theory AcquireInv
  imports Acquire
begin

text \<open>
  Invariants of all requests together with the pool: what a sleeping request knows, which leases were
  handed to whom, and what the counter of rejections counts.
\<close>

section \<open>Leases and rejections of one operation\<close>

lemma frame_rejected [frame_simps]:
  "p_rejected (event_locked i m now p) = p_rejected p" "p_rejected (upd_view i v p) = p_rejected p"
  "p_rejected (upd_slot i s p) = p_rejected p" "p_rejected (upd_ep a f p) = p_rejected p"
  "p_rejected (cancel_ep a p) = p_rejected p" "p_rejected (broadcast_locked p) = p_rejected p"
  "p_rejected (add_lease a p) = p_rejected p" "p_rejected (count_result i e p) = p_rejected p"
  "p_rejected (add_endpoint en p) = p_rejected p"
  "p_rejected (grant_unique now j a p) = p_rejected p" "p_rejected (grant_reuse now j a p) = p_rejected p"
  by (simp_all add: event_locked_def upd_view_def upd_slot_def upd_ep_def cancel_ep_def broadcast_locked_def
      add_lease_def count_result_def add_endpoint_def grant_unique_def grant_reuse_def Let_def)

lemma scan_leases:
  assumes "scan u acq os p = (r, p')"
  shows "length (p_leases p') = length (p_leases p) + (case r of Inl e \<Rightarrow> 0 | Inr l \<Rightarrow> 1) \<and>
    (\<forall>l. r = Inr l \<longrightarrow> l = length (p_leases p)) \<and> p_rejected p' = p_rejected p"
  using assms
  by (induction u acq os p rule: scan.induct)
    (auto simp: Let_def frame_simps grant_proj split: option.splits prod.splits if_splits)

lemma acquire_leases:
  assumes "acquire_locked acq p = (r, p')"
  shows "length (p_leases p') = length (p_leases p) + (case r of Inl e \<Rightarrow> 0 | Inr l \<Rightarrow> 1) \<and>
    (\<forall>l. r = Inr l \<longrightarrow> l = length (p_leases p)) \<and> p_rejected p' = p_rejected p"
  using assms scan_leases unfolding acquire_locked_eq by blast

lemma close_done_rejected: "close_done_once a p = Some p' \<Longrightarrow> p_rejected p' = p_rejected p"
  by (auto simp: close_done_once_def frame_simps split: if_splits)

lemma finish_rejected:
  assumes "finish_lease l err now p = Some p'"
  shows "p_rejected p' = p_rejected p"
  using assms
  by (auto simp: finish_lease_def finish_unique_alt finish_reuse_def Let_def frame_simps
      dest!: close_done_rejected split: if_splits option.splits)

lemma finish_leases:
  assumes "finish_lease l err now p = Some p'"
  shows "length (p_leases p') = length (p_leases p)"
proof (cases "p_unique p")
  case True
  with assms show ?thesis
    by (auto simp: finish_lease_def finish_unique_alt Let_def frame_simps split: if_splits)
next
  case False
  with assms show ?thesis
    by (auto simp: finish_lease_def Let_def dest!: finish_reuse_proj(1) split: if_splits)
qed

lemma other_leases:
  assumes "other_op op" and "pool_exec op p = Some p'"
  shows "length (p_leases p') = length (p_leases p) \<and> p_rejected p' = p_rejected p"
  using assms
proof (cases op)
  case (Op_State iid st progress problem now)
  with assms show ?thesis
    by (auto simp: pool_state_def Let_def frame_simps split: if_splits prod.splits)
next
  case (Op_Publish env now a)
  with assms show ?thesis
    by (auto simp: publish_def make_ready_def Let_def frame_simps split: if_splits prod.splits option.splits)
next
  case (Op_Finish l err now)
  with assms show ?thesis by (auto simp: finish_leases finish_rejected split: if_splits)
next
  case (Op_Withdraw a)
  with assms show ?thesis by (auto simp: withdraw_def Let_def frame_simps split: if_splits)
qed (auto simp: add_endpoint_def frame_simps split: if_splits)

section \<open>Sleeping requests\<close>

lemma pc_ok_step:
  assumes "pool_step p q" and "pool_wf p" and "pc_ok p pc"
  shows "pc_ok q pc"
proof -
  have n: "p_notify p \<le> p_notify q" by (rule notify_mono [OF assms(1)])
  have r: "\<not> pool_ready q" if "p_notify q = p_notify p" "\<not> pool_ready p"
    by (rule asleep_not_ready [OF r_into_rtranclp [where r = pool_step, OF assms(1)] that(1) assms(2) that(2)])
  have k: "g \<le> p_notify q \<and> (p_notify q = g \<longrightarrow> \<not> pool_ready q)"
    if "g \<le> p_notify p \<and> (p_notify p = g \<longrightarrow> \<not> pool_ready p)" for g
    using that n r by (metis le_antisym order.trans)
  show ?thesis
  proof (cases pc)
    case (At_Clock d g)
    with assms(3) k show ?thesis by simp
  next
    case (At_Select d g)
    with assms(3) k show ?thesis by simp
  next
    case (Returned r)
    with assms(3) show ?thesis by (cases r) auto
  qed auto
qed

lemma scan_outcome:
  assumes "acquire_locked acq p = (Inl e, q)" and "\<forall>k. foreign_sql (acq_sql acq k)" and "pool_wf p"
    and "errors_is e Err_NoReady"
  shows "e = Err_NoReady \<and> \<not> pool_ready q"
proof -
  have "e = Err_NoReady" by (rule acquire_foreign [OF assms(1,2,4)])
  with acquire_no_ready assms(1,3) show ?thesis by blast
qed

lemma own_step:
  assumes "acquire_next pc ev p = Some (pc', q)"
  shows "q = p \<or> pool_step p q"
  using assms
  by (cases "(pc, ev, p)" rule: acquire_next.cases)
    (auto split: prod.splits sum.splits if_splits intro: step_acquire step_reject)

lemma own_pc_ok:
  assumes "acquire_next pc ev p = Some (pc', q)" and "event_ok ev" and "pool_wf p" and "pc_ok p pc"
  shows "pc_ok q pc'"
  using assms
  by (cases "(pc, ev, p)" rule: acquire_next.cases)
    (auto split: prod.splits sum.splits if_splits dest: scan_outcome)

section \<open>Leases and rejections of the calls\<close>

definition pc_rejected :: "acq_pc \<Rightarrow> bool" where
  "pc_rejected pc \<longleftrightarrow> pc = Returned (Inl Err_NoReady)"

lemma pc_rejected_simps [simp]:
  "pc_rejected (Returned (Inl e)) \<longleftrightarrow> e = Err_NoReady" "\<not> pc_rejected (Returned (Inr l))"
  "\<not> pc_rejected (At_Scan d)" "\<not> pc_rejected (At_Clock d g)" "\<not> pc_rejected (At_Select d g)"
  "\<not> pc_rejected At_Final" "\<not> pc_rejected At_Reject"
  by (simp_all add: pc_rejected_def)

lemma own_leases:
  assumes "acquire_next pc ev p = Some (pc', q)" and "event_ok ev"
  shows "pc_lease pc = [] \<and> \<not> pc_rejected pc \<and>
    pc_lease pc' = [length (p_leases p)..<length (p_leases q)] \<and>
    p_rejected q = p_rejected p + (if pc_rejected pc' then 1 else 0) \<and>
    length (p_leases p) \<le> length (p_leases q)"
  using assms
  by (cases "(pc, ev, p)" rule: acquire_next.cases)
    (auto split: prod.splits sum.splits if_splits dest!: acquire_leases simp: count_rejected_def)

section \<open>The invariant of the system\<close>

definition sys_ok :: "acq_sys \<Rightarrow> bool" where
  "sys_ok s \<longleftrightarrow> pool_wf (sys_pool s) \<and>
     (\<forall>pc \<in> set (sys_pcs s). pc_ok (sys_pool s) pc) \<and>
     mset (sys_leases s) = mset [0..<length (p_leases (sys_pool s))] \<and>
     p_rejected (sys_pool s) = of_nat (length (filter pc_rejected (sys_pcs s)))"

lemma mset_concat_update:
  assumes "i < length xs" and "f (xs ! i) = []"
  shows "mset (concat (map f (xs[i := y]))) = mset (concat (map f xs)) + mset (f y)"
  using assms
proof (induction xs arbitrary: i)
  case (Cons x xs)
  then show ?case by (cases i) auto
qed simp

lemma length_filter_update_new:
  assumes "i < length xs" and "\<not> P (xs ! i)"
  shows "length (filter P (xs[i := y])) = length (filter P xs) + (if P y then 1 else 0)"
  using assms
proof (induction xs arbitrary: i)
  case (Cons x xs)
  then show ?case by (cases i) auto
qed simp

lemma sys_ok_step: "sys_step s s' \<Longrightarrow> sys_ok s \<Longrightarrow> sys_ok s'"
proof (induction rule: sys_step.induct)
  case (sys_call s now wait)
  then show ?case by (simp add: sys_ok_def sys_leases_def acquire_call_def)
next
  case (sys_own i s ev pc p)
  let ?old = "sys_pcs s ! i"
  have w: "pool_wf (sys_pool s)" and ok: "\<forall>pc \<in> set (sys_pcs s). pc_ok (sys_pool s) pc"
    using sys_own.prems by (simp_all add: sys_ok_def)
  have st: "p = sys_pool s \<or> pool_step (sys_pool s) p" by (rule own_step [OF sys_own.hyps(3)])
  have wp: "pool_wf p" using st w wf_step by blast
  have "pc_ok p x" if "x \<in> set (sys_pcs s)" for x
    using st ok that pc_ok_step [OF _ w] by blast
  moreover have "pc_ok p pc"
    using own_pc_ok [OF sys_own.hyps(3,2) w] ok sys_own.hyps(1) by simp
  ultimately have pcs: "\<forall>x \<in> set ((sys_pcs s)[i := pc]). pc_ok p x"
    using set_update_subset_insert [of "sys_pcs s" i pc] by blast
  note l = own_leases [OF sys_own.hyps(3,2)]
  have "mset (concat (map pc_lease ((sys_pcs s)[i := pc])))
      = mset [0..<length (p_leases (sys_pool s))] + mset (pc_lease pc)"
    using mset_concat_update [OF sys_own.hyps(1), of pc_lease pc] l sys_own.prems
    by (simp add: sys_ok_def sys_leases_def)
  also have "\<dots> = mset [0..<length (p_leases p)]"
    using l by (metis le0 mset_append upt_add_eq_append le_Suc_ex)
  finally show ?case
    using wp pcs l sys_own.prems length_filter_update_new [OF sys_own.hyps(1), of pc_rejected pc]
    by (simp add: sys_ok_def sys_leases_def)
next
  case (sys_other op s p)
  have w: "pool_wf (sys_pool s)" and ok: "\<forall>pc \<in> set (sys_pcs s). pc_ok (sys_pool s) pc"
    using sys_other.prems by (simp_all add: sys_ok_def)
  have st: "pool_step (sys_pool s) p" by (rule pool_exec_step [OF sys_other.hyps(2)])
  then have "pool_wf p" using w wf_step by blast
  moreover have "\<forall>pc \<in> set (sys_pcs s). pc_ok p pc" using ok pc_ok_step [OF st w] by blast
  ultimately show ?case
    using other_leases [OF sys_other.hyps] sys_other.prems by (simp add: sys_ok_def sys_leases_def)
qed

lemma sys_ok_start: "table_ok t \<Longrightarrow> sys_ok (sys_start cfg t now)"
  by (simp add: sys_ok_def sys_start_def sys_leases_def wf_new_pool) (simp add: new_pool_def)

lemma sys_ok_reachable:
  assumes "sys_reachable cfg t s"
  shows "sys_ok s"
proof -
  obtain now where t: "table_ok t" and s: "sys_step\<^sup>*\<^sup>* (sys_start cfg t now) s"
    using assms by (auto simp: sys_reachable_def)
  from s show ?thesis
    by (induction rule: rtranclp_induct) (auto intro: sys_ok_step sys_ok_start t)
qed

end
