(* ===== verification/AcquireProps.thy ===== *)
theory AcquireProps
  imports AcquireInv
begin

text \<open>What \<open>Acquire\<close> guarantees to the requests, whatever the interleaving.\<close>

section \<open>Replaying an execution\<close>

datatype sys_act = Do_Call gotime duration | Do_Own nat acq_event | Do_Other pool_op

fun sys_exec :: "sys_act \<Rightarrow> acq_sys \<Rightarrow> acq_sys option" where
  "sys_exec (Do_Call now wait) s = Some (s\<lparr>sys_pcs := sys_pcs s @ [acquire_call now wait]\<rparr>)"
| "sys_exec (Do_Own i ev) s =
     (if i < length (sys_pcs s)
      then (case acquire_next (sys_pcs s ! i) ev (sys_pool s) of
              None \<Rightarrow> None
            | Some (pc, p) \<Rightarrow> Some (s\<lparr>sys_pcs := (sys_pcs s)[i := pc], sys_pool := p\<rparr>))
      else None)"
| "sys_exec (Do_Other op) s =
     (if other_op op
      then (case pool_exec op (sys_pool s) of None \<Rightarrow> None | Some p \<Rightarrow> Some (s\<lparr>sys_pool := p\<rparr>)) else None)"

fun act_ok :: "sys_act \<Rightarrow> bool" where
  "act_ok (Do_Own i ev) \<longleftrightarrow> event_ok ev"
| "act_ok _ \<longleftrightarrow> True"

lemma sys_exec_step: "sys_exec act s = Some s' \<Longrightarrow> act_ok act \<Longrightarrow> sys_step s s'"
  by (cases act) (auto intro: sys_step.intros split: if_splits option.splits)

fun sys_run :: "sys_act list \<Rightarrow> acq_sys \<Rightarrow> acq_sys option" where
  "sys_run [] s = Some s"
| "sys_run (act # acts) s = Option.bind (sys_exec act s) (sys_run acts)"

lemma sys_run_steps: "sys_run acts s = Some s' \<Longrightarrow> list_all act_ok acts \<Longrightarrow> sys_step\<^sup>*\<^sup>* s s'"
proof (induction acts arbitrary: s)
  case (Cons act acts)
  then obtain r where "sys_exec act s = Some r" "sys_run acts r = Some s'" "act_ok act" "list_all act_ok acts"
    by (auto elim: bind_eq_SomeE)
  then show ?case using Cons.IH sys_exec_step by (metis converse_rtranclp_into_rtranclp)
qed simp

definition demo_sys :: "sys_act list \<Rightarrow> acq_sys" where
  "demo_sys acts = the (sys_run acts (sys_start (demo_cfg True) [] (At 0)))"

lemma demo_sys_reachable:
  assumes "sys_run acts (sys_start (demo_cfg True) [] (At 0)) \<noteq> None" and "list_all act_ok acts"
  shows "sys_reachable (demo_cfg True) [] (demo_sys acts)"
proof -
  obtain s where s: "sys_run acts (sys_start (demo_cfg True) [] (At 0)) = Some s" using assms(1) by blast
  have "sys_step\<^sup>*\<^sup>* (sys_start (demo_cfg True) [] (At 0)) s" by (rule sys_run_steps [OF s assms(2)])
  with s show ?thesis by (auto simp: sys_reachable_def demo_sys_def table_ok_def)
qed

lemma acq_ok_foreign [simp]: "foreign_sql (acq_sql (acq_ok now) k)"
  by (simp add: acq_ok_def)

text \<open>
  Two requests arrive before anything is ready; the first goes to sleep, an instance becomes
  ready, the second takes it and the first is rejected at its deadline.
\<close>

definition demo_asleep :: "sys_act list" where
  "demo_asleep =
     [Do_Call (At 1) 30, Do_Own 0 (Ev_Scan (acq_ok (At 1))), Do_Own 0 (Ev_Clock (At 2)),
      Do_Other (Op_New 1 ''1.1.1.1'' ''7'' ''aa'' False), Do_Other (Op_Publish sql_ok (At 3) 0)]"

definition demo_rush :: "sys_act list" where
  "demo_rush = demo_asleep @
     [Do_Call (At 4) 30, Do_Own 1 (Ev_Scan (acq_ok (At 4))), Do_Own 0 Ev_Notified,
      Do_Own 0 (Ev_Scan (acq_ok (At 5))), Do_Own 0 (Ev_Clock (At 99)), Do_Own 0 Ev_Count]"

section \<open>The pool of the system\<close>

lemma sys_pool_steps: "sys_step s s' \<Longrightarrow> sys_pool s' = sys_pool s \<or> pool_step (sys_pool s) (sys_pool s')"
  by (induction rule: sys_step.induct) (auto dest: own_step pool_exec_step)

lemma sys_pool_reachable:
  assumes "sys_reachable cfg t s"
  shows "pool_reachable cfg t (sys_pool s)"
proof -
  obtain now where t: "table_ok t" and s: "sys_step\<^sup>*\<^sup>* (sys_start cfg t now) s"
    using assms by (auto simp: sys_reachable_def)
  from s have "pool_steps (new_pool cfg t now) (sys_pool s)"
  proof (induction rule: rtranclp_induct)
    case base
    show ?case by (simp add: sys_start_def)
  next
    case (step u v)
    then show ?case using sys_pool_steps by (metis rtranclp.rtrancl_into_rtrancl)
  qed
  with t show ?thesis by (auto simp: pool_reachable_def)
qed

section \<open>Properties\<close>

text \<open>
  Claim C6. No wake-up is lost. In every reachable state of all requests, workers and the pool, a
  request that is asleep (or about to sleep) while some instance is ready holds a
  notification channel that is already closed, so it can scan again; and when the
  channel is open, no instance is ready.
\<close>

theorem no_lost_wakeup:
  assumes "sys_reachable cfg t s" and "i < length (sys_pcs s)" and "sys_pcs s ! i = At_Select deadline g"
    and "pool_ready (sys_pool s)"
  shows "acquire_next (sys_pcs s ! i) Ev_Notified (sys_pool s) = Some (At_Scan deadline, sys_pool s)"
proof -
  have "sys_ok s" by (rule sys_ok_reachable [OF assms(1)])
  then have "pc_ok (sys_pool s) (sys_pcs s ! i)" using assms(2) by (simp add: sys_ok_def)
  with assms(3,4) show ?thesis by auto
qed

theorem no_lost_wakeup_witness:
  "pool_ready (sys_pool (demo_sys demo_asleep)) \<and>
   acquire_next (sys_pcs (demo_sys demo_asleep) ! 0) Ev_Notified (sys_pool (demo_sys demo_asleep))
     = Some (At_Scan (At 31), sys_pool (demo_sys demo_asleep))"
proof -
  have r: "sys_reachable (demo_cfg True) [] (demo_sys demo_asleep)"
    by (rule demo_sys_reachable) (code_simp, simp add: demo_asleep_def)
  have f: "0 < length (sys_pcs (demo_sys demo_asleep))"
    "sys_pcs (demo_sys demo_asleep) ! 0 = At_Select (At 31) 0" "pool_ready (sys_pool (demo_sys demo_asleep))"
    by code_simp+
  from no_lost_wakeup [OF r f] f(3) show ?thesis by simp
qed

text \<open>
  Claim C3. Requests and leases correspond one to one: every lease of the pool was returned to
  exactly one request, no two requests got the same lease, in unique mode no two requests
  were served through the same address, and the counter of rejections counts the
  calls that returned the not-ready error.
\<close>

theorem requests_and_leases:
  assumes "sys_reachable cfg t s"
  shows "distinct (sys_leases s) \<and> set (sys_leases s) = {..<length (p_leases (sys_pool s))} \<and>
    (UniqueIP cfg \<longrightarrow> distinct (map (\<lambda>l. lease_ip (p_leases (sys_pool s) ! l)) (sys_leases s))) \<and>
    p_rejected (sys_pool s) = of_nat (sys_rejected s)"
proof -
  let ?ls = "p_leases (sys_pool s)"
  have ok: "sys_ok s" by (rule sys_ok_reachable [OF assms])
  then have m: "mset (sys_leases s) = mset [0..<length ?ls]" by (simp add: sys_ok_def)
  have d: "distinct (sys_leases s)" using mset_eq_imp_distinct_iff [OF m] distinct_upt by blast
  have set: "set (sys_leases s) = {..<length ?ls}"
    using mset_eq_setD [OF m] by (simp only: set_upt atLeast0LessThan)
  have "distinct (map (\<lambda>l. lease_ip (?ls ! l)) (sys_leases s))" if "UniqueIP cfg"
  proof -
    have ips: "distinct (map lease_ip ?ls)"
      using uniq_reachable [OF sys_pool_reachable [OF assms] that] by (simp add: uniq_defs lease_ips_def)
    have "inj_on (\<lambda>l. lease_ip (?ls ! l)) (set (sys_leases s))"
      using ips set by (auto simp: inj_on_def distinct_conv_nth)
    with d show ?thesis by (simp add: distinct_map)
  qed
  moreover have "p_rejected (sys_pool s) = of_nat (sys_rejected s)"
  proof -
    have "(\<lambda>pc. pc = Returned (Inl Err_NoReady)) = pc_rejected" by (simp add: fun_eq_iff pc_rejected_def)
    then have "sys_rejected s = length (filter pc_rejected (sys_pcs s))" unfolding sys_rejected_def by simp
    with ok show ?thesis unfolding sys_ok_def by metis
  qed
  ultimately show ?thesis using d set by blast
qed

theorem requests_and_leases_witness:
  "sys_pcs (demo_sys demo_rush) = [Returned (Inl Err_NoReady), Returned (Inr 0)] \<and>
   p_rejected (sys_pool (demo_sys demo_rush)) = of_nat (sys_rejected (demo_sys demo_rush)) \<and>
   sys_rejected (demo_sys demo_rush) = 1 \<and> distinct (sys_leases (demo_sys demo_rush))"
proof -
  have r: "sys_reachable (demo_cfg True) [] (demo_sys demo_rush)"
    by (rule demo_sys_reachable) (code_simp, simp add: demo_rush_def demo_asleep_def)
  have pcs: "sys_pcs (demo_sys demo_rush) = [Returned (Inl Err_NoReady), Returned (Inr 0)]"
    by code_simp
  from requests_and_leases [OF r] pcs show ?thesis by (simp add: sys_rejected_def)
qed

section \<open>Termination of a call\<close>

text \<open>How many steps of its own a call needs at most once the deadline is over.\<close>

fun acq_rank :: "acq_pc \<Rightarrow> nat" where
  "acq_rank (At_Select d g) = 4"
| "acq_rank (At_Scan d) = 3"
| "acq_rank (At_Clock d g) = 2"
| "acq_rank At_Final = 2"
| "acq_rank At_Reject = 1"
| "acq_rank (Returned r) = 0"

fun pc_deadline :: "acq_pc \<Rightarrow> gotime option" where
  "pc_deadline (At_Scan d) = Some d"
| "pc_deadline (At_Clock d g) = Some d"
| "pc_deadline (At_Select d g) = Some d"
| "pc_deadline _ = None"

fun past :: "gotime option \<Rightarrow> acq_event \<Rightarrow> bool" where
  "past (Some d) (Ev_Clock now) \<longleftrightarrow> d \<le> now"
| "past _ _ \<longleftrightarrow> True"

text \<open>The own steps of a call, each in the pool of its moment.\<close>

fun acq_run :: "(acq_event \<times> pool) list \<Rightarrow> acq_pc \<Rightarrow> acq_pc option" where
  "acq_run [] pc = Some pc"
| "acq_run ((ev, p) # rest) pc =
     (case acquire_next pc ev p of None \<Rightarrow> None | Some (pc', q) \<Rightarrow> acq_run rest pc')"

lemma own_rank:
  assumes "acquire_next pc ev p = Some (pc', q)" and "past (pc_deadline pc) ev"
  shows "acq_rank pc' < acq_rank pc \<and> (pc_deadline pc' = None \<or> pc_deadline pc' = pc_deadline pc)"
  using assms
  by (cases "(pc, ev, p)" rule: acquire_next.cases) (auto split: prod.splits sum.splits if_splits)

lemma not_stuck: "acq_rank pc \<noteq> 0 \<Longrightarrow> \<exists>ev. event_ok ev \<and> acquire_next pc ev p \<noteq> None"
proof (cases pc)
  case (At_Scan d)
  then show ?thesis
    by (intro exI [of _ "Ev_Scan (acq_ok Zero_Time)"]) (auto split: prod.split sum.split)
next
  case (At_Clock d g)
  then show ?thesis by (intro exI [of _ "Ev_Clock Zero_Time"]) auto
next
  case (At_Select d g)
  then show ?thesis by (intro exI [of _ Ev_Timeout]) auto
next
  case At_Final
  then show ?thesis
    by (intro exI [of _ "Ev_Scan (acq_ok Zero_Time)"]) (auto split: prod.split sum.split)
next
  case At_Reject
  then show ?thesis by (intro exI [of _ Ev_Count]) auto
qed simp

text \<open>
  Claim C18. A call of \<open>Acquire\<close> ends: once its deadline is over it makes at most four more steps of
  its own, whatever happens to the pool between them, and as long as it has not returned some
  step is possible in every pool, without waiting for another goroutine.
\<close>

theorem acquire_ends:
  assumes "acq_run trace pc = Some pc'" and "\<forall>(ev, p) \<in> set trace. past (pc_deadline pc) ev"
  shows "length trace + acq_rank pc' \<le> acq_rank pc \<and> acq_rank pc \<le> 4 \<and>
    ((\<forall>r. pc' \<noteq> Returned r) \<longrightarrow> (\<exists>ev. event_ok ev \<and> acquire_next pc' ev p \<noteq> None))"
proof -
  have past_None: "past None ev" for ev by (cases ev) auto
  have "length trace + acq_rank pc' \<le> acq_rank pc"
    using assms
  proof (induction trace arbitrary: pc)
    case (Cons x rest)
    obtain ev p where x: "x = (ev, p)" by (cases x)
    obtain pc1 q where n: "acquire_next pc ev p = Some (pc1, q)" and r: "acq_run rest pc1 = Some pc'"
      using Cons.prems(1) x by (auto split: option.splits)
    have lt: "acq_rank pc1 < acq_rank pc" and dl: "pc_deadline pc1 = None \<or> pc_deadline pc1 = pc_deadline pc"
      using own_rank [OF n] Cons.prems(2) x by auto
    have "\<forall>(ev, p) \<in> set rest. past (pc_deadline pc1) ev"
      using dl Cons.prems(2) past_None by auto
    with Cons.IH [OF r] lt show ?case by simp
  qed simp
  moreover have "acq_rank pc \<le> 4" by (cases pc) auto
  moreover have "\<exists>ev. event_ok ev \<and> acquire_next pc' ev p \<noteq> None" if "\<forall>r. pc' \<noteq> Returned r"
  proof (rule not_stuck)
    show "acq_rank pc' \<noteq> 0" using that by (cases pc') auto
  qed
  ultimately show ?thesis by blast
qed

theorem acquire_ends_witness:
  "acq_run [(Ev_Scan (acq_ok (At 9)), demo_pool True []), (Ev_Clock (At 40), demo_pool True []),
      (Ev_Count, demo_pool True [])] (acquire_call (At 1) 30) = Some (Returned (Inl Err_NoReady)) \<and>
   (3::nat) + acq_rank (Returned (Inl Err_NoReady)) \<le> acq_rank (acquire_call (At 1) 30)"
proof -
  let ?t = "[(Ev_Scan (acq_ok (At 9)), demo_pool True []), (Ev_Clock (At 40), demo_pool True []),
      (Ev_Count, demo_pool True [])]"
  have r: "acq_run ?t (acquire_call (At 1) 30) = Some (Returned (Inl Err_NoReady))" by code_simp
  have "\<forall>(ev, p) \<in> set ?t. past (pc_deadline (acquire_call (At 1) 30)) ev"
    by (simp add: acquire_call_def)
  from acquire_ends [OF r this] r show ?thesis by simp
qed

end
