(* ===== verification/GoNet.thy ===== *)
theory GoNet
  imports GoStrings
begin

text \<open>
  The functions of Go's packages \<open>net\<close>, \<open>net/url\<close> and \<open>net/http\<close> that the sources call on
  addresses and headers, on byte strings.
\<close>

section \<open>Positions of a byte\<close>

fun index_byte :: "char \<Rightarrow> string \<Rightarrow> nat option" where
  "index_byte c [] = None"
| "index_byte c (x # s) = (if x = c then Some 0 else map_option Suc (index_byte c s))"

definition last_index_byte :: "char \<Rightarrow> string \<Rightarrow> nat option" where
  "last_index_byte c s = map_option (\<lambda>i. length s - 1 - i) (index_byte c (rev s))"

lemma index_byte_None [simp]: "index_byte c s = None \<longleftrightarrow> c \<notin> set s"
  by (induction s) auto

lemma index_byte_here [simp]: "c \<notin> set s \<Longrightarrow> index_byte c (s @ c # t) = Some (length s)"
  by (induction s) auto

lemma index_byte_Some:
  "index_byte c s = Some i \<Longrightarrow> i < length s \<and> s ! i = c \<and> c \<notin> set (take i s)"
  by (induction s arbitrary: i) (auto split: if_splits simp: nth_Cons take_Cons split: nat.splits)

lemma last_index_None [simp]: "last_index_byte c s = None \<longleftrightarrow> c \<notin> set s"
  by (simp add: last_index_byte_def)

lemma last_index_append: "c \<notin> set t \<Longrightarrow> last_index_byte c (s @ c # t) = Some (length s)"
proof -
  assume t: "c \<notin> set t"
  then have "index_byte c (rev (s @ c # t)) = Some (length t)" by simp
  then show ?thesis by (simp add: last_index_byte_def)
qed

lemma last_index_Some:
  assumes "last_index_byte c s = Some i"
  shows "i < length s" and "s ! i = c" and "c \<notin> set (drop (Suc i) s)"
proof -
  from assms obtain j where j: "index_byte c (rev s) = Some j" and i: "i = length s - 1 - j"
    by (auto simp: last_index_byte_def)
  note f = index_byte_Some [OF j]
  then have lt: "j < length s" by simp
  then show "i < length s" using i by simp
  show "s ! i = c" using f lt i by (simp add: rev_nth)
  have "drop (Suc i) s = rev (take j (rev s))"
    using lt i by (simp add: take_rev Suc_diff_Suc)
  then show "c \<notin> set (drop (Suc i) s)" using f by simp
qed

section \<open>net.SplitHostPort and net.JoinHostPort\<close>

definition colon :: char where "colon = CHR '':''"
definition lbracket :: char where "lbracket = CHR ''[''"
definition rbracket :: char where "rbracket = CHR '']''"

text \<open>The message of the \<open>AddrError\<close> on the left.\<close>

definition split_host_port :: "string \<Rightarrow> string + (string \<times> string)" where
  "split_host_port hostport =
     (case last_index_byte colon hostport of
        None \<Rightarrow> Inl ''missing port in address''
      | Some i \<Rightarrow>
          (let checked = (\<lambda>host j k.
             if lbracket \<in> set (drop j hostport) then Inl ''unexpected '[' in address''
             else if rbracket \<in> set (drop k hostport) then Inl ''unexpected ']' in address''
             else Inr (host, drop (i + 1) hostport))
           in if hostport ! 0 = lbracket
              then (case index_byte rbracket hostport of
                      None \<Rightarrow> Inl ''missing ']' in address''
                    | Some e \<Rightarrow>
                        if e + 1 = length hostport then Inl ''missing port in address''
                        else if e + 1 = i then checked (drop 1 (take e hostport)) 1 (e + 1)
                        else if hostport ! (e + 1) = colon then Inl ''too many colons in address''
                        else Inl ''missing port in address'')
              else if colon \<in> set (take i hostport) then Inl ''too many colons in address''
              else checked (take i hostport) 0 0))"

definition join_host_port :: "string \<Rightarrow> string \<Rightarrow> string" where
  "join_host_port host port =
     (if colon \<in> set host then lbracket # host @ [rbracket, colon] @ port else host @ colon # port)"

text \<open>What splitting joins is split again, for hosts and ports without brackets.\<close>

lemma bytes_distinct [simp]:
  "colon \<noteq> lbracket" "colon \<noteq> rbracket" "lbracket \<noteq> rbracket"
  "lbracket \<noteq> colon" "rbracket \<noteq> colon" "rbracket \<noteq> lbracket"
  by (simp_all add: colon_def lbracket_def rbracket_def)

lemma split_join:
  assumes "lbracket \<notin> set host" "rbracket \<notin> set host"
    and "colon \<notin> set port" "lbracket \<notin> set port" "rbracket \<notin> set port"
  shows "split_host_port (join_host_port host port) = Inr (host, port)"
proof (cases "colon \<in> set host")
  case True
  let ?s = "lbracket # host @ [rbracket, colon] @ port"
  have "?s = (lbracket # host @ [rbracket]) @ colon # port" by simp
  then have i: "last_index_byte colon ?s = Some (length host + 2)"
    using last_index_append [OF assms(3), of "lbracket # host @ [rbracket]"] by simp
  have e: "index_byte rbracket ?s = Some (length host + 1)"
    using index_byte_here [of rbracket "lbracket # host" "colon # port"] assms(2) by simp
  have "split_host_port ?s = Inr (host, port)"
    using i e assms by (simp add: split_host_port_def Let_def)
  with True show ?thesis by (simp add: join_host_port_def)
next
  case False
  let ?s = "host @ colon # port"
  have i: "last_index_byte colon ?s = Some (length host)" by (rule last_index_append [OF assms(3)])
  have "?s ! 0 \<noteq> lbracket" using assms(1) by (cases host) auto
  with i assms False show ?thesis
    by (simp add: split_host_port_def join_host_port_def Let_def)
qed

text \<open>A successful split never leaves a colon in the port, and the address is rebuilt from its parts.\<close>

lemma split_port:
  assumes "split_host_port s = Inr (host, port)"
  shows "colon \<notin> set port \<and> rbracket \<notin> set port \<and> lbracket \<notin> set port"
proof -
  obtain i where i: "last_index_byte colon s = Some i"
    using assms by (cases "last_index_byte colon s") (auto simp: split_host_port_def)
  note li = last_index_Some [OF i]
  have p: "port = drop (i + 1) s"
    using assms i by (auto simp: split_host_port_def Let_def split: if_splits option.splits)
  have sub: "set port \<subseteq> set (drop k s)" if "k \<le> i + 1" for k
    using set_drop_subset_set_drop [OF that, of s] p by simp
  have "set port \<subseteq> set s" "set port \<subseteq> set (drop (Suc 0) s)" "set port \<subseteq> set (drop i s)"
    using sub [of 0] sub [of 1] sub [of i] by simp_all
  then have "lbracket \<notin> set port \<and> rbracket \<notin> set port"
    using assms i
    by (auto simp: split_host_port_def Let_def split: if_splits option.splits)
  with li p show ?thesis by simp
qed

section \<open>url.URL.Hostname\<close>

text \<open>\<open>validOptionalPort\<close>: empty, or a colon followed by digits.\<close>

definition valid_optional_port :: "string \<Rightarrow> bool" where
  "valid_optional_port port \<longleftrightarrow> port = [] \<or> hd port = colon \<and> list_all is_digit (tl port)"

text \<open>The host of \<open>u.Host\<close> without port and without the brackets of an IPv6 literal.\<close>

definition url_hostname :: "string \<Rightarrow> string" where
  "url_hostname hostport =
     (let host = (case last_index_byte colon hostport of
                    None \<Rightarrow> hostport
                  | Some i \<Rightarrow> if valid_optional_port (drop i hostport) then take i hostport else hostport)
      in if host \<noteq> [] \<and> hd host = lbracket \<and> last host = rbracket
         then butlast (tl host) else host)"

section \<open>http.Header\<close>

text \<open>\<open>textproto.CanonicalMIMEHeaderKey\<close>: names with a byte that is not a token byte stay as they are.\<close>

definition token_byte :: "char \<Rightarrow> bool" where
  "token_byte c \<longleftrightarrow>
     (let n = (of_char c :: nat) in
      is_digit c \<or> 65 \<le> n \<and> n \<le> 90 \<or> 97 \<le> n \<and> n \<le> 122 \<or>
      c \<in> set ''!#$%&*+-.^_|~'' \<or> n = 39 \<or> n = 96)"

definition upper_ascii :: "char \<Rightarrow> char" where
  "upper_ascii c =
     (let n = (of_char c :: nat) in if 97 \<le> n \<and> n \<le> 122 then char_of (n - 32) else c)"

fun canonical_from :: "bool \<Rightarrow> string \<Rightarrow> string" where
  "canonical_from up [] = []"
| "canonical_from up (c # s) =
     (if up then upper_ascii c else lower_ascii c) # canonical_from (c = CHR ''-'') s"

definition canonical_key :: "string \<Rightarrow> string" where
  "canonical_key s = (if list_all token_byte s then canonical_from True s else s)"

text \<open>A header: its keys with their values, in some order, each key at most once.\<close>

type_synonym header = "(string \<times> string list) list"

definition header_ok :: "header \<Rightarrow> bool" where
  "header_ok h \<longleftrightarrow> distinct (map fst h)"

definition header_values :: "string \<Rightarrow> header \<Rightarrow> string list" where
  "header_values key h = (case map_of h (canonical_key key) of None \<Rightarrow> [] | Some vs \<Rightarrow> vs)"

text \<open>\<open>Get\<close>: the first value, or the empty string.\<close>

definition header_get :: "string \<Rightarrow> header \<Rightarrow> string" where
  "header_get key h = (case header_values key h of [] \<Rightarrow> '''' | v # vs \<Rightarrow> v)"

definition header_del :: "string \<Rightarrow> header \<Rightarrow> header" where
  "header_del key h = filter (\<lambda>kv. fst kv \<noteq> canonical_key key) h"

definition header_put :: "string \<Rightarrow> string list \<Rightarrow> header \<Rightarrow> header" where
  "header_put key vs h =
     (if key \<in> set (map fst h) then map (\<lambda>(k, v). (k, if k = key then vs else v)) h
      else h @ [(key, vs)])"

definition header_set :: "string \<Rightarrow> string \<Rightarrow> header \<Rightarrow> header" where
  "header_set key v h = header_put (canonical_key key) [v] h"

definition header_add :: "string \<Rightarrow> string \<Rightarrow> header \<Rightarrow> header" where
  "header_add key v h = header_put (canonical_key key) (header_values key h @ [v]) h"

lemma map_of_put: "map_of (header_put key vs h) = (map_of h)(key \<mapsto> vs)"
proof (cases "key \<in> set (map fst h)")
  case True
  have "map_of (map (\<lambda>(k, v). (k, if k = key then vs else v)) h) x =
      (if x = key \<and> map_of h x \<noteq> None then Some vs else map_of h x)" for x
    by (induction h) auto
  moreover have "map_of h key \<noteq> None" using True by (simp add: map_of_eq_None_iff)
  ultimately show ?thesis using True by (auto simp: header_put_def)
next
  case False
  then have "map_of h key = None" by (simp add: map_of_eq_None_iff)
  with False show ?thesis by (auto simp: header_put_def map_add_def fun_eq_iff split: option.splits)
qed

lemma put_keys: "map fst (header_put key vs h) =
    (if key \<in> set (map fst h) then map fst h else map fst h @ [key])"
  by (simp add: header_put_def comp_def case_prod_unfold)

lemma header_put_ok [inv_intros]: "header_ok h \<Longrightarrow> header_ok (header_put key vs h)"
  by (simp add: header_ok_def put_keys)

lemma header_del_ok [inv_intros]: "header_ok h \<Longrightarrow> header_ok (header_del key h)"
  by (simp add: header_ok_def header_del_def distinct_map_filter)

end
