(* ===== verification/Proxy.thy ===== *)
theory Proxy
  imports GoNet Config
begin

text \<open>
  The HTTP proxy of \<open>internal/app/proxy.go\<close>: the checks on a request, the two failover loops and
  one attempt of each. \<open>net/http\<close> is not under \<open>src/\<close>: what its transport, the network and
  the client answer is the argument \<open>attempt_env\<close> of an attempt, and the response writer is a record
  with the behaviour the package documents (headers are fixed when the status is written). The
  functions return what they did to the lease and to the connections as a trace of actions.
\<close>

section \<open>Requests, responses and the response writer\<close>

record url_view =
  url_scheme :: string
  url_host :: string
  url_user :: "string option"
  url_fragment :: string

record request =
  rq_method :: string
  rq_host :: string
  rq_url :: url_view
  rq_header :: header
  rq_content_length :: int
  rq_request_uri :: string
  rq_close :: bool

record writer =
  w_header :: header
  w_sent :: "(nat \<times> header) option"
  w_body :: string

definition new_writer :: writer where
  "new_writer = \<lparr>w_header = [], w_sent = None, w_body = ''''\<rparr>"

text \<open>
  \<open>WriteHeader\<close> panics on a code that does not have three digits, and sends the codes from 100 to 199
  (but 101) as interim responses, after which the status is still to come. \<open>write_header\<close> is the call
  with a valid code, \<open>checked_write_header\<close> has the panic as \<open>None\<close>.
\<close>

definition invalid_code :: "nat \<Rightarrow> bool" where
  "invalid_code code \<longleftrightarrow> code < 100 \<or> 999 < code"

definition interim_code :: "nat \<Rightarrow> bool" where
  "interim_code code \<longleftrightarrow> 100 \<le> code \<and> code \<le> 199 \<and> code \<noteq> 101"

definition write_header :: "nat \<Rightarrow> writer \<Rightarrow> writer" where
  "write_header code w =
     (if w_sent w = None \<and> \<not> interim_code code then w\<lparr>w_sent := Some (code, w_header w)\<rparr> else w)"

definition checked_write_header :: "nat \<Rightarrow> writer \<Rightarrow> writer option" where
  "checked_write_header code w =
     (if w_sent w = None \<and> invalid_code code then None else Some (write_header code w))"

definition write_body :: "string \<Rightarrow> writer \<Rightarrow> writer" where
  "write_body s w = (let w = write_header 200 w in w\<lparr>w_body := w_body w @ s\<rparr>)"

definition put_header :: "(header \<Rightarrow> header) \<Rightarrow> writer \<Rightarrow> writer" where
  "put_header f w = w\<lparr>w_header := f (w_header w)\<rparr>"

text \<open>\<open>http.Error\<close>\<close>

definition http_error :: "string \<Rightarrow> nat \<Rightarrow> writer \<Rightarrow> writer" where
  "http_error msg code w =
     (let w = put_header (header_del ''Content-Length'') w;
          w = put_header (header_set ''Content-Type'' ''text/plain; charset=utf-8'') w;
          w = put_header (header_set ''X-Content-Type-Options'' ''nosniff'') w;
          w = write_header code w
      in write_body (msg @ [char_of (10::nat)]) w)"

section \<open>Hop-by-hop headers\<close>

definition hop_names :: "string list" where
  "hop_names = [''Connection'', ''Proxy-Connection'', ''Keep-Alive'', ''Proxy-Authenticate'',
     ''Proxy-Authorization'', ''Te'', ''Trailer'', ''Transfer-Encoding'', ''Upgrade'']"

definition connection_names :: "header \<Rightarrow> string list" where
  "connection_names h =
     concat (map (\<lambda>c. map trim_space (split_on (CHR '','') c)) (header_values ''Connection'' h))"

definition remove_hop_headers :: "header \<Rightarrow> header" where
  "remove_hop_headers h = fold header_del hop_names (fold header_del (connection_names h) h)"

section \<open>The checks on a request\<close>

text \<open>The white space and the separators no CONNECT host may contain.\<close>

definition bad_host_bytes :: string where
  "bad_host_bytes = map char_of [47, 92, 64, 32, 9, 13, 10::nat]"

definition validate_connect :: "string \<Rightarrow> string option" where
  "validate_connect address =
     (case split_host_port address of
        Inl e \<Rightarrow> Some ''CONNECT requires host:port''
      | Inr (host, port) \<Rightarrow>
          if host = '''' then Some ''CONNECT requires host:port''
          else (case atoi port of (n, err) \<Rightarrow>
            if err \<noteq> None \<or> n < 1 \<or> n > 65535 then Some ''invalid CONNECT port''
            else if has_suffix (to_lower host) ''.onion'' then Some ''onion destinations are not supported''
            else if contains_any host bad_host_bytes then Some ''invalid CONNECT host''
            else None))"

datatype route = Rejected string nat | Forward | Connect

text \<open>\<open>ServeHTTP\<close> up to the choice of the loop.\<close>

definition check_request :: "request \<Rightarrow> route" where
  "check_request r =
     (let u = rq_url r; host = url_hostname (url_host u);
          first = (if rq_method r = ''CONNECT''
                   then (case validate_connect (rq_host r) of Some e \<Rightarrow> Some (Rejected e 400) | None \<Rightarrow> None)
                   else if url_scheme u \<noteq> ''http'' \<or> host = '''' \<or> url_user u \<noteq> None \<or> url_fragment u \<noteq> ''''
                   then Some (Rejected ''Use an absolute http:// URL, or CONNECT for HTTPS.'' 400)
                   else None)
      in case first of Some x \<Rightarrow> x
         | None \<Rightarrow>
             if has_suffix (to_lower host) ''.onion''
             then Rejected ''Onion destinations do not have a public exit IP and are not supported.'' 400
             else if header_get ''Upgrade'' (rq_header r) \<noteq> ''''
             then Rejected ''HTTP protocol upgrades are not supported; use CONNECT for HTTPS.'' 501
             else if rq_method r = ''CONNECT'' then Connect else Forward)"

section \<open>Errors the client sees\<close>

definition status_text :: "nat \<Rightarrow> string" where
  "status_text code = (if code = 502 then ''Bad Gateway'' else if code = 504 then ''Gateway Timeout'' else '''')"

definition error_code :: "gerr \<Rightarrow> nat" where
  "error_code e = (if errors_is e Ctx_DeadlineExceeded \<or> net_timeout e then 504 else 502)"

definition proxy_error :: "gerr \<Rightarrow> writer \<Rightarrow> writer" where
  "proxy_error e w = http_error
     (status_text (error_code e) @ '': Tor could not complete the upstream connection.'') (error_code e) w"

definition no_ready_text :: string where
  "no_ready_text = ''No eligible verified IP is ready. Try again later.''"

definition acquire_error :: "gerr \<Rightarrow> gerr option \<Rightarrow> writer \<Rightarrow> writer" where
  "acquire_error e prev w =
     (if \<not> errors_is e Err_NoReady then http_error ''IP reservation could not be persisted.'' 503 w
      else (case prev of
              Some x \<Rightarrow> proxy_error x w
            | None \<Rightarrow> http_error no_ready_text 503 (put_header (header_set ''Retry-After'' ''10'') w)))"

section \<open>One forwarded attempt\<close>

text \<open>
  One piece of the response body as \<open>io.CopyBuffer\<close> moves it: the bytes, the error of the
  write and the error of the flush.
\<close>

record piece =
  pc_bytes :: string
  pc_write :: "gerr option"
  pc_flush :: "gerr option"

record response =
  rs_status :: nat
  rs_header :: header
  rs_trailer :: header
  rs_pieces :: "piece list"
  rs_read_err :: "gerr option"

text \<open>
  One \<open>RoundTrip\<close>: the results of the dials the transport made through the lease, and its own
  result.
\<close>

record round_trip =
  rt_dials :: "gerr option list"
  rt_result :: "gerr + response"

definition flush_write :: "piece \<Rightarrow> writer \<Rightarrow> gerr option \<times> writer" where
  "flush_write x w =
     (case pc_write x of Some e \<Rightarrow> (Some e, w) | None \<Rightarrow> (pc_flush x, write_body (pc_bytes x) w))"

fun copy_body :: "piece list \<Rightarrow> gerr option \<Rightarrow> writer \<Rightarrow> gerr option \<times> writer" where
  "copy_body [] read_err w = (read_err, w)"
| "copy_body (x # xs) read_err w =
     (case flush_write x w of (Some e, w') \<Rightarrow> (Some e, w') | (None, w') \<Rightarrow> copy_body xs read_err w')"

definition out_request :: "request \<Rightarrow> request" where
  "out_request r = r\<lparr>rq_request_uri := '''', rq_header := remove_hop_headers (rq_header r), rq_close := True\<rparr>"

definition copy_headers :: "header \<Rightarrow> writer \<Rightarrow> writer" where
  "copy_headers h w = fold (\<lambda>(key, values). fold (\<lambda>v. put_header (header_add key v)) values) h w"

definition announce_trailers :: "header \<Rightarrow> writer \<Rightarrow> writer" where
  "announce_trailers trailer w = fold (\<lambda>(key, _). put_header (header_add ''Trailer'' key)) trailer w"

definition send_trailers :: "header \<Rightarrow> writer \<Rightarrow> writer" where
  "send_trailers trailer w = fold (\<lambda>(key, values). put_header (header_put key values)) trailer w"

definition rt_dialed :: "round_trip \<Rightarrow> bool" where
  "rt_dialed trip \<longleftrightarrow> list_ex (\<lambda>d. d = None) (rt_dials trip)"

text \<open>
  \<open>forwardAttempt\<close>: responded, dialed, the error. It has no such result when \<open>WriteHeader\<close>
  panics: \<open>http.ReadResponse\<close> accepts every status of three digits, \<open>099\<close> too.
\<close>

definition forward_attempt :: "round_trip \<Rightarrow> writer \<Rightarrow> (bool \<times> bool \<times> gerr option) option \<times> writer" where
  "forward_attempt trip w =
     (case rt_result trip of
        Inl e \<Rightarrow> (Some (False, rt_dialed trip, Some e), w)
      | Inr resp \<Rightarrow>
          let w = copy_headers (remove_hop_headers (rs_header resp)) w;
              w = announce_trailers (rs_trailer resp) w
          in (case checked_write_header (rs_status resp) w of
                None \<Rightarrow> (None, w)
              | Some w \<Rightarrow>
                  (case copy_body (rs_pieces resp) (rs_read_err resp) w of
                     (Some e, w) \<Rightarrow> (Some (True, rt_dialed trip, Some e), w)
                   | (None, w) \<Rightarrow> (Some (True, rt_dialed trip, None), send_trailers (rs_trailer resp) w))))"

section \<open>The failover loop of a forwarded request\<close>

text \<open>What a handler does to leases and connections.\<close>

datatype action =
    Act_Acquire nat
  | Act_Send nat request
  | Act_Dial nat bool
  | Act_Finish nat "gerr option"
  | Act_Hijack
  | Act_Clear_Deadline
  | Act_Established
  | Act_Close_Client
  | Act_Close_Upstream

record attempt_env =
  ae_gone :: bool               \<comment> \<open>\<open>r.Context().Err() != nil\<close> at the head of the loop\<close>
  ae_acquire :: "gerr + nat"    \<comment> \<open>what \<open>Pool.Acquire\<close> returns\<close>
  ae_trip :: round_trip

definition has_body :: "request \<Rightarrow> bool" where
  "has_body r \<longleftrightarrow> rq_content_length r \<noteq> 0"

definition attempt_begun :: "request \<Rightarrow> nat \<Rightarrow> round_trip \<Rightarrow> action list" where
  "attempt_begun r l trip =
     Act_Acquire l # Act_Send l (out_request r) # map (\<lambda>d. Act_Dial l (d = None)) (rt_dials trip)"

definition attempt_actions :: "request \<Rightarrow> nat \<Rightarrow> round_trip \<Rightarrow> gerr option \<Rightarrow> action list" where
  "attempt_actions r l trip err = attempt_begun r l trip @ [Act_Finish l err]"

text \<open>The end of the loop without a response.\<close>

definition exhausted :: "gerr option \<Rightarrow> writer \<Rightarrow> writer" where
  "exhausted prev w = (case prev of None \<Rightarrow> http_error no_ready_text 503 w | Some e \<Rightarrow> proxy_error e w)"

text \<open>
  How a handler ends: it returns, it aborts the connection with \<open>panic(http.ErrAbortHandler)\<close>, or
  the panic of \<open>WriteHeader\<close> passes through it; \<open>net/http\<close> recovers both panics and closes
  the connection.
\<close>

datatype outcome = H_Returned | H_Aborted | H_Panicked

text \<open>
  The attempts that are left. \<open>lease.Finish\<close> is the statement after \<open>forwardAttempt\<close>, not
  deferred: a panic in the attempt skips it.
\<close>

fun forward_loop ::
  "request \<Rightarrow> attempt_env list \<Rightarrow> gerr option \<Rightarrow> writer \<Rightarrow> action list \<times> writer \<times> outcome" where
  "forward_loop r [] prev w = ([], exhausted prev w, H_Returned)"
| "forward_loop r (env # rest) prev w =
     (if prev \<noteq> None \<and> ae_gone env then ([], w, H_Returned)
      else (case ae_acquire env of
              Inl e \<Rightarrow> ([], acquire_error e prev w, H_Returned)
            | Inr l \<Rightarrow>
                (case forward_attempt (ae_trip env) w of
                   (None, w) \<Rightarrow> (attempt_begun r l (ae_trip env), w, H_Panicked)
                 | (Some (responded, dialed, err), w) \<Rightarrow>
                     (let acts = attempt_actions r l (ae_trip env) err
                      in case err of
                           None \<Rightarrow> (acts, w, H_Returned)
                         | Some e \<Rightarrow>
                             if responded then (acts, w, H_Aborted)
                             else if has_body r \<and> dialed then (acts, proxy_error e w, H_Returned)
                             else (case forward_loop r rest (Some e) w of
                                     (later, result) \<Rightarrow> (acts @ later, result))))))"

definition serve_forward :: "nat \<Rightarrow> (nat \<Rightarrow> attempt_env) \<Rightarrow> request \<Rightarrow> writer \<Rightarrow> action list \<times> writer \<times> outcome" where
  "serve_forward psize env r w = forward_loop r (map env [0..<psize]) None w"

section \<open>CONNECT tunnels\<close>

text \<open>
  \<open>relayTunnel\<close>: the direction that ends first decides the result; both ends are then closed,
  which ends the other direction.
\<close>

definition relay_tunnel :: "bool \<Rightarrow> gerr option \<Rightarrow> gerr option \<Rightarrow> gerr option \<times> action list" where
  "relay_tunnel up_first up_err down_err =
     ((if up_first then up_err else down_err), [Act_Close_Client, Act_Close_Upstream])"

record connect_env =
  ce_gone :: bool
  ce_acquire :: "gerr + nat"
  ce_dial :: "gerr option"
  ce_hijacker :: bool
  ce_hijack :: "gerr option"
  ce_write :: "gerr option"
  ce_up_first :: bool
  ce_up :: "gerr option"
  ce_down :: "gerr option"

text \<open>\<open>connectAttempt\<close>, with its deferred closes at the end.\<close>

definition connect_attempt :: "connect_env \<Rightarrow> nat \<Rightarrow> writer \<Rightarrow> (bool \<times> gerr option) \<times> action list \<times> writer" where
  "connect_attempt env l w =
     (case ce_dial env of
        Some e \<Rightarrow> ((False, Some e), [Act_Dial l False], w)
      | None \<Rightarrow>
          if \<not> ce_hijacker env
          then ((True, Some (Err_Text ''hijacking unavailable'')), [Act_Dial l True, Act_Close_Upstream],
                http_error ''CONNECT requires HTTP/1.1'' 505 w)
          else (case ce_hijack env of
                  Some e \<Rightarrow> ((True, Some e), [Act_Dial l True, Act_Close_Upstream], w)
                | None \<Rightarrow>
                    (case ce_write env of
                       Some e \<Rightarrow> ((True, Some e),
                         [Act_Dial l True, Act_Hijack, Act_Clear_Deadline, Act_Close_Client,
                          Act_Close_Upstream], w)
                     | None \<Rightarrow>
                         (case relay_tunnel (ce_up_first env) (ce_up env) (ce_down env) of
                            (err, closes) \<Rightarrow> ((True, err),
                              [Act_Dial l True, Act_Hijack, Act_Clear_Deadline, Act_Established] @ closes @
                              [Act_Close_Client, Act_Close_Upstream], w)))))"

fun connect_loop ::
  "connect_env list \<Rightarrow> gerr option \<Rightarrow> writer \<Rightarrow> action list \<times> writer" where
  "connect_loop [] prev w = ([], exhausted prev w)"
| "connect_loop (env # rest) prev w =
     (if prev \<noteq> None \<and> ce_gone env then ([], w)
      else (case ce_acquire env of
              Inl e \<Rightarrow> ([], acquire_error e prev w)
            | Inr l \<Rightarrow>
                (case connect_attempt env l w of
                   ((tunneled, err), acts, w) \<Rightarrow>
                     (let acts = Act_Acquire l # acts @ [Act_Finish l err]
                      in if tunneled then (acts, w)
                         else (case connect_loop rest err w of (later, w) \<Rightarrow> (acts @ later, w))))))"

definition serve_connect :: "nat \<Rightarrow> (nat \<Rightarrow> connect_env) \<Rightarrow> writer \<Rightarrow> action list \<times> writer" where
  "serve_connect psize env w = connect_loop (map env [0..<psize]) None w"

section \<open>ServeHTTP\<close>

definition serve_http ::
  "nat \<Rightarrow> (nat \<Rightarrow> attempt_env) \<Rightarrow> (nat \<Rightarrow> connect_env) \<Rightarrow> request \<Rightarrow> writer \<Rightarrow> action list \<times> writer \<times> outcome" where
  "serve_http psize fenv cenv r w =
     (case check_request r of
        Rejected msg code \<Rightarrow> ([], http_error msg code w, H_Returned)
      | Connect \<Rightarrow> (case serve_connect psize cenv w of (acts, w) \<Rightarrow> (acts, w, H_Returned))
      | Forward \<Rightarrow> serve_forward psize fenv r w)"

end
