(* ===== verification/ProxyInv.thy ===== *)
theory ProxyInv
  imports Proxy
begin

text \<open>Facts about the proxy's helpers and about the traces of the two failover loops.\<close>

section \<open>Removing hop-by-hop headers\<close>

lemma fold_header_del:
  "fold header_del names h = filter (\<lambda>kv. fst kv \<notin> canonical_key ` set names) h"
proof (induction names arbitrary: h)
  case (Cons n names)
  then show ?case by (auto simp: header_del_def intro: filter_cong)
qed simp

lemma hop_names_canonical: "canonical_key ` set hop_names = set hop_names"
proof -
  have "list_all (\<lambda>n. canonical_key n = n) hop_names" by code_simp
  then have "\<forall>n \<in> set hop_names. canonical_key n = n" by (simp add: list_all_iff)
  then show ?thesis by (simp add: image_cong)
qed

lemma remove_hop_filter:
  "remove_hop_headers h =
     filter (\<lambda>kv. fst kv \<notin> set hop_names \<and> fst kv \<notin> canonical_key ` set (connection_names h)) h"
  by (auto simp: remove_hop_headers_def fold_header_del hop_names_canonical intro: filter_cong)

section \<open>The response writer\<close>

lemma sent_put_header [simp]: "w_sent (put_header f w) = w_sent w" "w_body (put_header f w) = w_body w"
  by (simp_all add: put_header_def)

lemma sent_write_body: "w_sent w \<noteq> None \<Longrightarrow> w_sent (write_body s w) = w_sent w"
  by (simp add: write_body_def write_header_def)

lemma http_error_sent: "w_sent w = None \<Longrightarrow> \<not> interim_code code \<Longrightarrow> \<exists>h. w_sent (http_error msg code w) = Some (code, h)"
  by (simp add: http_error_def Let_def sent_write_body write_header_def)

lemma fold_put_sent:
  "(\<And>x w. x \<in> set xs \<Longrightarrow> w_sent (f x w) = w_sent w) \<Longrightarrow> w_sent (fold f xs w) = w_sent w"
  by (induction xs arbitrary: w) auto

lemma copy_headers_sent [simp]: "w_sent (copy_headers h w) = w_sent w"
  unfolding copy_headers_def by (rule fold_put_sent) (auto intro: fold_put_sent)

lemma announce_sent [simp]: "w_sent (announce_trailers h w) = w_sent w"
  unfolding announce_trailers_def by (rule fold_put_sent) auto

lemma trailers_sent [simp]: "w_sent (send_trailers h w) = w_sent w"
  unfolding send_trailers_def by (rule fold_put_sent) auto

lemma copy_body_sent:
  "w_sent w \<noteq> None \<Longrightarrow> copy_body xs re w = (e, w') \<Longrightarrow> w_sent w' = w_sent w"
proof (induction xs re w rule: copy_body.induct)
  case (2 x xs re w)
  show ?case
  proof (cases "pc_write x")
    case (Some e)
    with "2.prems" show ?thesis by (simp add: flush_write_def)
  next
    case None
    show ?thesis
    proof (cases "pc_flush x")
      case flush: (Some e)
      with None "2.prems" show ?thesis by (auto simp: flush_write_def sent_write_body)
    next
      case flush: None
      let ?w = "write_body (pc_bytes x) w"
      have s: "w_sent ?w = w_sent w" by (rule sent_write_body [OF "2.prems"(1)])
      have f: "flush_write x w = (None, ?w)" using None flush by (simp add: flush_write_def)
      with "2.prems"(2) have "copy_body xs re ?w = (e, w')" by simp
      with "2.IH" [OF f [symmetric]] f s "2.prems"(1) show ?thesis by simp
    qed
  qed
qed simp

lemma attempt_failed:
  assumes "forward_attempt trip w = (Some (responded, dialed, err), w')"
  shows "\<not> responded \<longleftrightarrow> (\<exists>e. rt_result trip = Inl e)" and "dialed = rt_dialed trip"
    and "\<not> responded \<Longrightarrow> w' = w" and "\<not> responded \<Longrightarrow> rt_result trip = Inl (the err) \<and> err \<noteq> None"
  using assms
  by (auto simp: forward_attempt_def Let_def split: sum.splits prod.splits option.splits)

text \<open>The attempts that end in the panic of \<open>WriteHeader\<close>.\<close>

lemma attempt_panics:
  assumes "forward_attempt trip w = (None, w')"
  shows "\<exists>resp. rt_result trip = Inr resp \<and> invalid_code (rs_status resp)" and "w_sent w' = w_sent w"
  using assms
  by (auto simp: forward_attempt_def Let_def checked_write_header_def
      split: sum.splits prod.splits option.splits if_splits)

lemma attempt_responded:
  assumes "forward_attempt trip w = (Some (True, dialed, err), w')" and "w_sent w = None"
  shows "\<exists>resp. rt_result trip = Inr resp \<and> \<not> invalid_code (rs_status resp) \<and>
    (\<not> interim_code (rs_status resp) \<longrightarrow> (\<exists>h. w_sent w' = Some (rs_status resp, h)))"
proof -
  obtain resp where resp: "rt_result trip = Inr resp"
    using assms(1) by (cases "rt_result trip") (auto simp: forward_attempt_def)
  let ?w0 = "announce_trailers (rs_trailer resp) (copy_headers (remove_hop_headers (rs_header resp)) w)"
  let ?w1 = "write_header (rs_status resp) ?w0"
  have valid: "\<not> invalid_code (rs_status resp)"
    using assms resp by (auto simp: forward_attempt_def Let_def checked_write_header_def)
  obtain e w2 where c: "copy_body (rs_pieces resp) (rs_read_err resp) ?w1 = (e, w2)" by (metis surj_pair)
  have w': "w_sent w' = w_sent w2"
    using assms(1) resp c valid by (auto simp: forward_attempt_def Let_def checked_write_header_def split: option.splits)
  have "\<exists>h. w_sent w' = Some (rs_status resp, h)" if "\<not> interim_code (rs_status resp)"
  proof -
    have h: "w_sent ?w1 = Some (rs_status resp, w_header ?w0)"
      using assms(2) that by (simp add: write_header_def)
    with copy_body_sent [OF _ c] w' show ?thesis by simp
  qed
  with resp valid show ?thesis by blast
qed

section \<open>Traces\<close>

text \<open>
  The lease a handler holds, followed along its trace: it takes one at a time, uses only the one it
  holds, and gives back what it took. The result is the lease held at the end, \<open>None\<close> when the
  trace breaks this discipline.
\<close>

fun lease_end :: "nat option \<Rightarrow> action list \<Rightarrow> nat option option" where
  "lease_end held [] = Some held"
| "lease_end held (Act_Acquire l # as) = (if held = None then lease_end (Some l) as else None)"
| "lease_end held (Act_Send l r # as) = (if held = Some l then lease_end held as else None)"
| "lease_end held (Act_Dial l b # as) = (if held = Some l then lease_end held as else None)"
| "lease_end held (Act_Finish l e # as) = (if held = Some l then lease_end None as else None)"
| "lease_end held (a # as) = lease_end held as"

fun is_acquire :: "action \<Rightarrow> bool" where
  "is_acquire (Act_Acquire l) \<longleftrightarrow> True"
| "is_acquire _ \<longleftrightarrow> False"

lemma lease_end_append:
  "lease_end held (as @ bs) = (case lease_end held as of None \<Rightarrow> None | Some now \<Rightarrow> lease_end now bs)"
  by (induction held as rule: lease_end.induct) auto

lemma lease_end_dials:
  "lease_end (Some l) (map (\<lambda>d. Act_Dial l (f d)) ds @ as) = lease_end (Some l) as"
  by (induction ds) auto

lemma begun_trace: "lease_end None (attempt_begun r l trip) = Some (Some l)"
  using lease_end_dials [of l "\<lambda>d. d = None" "rt_dials trip" "[]"] by (simp add: attempt_begun_def)

lemma attempt_trace: "lease_end None (attempt_actions r l trip err) = Some None"
  by (simp add: attempt_actions_def lease_end_append begun_trace)

lemma begun_acquires: "length (filter is_acquire (attempt_begun r l trip)) = 1"
proof -
  have "filter is_acquire (map (\<lambda>d. Act_Dial l (d = None)) ds) = []" for ds
    by (induction ds) auto
  then show ?thesis by (simp add: attempt_begun_def)
qed

lemma attempt_acquires: "length (filter is_acquire (attempt_actions r l trip err)) = 1"
  using begun_acquires [of r l trip] by (simp add: attempt_actions_def)

text \<open>One step of the loop, by what happens in it.\<close>

lemma forward_step:
  assumes "forward_loop r (env # rest) prev w = (acts, w', out)"
  obtains (gone) "prev \<noteq> None" "ae_gone env" "acts = []" "w' = w" "out = H_Returned"
    | (refused) e where "ae_acquire env = Inl e" "acts = []" "w' = acquire_error e prev w" "out = H_Returned"
    | (panicked) l where "ae_acquire env = Inr l" "forward_attempt (ae_trip env) w = (None, w')"
        "acts = attempt_begun r l (ae_trip env)" "out = H_Panicked"
    | (served) l w1 d where "ae_acquire env = Inr l" "forward_attempt (ae_trip env) w = (Some (True, d, None), w1)"
        "acts = attempt_actions r l (ae_trip env) None" "w' = w1" "out = H_Returned"
    | (aborted) l w1 d e where "ae_acquire env = Inr l"
        "forward_attempt (ae_trip env) w = (Some (True, d, Some e), w1)"
        "acts = attempt_actions r l (ae_trip env) (Some e)" "w' = w1" "out = H_Aborted"
    | (stopped) l e where "ae_acquire env = Inr l" "rt_result (ae_trip env) = Inl e" "has_body r"
        "rt_dialed (ae_trip env)" "acts = attempt_actions r l (ae_trip env) (Some e)"
        "w' = proxy_error e w" "out = H_Returned"
    | (failed) l e acts1 where "ae_acquire env = Inr l" "rt_result (ae_trip env) = Inl e"
        "\<not> (has_body r \<and> rt_dialed (ae_trip env))"
        "forward_loop r rest (Some e) w = (acts1, w', out)"
        "acts = attempt_actions r l (ae_trip env) (Some e) @ acts1"
proof (cases "(prev \<noteq> None \<and> ae_gone env) \<or> (\<exists>e. ae_acquire env = Inl e)")
  case True
  with assms gone refused show thesis by (auto split: if_splits)
next
  case False
  then have alive: "\<not> (prev \<noteq> None \<and> ae_gone env)" by blast
  from False obtain l where acq: "ae_acquire env = Inr l" by (cases "ae_acquire env") auto
  obtain res w1 where f0: "forward_attempt (ae_trip env) w = (res, w1)" by (metis surj_pair)
  show thesis
  proof (cases res)
    case None
    with f0 assms alive acq show thesis by (intro panicked [of l]) auto
  next
    case (Some triple)
    then obtain responded d err where f: "forward_attempt (ae_trip env) w = (Some (responded, d, err), w1)"
      using f0 by (cases triple) auto
    note fa = attempt_failed [OF f]
    consider (ok) "err = None" | (broken) e where "err = Some e" "responded" | (none) e where "err = Some e" "\<not> responded"
      by (cases err) auto
    then show thesis
    proof cases
      case ok
      with fa(4) have "responded" by blast
      with ok assms alive acq f show thesis by (intro served [of l d w1]) (auto simp: Let_def)
    next
      case (broken e)
      with assms alive acq f show thesis by (intro aborted [of l d e w1]) (auto simp: Let_def)
    next
      case (none e)
      then have e: "rt_result (ae_trip env) = Inl e" and w: "w1 = w" and d: "d = rt_dialed (ae_trip env)"
        using fa by auto
      show thesis
      proof (cases "has_body r \<and> rt_dialed (ae_trip env)")
        case True
        with none assms alive acq f e w d show thesis by (intro stopped) (auto simp: Let_def)
      next
        case stop: False
        obtain acts1 w2 out1 where l: "forward_loop r rest (Some e) w = (acts1, w2, out1)"
          by (metis surj_pair)
        with none assms alive acq f e w d stop show thesis
          by (intro failed [of l e acts1]) (auto simp: Let_def)
      qed
    qed
  qed
qed

text \<open>Induction over the loop with these cases.\<close>

lemma forward_trace:
  "forward_loop r envs prev w = (acts, w', out) \<Longrightarrow> \<exists>held. lease_end None acts = Some held \<and> (held \<noteq> None \<longleftrightarrow> out = H_Panicked)"
proof (induction envs arbitrary: prev w acts)
  case (Cons env rest)
  from Cons.prems show ?case
  proof (cases rule: forward_step)
    case (failed l e acts1)
    then show ?thesis using Cons.IH [OF failed(4)] by (auto simp: lease_end_append attempt_trace)
  qed (simp_all add: attempt_trace begun_trace)
qed simp

lemma forward_acquires:
  "forward_loop r envs prev w = (acts, w', out) \<Longrightarrow> length (filter is_acquire acts) \<le> length envs"
proof (induction envs arbitrary: prev w acts)
  case (Cons env rest)
  from Cons.prems show ?case
  proof (cases rule: forward_step)
    case (failed l e acts1)
    then show ?thesis using Cons.IH attempt_acquires by fastforce
  qed (simp_all add: attempt_acquires begun_acquires)
qed simp

lemma forward_panics:
  "forward_loop r envs prev w = (acts, w', H_Panicked) \<Longrightarrow>
     \<exists>env \<in> set envs. \<exists>resp. rt_result (ae_trip env) = Inr resp \<and> invalid_code (rs_status resp)"
proof (induction envs arbitrary: prev w acts)
  case (Cons env rest)
  from Cons.prems show ?case
  proof (cases rule: forward_step)
    case (panicked l)
    with attempt_panics(1) [OF panicked(2)] show ?thesis by auto
  next
    case (failed l e acts1)
    from Cons.IH [OF failed(4)] show ?thesis by auto
  qed simp_all
qed simp

section \<open>Traces of tunnels\<close>

lemma connect_attempt_trace:
  "connect_attempt env l w = ((t, err), acts, w') \<Longrightarrow> lease_end (Some l) (acts @ Act_Finish l err # as)
     = lease_end None as"
  by (auto simp: connect_attempt_def relay_tunnel_def split: option.splits if_splits)

lemma connect_attempt_acquires:
  "connect_attempt env l w = ((t, err), acts, w') \<Longrightarrow> filter is_acquire acts = []"
  by (auto simp: connect_attempt_def relay_tunnel_def split: option.splits if_splits)

lemma connect_step:
  assumes "connect_loop (env # rest) prev w = (acts, w')"
  obtains (gone) "prev \<noteq> None" "ce_gone env" "acts = []" "w' = w"
    | (refused) e where "ce_acquire env = Inl e" "acts = []" "w' = acquire_error e prev w"
    | (tunnel) l err acts1 where "ce_acquire env = Inr l" "connect_attempt env l w = ((True, err), acts1, w')"
        "acts = Act_Acquire l # acts1 @ [Act_Finish l err]"
    | (failed) l e acts2 where "ce_acquire env = Inr l" "ce_dial env = Some e"
        "connect_loop rest (Some e) w = (acts2, w')"
        "acts = [Act_Acquire l, Act_Dial l False, Act_Finish l (Some e)] @ acts2"
proof (cases "prev \<noteq> None \<and> ce_gone env")
  case True
  with assms gone show thesis by simp
next
  case alive: False
  show thesis
  proof (cases "ce_acquire env")
    case (Inl e)
    with assms alive show thesis by (intro refused) (auto split: if_splits)
  next
    case acq: (Inr l)
    obtain t err acts1 w1 where c: "connect_attempt env l w = ((t, err), acts1, w1)" by (metis surj_pair)
    show thesis
    proof (cases t)
      case True
      with assms alive acq c show thesis by (intro tunnel) (auto simp: Let_def)
    next
      case False
      then obtain e where e: "ce_dial env = Some e" "err = Some e" "acts1 = [Act_Dial l False]" "w1 = w"
        using c by (auto simp: connect_attempt_def split: option.splits if_splits prod.splits)
      obtain acts2 w2 where r: "connect_loop rest (Some e) w = (acts2, w2)" by (metis surj_pair)
      with assms alive acq c False e show thesis by (intro failed) (auto simp: Let_def)
    qed
  qed
qed

lemma connect_trace: "connect_loop envs prev w = (acts, w') \<Longrightarrow> lease_end None acts = Some None"
proof (induction envs arbitrary: prev w acts)
  case (Cons env rest)
  from Cons.prems show ?case
  proof (cases rule: connect_step)
    case (tunnel l err acts1)
    then show ?thesis by (simp add: connect_attempt_trace)
  next
    case (failed l e acts2)
    then show ?thesis using Cons.IH by simp
  qed simp_all
qed simp

lemma connect_acquires:
  "connect_loop envs prev w = (acts, w') \<Longrightarrow> length (filter is_acquire acts) \<le> length envs"
proof (induction envs arbitrary: prev w acts)
  case (Cons env rest)
  from Cons.prems show ?case
  proof (cases rule: connect_step)
    case (tunnel l err acts1)
    then show ?thesis by (simp add: connect_attempt_acquires)
  next
    case (failed l e acts2)
    then show ?thesis using Cons.IH by simp
  qed simp_all
qed simp

lemma serve_trace:
  assumes "serve_http n fenv cenv r w = (acts, w', out)"
  shows "length (filter is_acquire acts) \<le> n"
    and "\<exists>held. lease_end None acts = Some held \<and> (held \<noteq> None \<longleftrightarrow> out = H_Panicked)"
    and "out = H_Panicked \<Longrightarrow> \<exists>k < n. \<exists>resp. rt_result (ae_trip (fenv k)) = Inr resp \<and> invalid_code (rs_status resp)"
proof -
  have "length (filter is_acquire acts) \<le> n \<and>
    (\<exists>held. lease_end None acts = Some held \<and> (held \<noteq> None \<longleftrightarrow> out = H_Panicked)) \<and>
    (out = H_Panicked \<longrightarrow> (\<exists>k < n. \<exists>resp. rt_result (ae_trip (fenv k)) = Inr resp \<and> invalid_code (rs_status resp)))"
  proof (cases "check_request r")
    case (Rejected msg code)
    with assms show ?thesis by (auto simp: serve_http_def)
  next
    case Forward
    with assms have f: "forward_loop r (map fenv [0..<n]) None w = (acts, w', out)"
      by (simp add: serve_http_def serve_forward_def)
    have "\<exists>k < n. \<exists>resp. rt_result (ae_trip (fenv k)) = Inr resp \<and> invalid_code (rs_status resp)"
      if "out = H_Panicked"
      using forward_panics [OF f [unfolded that]] by auto
    with forward_trace [OF f] forward_acquires [OF f] show ?thesis by simp
  next
    case Connect
    with assms have c: "connect_loop (map cenv [0..<n]) None w = (acts, w')" and o: "out = H_Returned"
      by (auto simp: serve_http_def serve_connect_def split: prod.splits)
    show ?thesis using connect_trace [OF c] connect_acquires [OF c] o by simp
  qed
  then show "length (filter is_acquire acts) \<le> n"
    and "\<exists>held. lease_end None acts = Some held \<and> (held \<noteq> None \<longleftrightarrow> out = H_Panicked)"
    and "out = H_Panicked \<Longrightarrow> \<exists>k < n. \<exists>resp. rt_result (ae_trip (fenv k)) = Inr resp \<and> invalid_code (rs_status resp)"
    by blast+
qed

end
