(* ===== verification/Leases.thy ===== *)
theory Leases
  imports ProxyInv AcquireInv
begin

text \<open>
  The interface between the proxy and the pool: a handler takes leases and gives them back, and other
  goroutines run in between. The locale states what the proxy relies on; its client lemma is
  that a handler leaks no lease but the one \<open>lease_end\<close> leaves held at the end of its trace. The pool is an instance.
\<close>

section \<open>A trace played against a provider of leases\<close>

fun lease_act :: "action \<Rightarrow> bool" where
  "lease_act (Act_Acquire l) \<longleftrightarrow> True"
| "lease_act (Act_Finish l e) \<longleftrightarrow> True"
| "lease_act _ \<longleftrightarrow> False"

inductive plays ::
  "('s \<Rightarrow> 's \<Rightarrow> bool) \<Rightarrow> (nat \<Rightarrow> 's \<Rightarrow> 's \<Rightarrow> bool) \<Rightarrow> (nat \<Rightarrow> gerr option \<Rightarrow> gotime \<Rightarrow> 's \<Rightarrow> 's option) \<Rightarrow>
   action list \<Rightarrow> 's \<Rightarrow> 's \<Rightarrow> bool"
  for other get give where
  plays_end: "plays other get give [] s s"
| plays_other: "other s s1 \<Longrightarrow> plays other get give as s1 s2 \<Longrightarrow> plays other get give as s s2"
| plays_acquire: "get l s s1 \<Longrightarrow> plays other get give as s1 s2 \<Longrightarrow>
    plays other get give (Act_Acquire l # as) s s2"
| plays_finish: "give l e now s = Some s1 \<Longrightarrow> plays other get give as s1 s2 \<Longrightarrow>
    plays other get give (Act_Finish l e # as) s s2"
| plays_silent: "\<not> lease_act a \<Longrightarrow> plays other get give as s s2 \<Longrightarrow> plays other get give (a # as) s s2"

section \<open>The contract\<close>

locale lease_provider =
  fixes other :: "'s \<Rightarrow> 's \<Rightarrow> bool"
    and get :: "nat \<Rightarrow> 's \<Rightarrow> 's \<Rightarrow> bool"
    and give :: "nat \<Rightarrow> gerr option \<Rightarrow> gotime \<Rightarrow> 's \<Rightarrow> 's option"
    and good :: "'s \<Rightarrow> bool"
    and live :: "nat \<Rightarrow> 's \<Rightarrow> bool"
    and over :: "nat \<Rightarrow> 's \<Rightarrow> bool"
  assumes other_good: "good s \<Longrightarrow> other s s' \<Longrightarrow> good s'"
    and get_good: "good s \<Longrightarrow> get l s s' \<Longrightarrow> good s'"
    and give_good: "good s \<Longrightarrow> live l s \<Longrightarrow> give l e now s = Some s' \<Longrightarrow> good s'"
    and get_live: "good s \<Longrightarrow> get l s s' \<Longrightarrow> live l s'"
    and give_total: "good s \<Longrightarrow> live l s \<Longrightarrow> give l e now s \<noteq> None"
    and give_over: "good s \<Longrightarrow> live l s \<Longrightarrow> give l e now s = Some s' \<Longrightarrow> over l s'"
    and other_keeps: "good s \<Longrightarrow> other s s' \<Longrightarrow> (live k s \<longrightarrow> live k s') \<and> (over k s \<longrightarrow> over k s')"
    and get_keeps: "good s \<Longrightarrow> get l s s' \<Longrightarrow> (live k s \<longrightarrow> live k s') \<and> (over k s \<longrightarrow> over k s')"
    and give_keeps: "good s \<Longrightarrow> live l s \<Longrightarrow> give l e now s = Some s' \<Longrightarrow>
        (live k s \<longrightarrow> live k s') \<and> (over k s \<longrightarrow> over k s')"
begin

text \<open>What was given back stays given back, and every lease the trace takes is given back.\<close>

lemma plays_no_leak:
  assumes "plays other get give as s s'" and "good s" and "lease_end held as = Some final"
    and "\<forall>l. held = Some l \<longrightarrow> live l s"
  shows "good s' \<and> (\<forall>l. over l s \<longrightarrow> over l s') \<and>
    (\<forall>l. Act_Acquire l \<in> set as \<or> held = Some l \<longrightarrow> final = Some l \<or> over l s')"
  using assms
proof (induction arbitrary: held rule: plays.induct)
  case (plays_end s)
  then show ?case by auto
next
  case (plays_other s s1 as s2)
  have "good s1" using other_good plays_other by blast
  moreover have "\<forall>l. held = Some l \<longrightarrow> live l s1" using other_keeps plays_other by blast
  ultimately have "good s2 \<and> (\<forall>l. over l s1 \<longrightarrow> over l s2) \<and>
      (\<forall>l. Act_Acquire l \<in> set as \<or> held = Some l \<longrightarrow> final = Some l \<or> over l s2)"
    using plays_other by blast
  then show ?case using other_keeps plays_other by blast
next
  case (plays_acquire l s s1 as s2)
  have h: "held = None" and t: "lease_end (Some l) as = Some final"
    using plays_acquire.prems(2) by (auto split: if_splits)
  have g1: "good s1" by (rule get_good [OF plays_acquire.prems(1) plays_acquire.hyps(1)])
  have l1: "live l s1" by (rule get_live [OF plays_acquire.prems(1) plays_acquire.hyps(1)])
  have k1: "over k s \<longrightarrow> over k s1" for k
    using get_keeps [OF plays_acquire.prems(1) plays_acquire.hyps(1)] by blast
  have "good s2 \<and> (\<forall>k. over k s1 \<longrightarrow> over k s2) \<and>
      (\<forall>k. Act_Acquire k \<in> set as \<or> Some l = Some k \<longrightarrow> final = Some k \<or> over k s2)"
    by (rule plays_acquire.IH [OF g1 t]) (simp add: l1)
  with k1 h show ?case by auto
next
  case (plays_finish l e now s s1 as s2)
  have h: "held = Some l" and t: "lease_end None as = Some final"
    using plays_finish.prems(2) by (auto split: if_splits)
  have live: "live l s" using h plays_finish.prems(3) by simp
  have g1: "good s1" by (rule give_good [OF plays_finish.prems(1) live plays_finish.hyps(1)])
  have o1: "over l s1" by (rule give_over [OF plays_finish.prems(1) live plays_finish.hyps(1)])
  have k1: "over k s \<longrightarrow> over k s1" for k
    using give_keeps [OF plays_finish.prems(1) live plays_finish.hyps(1)] by blast
  have "good s2 \<and> (\<forall>k. over k s1 \<longrightarrow> over k s2) \<and>
      (\<forall>k. Act_Acquire k \<in> set as \<or> None = Some k \<longrightarrow> final = Some k \<or> over k s2)"
    by (rule plays_finish.IH [OF g1 t]) simp
  with k1 o1 h show ?case by auto
next
  case (plays_silent a as s s2)
  have "lease_end held as = Some final" using plays_silent by (cases a) (auto split: if_splits)
  moreover have "Act_Acquire k \<in> set (a # as) \<longleftrightarrow> Act_Acquire k \<in> set as" for k
    using plays_silent.hyps(1) by auto
  ultimately show ?case using plays_silent by blast
qed

text \<open>Giving back the lease a trace holds never fails.\<close>

lemma finish_possible:
  assumes "good s" and "lease_end held (Act_Finish l e # as) \<noteq> None" and "\<forall>l. held = Some l \<longrightarrow> live l s"
  shows "\<exists>s'. give l e now s = Some s'"
  using assms give_total by (cases held) (auto split: if_splits)

end

section \<open>The pool provides leases\<close>

definition pool_get :: "nat \<Rightarrow> pool \<Rightarrow> pool \<Rightarrow> bool" where
  "pool_get l p p' \<longleftrightarrow> (\<exists>acq. acquire_locked acq p = (Inr l, p'))"

definition pool_plays :: "action list \<Rightarrow> pool \<Rightarrow> pool \<Rightarrow> bool" where
  "pool_plays = plays pool_step pool_get finish_lease"

definition lease_live :: "nat \<Rightarrow> pool \<Rightarrow> bool" where
  "lease_live l p \<longleftrightarrow> l < length (p_leases p)"

definition lease_over :: "nat \<Rightarrow> pool \<Rightarrow> bool" where
  "lease_over l p \<longleftrightarrow> l < length (p_leases p) \<and> lease_finished p (p_leases p ! l)"

lemma kept_length: "kept p q \<Longrightarrow> length (p_leases p) \<le> length (p_leases q)"
  by (simp add: kept_def le_bools_def lease_onces_def)

lemma step_keeps:
  assumes "pool_step p q" and "pool_wf p"
  shows "(lease_live k p \<longrightarrow> lease_live k q) \<and> (lease_over k p \<longrightarrow> lease_over k q)"
proof -
  have k: "kept p q" by (rule kept_step [OF assms])
  show ?thesis
    using kept_length [OF k] kept_finished [OF k assms(2)]
    by (auto simp: lease_live_def lease_over_def)
qed

lemma get_step: "pool_get l p q \<Longrightarrow> pool_step p q"
  by (auto simp: pool_get_def intro: step_acquire)

lemma give_step: "finish_lease l e now p = Some q \<Longrightarrow> lease_live l p \<Longrightarrow> pool_step p q"
  by (auto simp: lease_live_def intro: step_finish)

interpretation pool_leases:
  lease_provider pool_step pool_get finish_lease pool_wf lease_live lease_over
proof unfold_locales
  fix s s' :: pool and l k e now
  show "pool_wf s \<Longrightarrow> pool_step s s' \<Longrightarrow> pool_wf s'" by (rule wf_step)
  show "pool_wf s \<Longrightarrow> pool_get l s s' \<Longrightarrow> pool_wf s'" using wf_step get_step by blast
  show "pool_wf s \<Longrightarrow> lease_live l s \<Longrightarrow> finish_lease l e now s = Some s' \<Longrightarrow> pool_wf s'"
    using wf_step give_step by blast
  show "pool_wf s \<Longrightarrow> pool_get l s s' \<Longrightarrow> lease_live l s'"
    by (auto simp: pool_get_def lease_live_def dest!: acquire_leases)
  show "pool_wf s \<Longrightarrow> lease_live l s \<Longrightarrow> finish_lease l e now s \<noteq> None"
    by (simp add: lease_live_def finish_total)
  show "pool_wf s \<Longrightarrow> lease_live l s \<Longrightarrow> finish_lease l e now s = Some s' \<Longrightarrow> lease_over l s'"
    using kept_finish finish_leases by (fastforce simp: lease_live_def lease_over_def)
  show "pool_wf s \<Longrightarrow> pool_step s s' \<Longrightarrow> (lease_live k s \<longrightarrow> lease_live k s') \<and> (lease_over k s \<longrightarrow> lease_over k s')"
    using step_keeps by blast
  show "pool_wf s \<Longrightarrow> pool_get l s s' \<Longrightarrow> (lease_live k s \<longrightarrow> lease_live k s') \<and> (lease_over k s \<longrightarrow> lease_over k s')"
    using step_keeps get_step by blast
  show "pool_wf s \<Longrightarrow> lease_live l s \<Longrightarrow> finish_lease l e now s = Some s' \<Longrightarrow>
      (lease_live k s \<longrightarrow> lease_live k s') \<and> (lease_over k s \<longrightarrow> lease_over k s')"
    using step_keeps give_step by blast
qed

end
