(* ===== verification/ProxyReplies.thy ===== *)
theory ProxyReplies
  imports ProxyInv
begin

text \<open>What a client gets back: which attempt answers it, which status it sees, which headers pass.\<close>

section \<open>A concrete exchange\<close>

text \<open>A request that fails over once and is then served, and a tunnel that does the same.\<close>

definition demo_url :: url_view where
  "demo_url = \<lparr>url_scheme = ''http'', url_host = ''example.com'', url_user = None, url_fragment = ''''\<rparr>"

definition demo_get :: request where
  "demo_get = \<lparr>rq_method = ''GET'', rq_host = ''example.com'', rq_url = demo_url,
     rq_header = [], rq_content_length = 0, rq_request_uri = ''http://example.com/'', rq_close = False\<rparr>"

definition demo_post :: request where
  "demo_post = demo_get\<lparr>rq_method := ''POST'', rq_content_length := 7\<rparr>"

definition demo_ok :: response where
  "demo_ok = \<lparr>rs_status = 201, rs_header = [], rs_trailer = [],
     rs_pieces = [\<lparr>pc_bytes = ''payload'', pc_write = None, pc_flush = None\<rparr>], rs_read_err = None\<rparr>"

definition demo_trip :: "nat \<Rightarrow> attempt_env" where
  "demo_trip k = \<lparr>ae_gone = False, ae_acquire = Inr k,
     ae_trip = (if k = 0 then \<lparr>rt_dials = [Some Ctx_DeadlineExceeded], rt_result = Inl Ctx_DeadlineExceeded\<rparr>
                else \<lparr>rt_dials = [None], rt_result = Inr demo_ok\<rparr>)\<rparr>"

definition demo_tunnel :: "nat \<Rightarrow> connect_env" where
  "demo_tunnel k = \<lparr>ce_gone = False, ce_acquire = Inr k,
     ce_dial = (if k = 0 then Some Ctx_DeadlineExceeded else None), ce_hijacker = True, ce_hijack = None,
     ce_write = None, ce_up_first = True, ce_up = None, ce_down = Some (Err_Text ''closed'')\<rparr>"

lemma demo_served:
  "\<exists>w'. serve_forward 2 demo_trip r new_writer =
    (attempt_actions r 0 (ae_trip (demo_trip 0)) (Some Ctx_DeadlineExceeded) @
     attempt_actions r 1 (ae_trip (demo_trip 1)) None, w', H_Returned)"
  by (simp add: serve_forward_def numeral_2_eq_2 forward_attempt_def demo_trip_def demo_ok_def
      rt_dialed_def flush_write_def Let_def checked_write_header_def invalid_code_def)

text \<open>An upstream server that answers with the status line \<open>HTTP/1.1 099 X\<close>.\<close>

definition odd_trip :: "nat \<Rightarrow> attempt_env" where
  "odd_trip k = \<lparr>ae_gone = False, ae_acquire = Inr k,
     ae_trip = \<lparr>rt_dials = [None], rt_result = Inr (demo_ok\<lparr>rs_status := 99\<rparr>)\<rparr>\<rparr>"

lemma odd_panics:
  "\<exists>w'. serve_forward 2 odd_trip r new_writer = (attempt_begun r 0 (ae_trip (odd_trip 0)), w', H_Panicked)"
proof -
  have n: "w_sent new_writer = None" by (simp add: new_writer_def)
  show ?thesis
    by (simp add: serve_forward_def numeral_2_eq_2 forward_attempt_def odd_trip_def demo_ok_def
      Let_def checked_write_header_def invalid_code_def n)
qed

section \<open>Failed attempts leave no trace in the reply\<close>

text \<open>
  An attempt whose upstream connection failed, after which the loop goes on to the next
  instance: no dial of it succeeded, so nothing of the request has left.
\<close>

definition fails_over :: "attempt_env \<Rightarrow> bool" where
  "fails_over env \<longleftrightarrow>
     (\<exists>l e. ae_acquire env = Inr l \<and> rt_result (ae_trip env) = Inl e \<and> \<not> rt_dialed (ae_trip env))"

definition trip_error :: "attempt_env \<Rightarrow> gerr option" where
  "trip_error env = (case rt_result (ae_trip env) of Inl e \<Rightarrow> Some e | Inr resp \<Rightarrow> None)"

lemma fails_step:
  assumes "fails_over env" and "prev = None \<or> \<not> ae_gone env"
  shows "\<exists>l. \<forall>rest. forward_loop r (env # rest) prev w =
    (case forward_loop r rest (trip_error env) w of
       (acts, result) \<Rightarrow> (attempt_actions r l (ae_trip env) (trip_error env) @ acts, result))"
proof -
  obtain l e where l: "ae_acquire env = Inr l" and e: "rt_result (ae_trip env) = Inl e"
    and b: "\<not> rt_dialed (ae_trip env)"
    using assms(1) by (auto simp: fails_over_def)
  have f: "forward_attempt (ae_trip env) w = (Some (False, False, Some e), w)"
    using b by (simp add: forward_attempt_def e)
  show ?thesis
    using assms(2) l f by (intro exI [of _ l]) (auto simp: trip_error_def e Let_def)
qed

lemma fails_loop:
  assumes "\<forall>env \<in> set failed. fails_over env" and "\<forall>env \<in> set (if prev = None then tl failed else failed). \<not> ae_gone env"
  shows "\<exists>acts. length (filter is_acquire acts) = length failed \<and>
    (\<forall>rest. forward_loop r (failed @ rest) prev w =
      (case forward_loop r rest (if failed = [] then prev else trip_error (last failed)) w of
         (later, result) \<Rightarrow> (acts @ later, result)))"
  using assms
proof (induction failed arbitrary: prev)
  case Nil
  then show ?case by (intro exI [of _ "[]"]) simp
next
  case (Cons env failed)
  have env: "fails_over env" "prev = None \<or> \<not> ae_gone env" using Cons.prems by (auto split: if_splits)
  have some: "trip_error env \<noteq> None" using env(1) by (auto simp: fails_over_def trip_error_def)
  have "\<forall>env \<in> set failed. \<not> ae_gone env" using Cons.prems(2) by (auto split: if_splits)
  with some have "\<forall>x \<in> set (if trip_error env = None then tl failed else failed). \<not> ae_gone x" by auto
  from Cons.IH [OF _ this] Cons.prems(1) obtain acts where
    n: "length (filter is_acquire acts) = length failed"
    and loop: "\<And>rest. forward_loop r (failed @ rest) (trip_error env) w =
      (case forward_loop r rest (if failed = [] then trip_error env else trip_error (last failed)) w of
         (later, result) \<Rightarrow> (acts @ later, result))"
    by auto
  obtain l where l: "\<And>rest. forward_loop r (env # rest) prev w =
    (case forward_loop r rest (trip_error env) w of
       (later, result) \<Rightarrow> (attempt_actions r l (ae_trip env) (trip_error env) @ later, result))"
    using fails_step [OF env, of r w] by blast
  show ?case
  proof (intro exI conjI allI)
    show "length (filter is_acquire (attempt_actions r l (ae_trip env) (trip_error env) @ acts))
        = length (env # failed)"
      using n by (simp add: attempt_acquires)
    show "forward_loop r ((env # failed) @ rest) prev w =
      (case forward_loop r rest (if env # failed = [] then prev else trip_error (last (env # failed))) w of
         (later, result) \<Rightarrow>
           ((attempt_actions r l (ae_trip env) (trip_error env) @ acts) @ later, result))" for rest
      by (simp only: append_Cons l loop) (simp split: prod.split)
  qed
qed

lemma failed_prefix:
  assumes "\<forall>j < k. fails_over (env j)" and "\<forall>j < k. 0 < j \<longrightarrow> \<not> ae_gone (env j)"
  shows "\<exists>acts. length (filter is_acquire acts) = k \<and>
    (\<forall>rest. forward_loop r (map env [0..<k] @ rest) None w =
      (case forward_loop r rest (if k = 0 then None else trip_error (env (k - 1))) w of
         (later, result) \<Rightarrow> (acts @ later, result)))"
proof -
  have tl: "tl (map env [0..<k]) = map env [1..<k]" by (cases k) (simp_all add: upt_rec map_tl [symmetric])
  have last: "last (map env [0..<k]) = env (k - 1)" if "k \<noteq> 0"
    using that by (simp add: last_map)
  have "\<forall>x \<in> set (map env [0..<k]). fails_over x" using assms(1) by auto
  moreover have "\<forall>x \<in> set (tl (map env [0..<k])). \<not> ae_gone x" using assms(2) unfolding tl by auto
  ultimately show ?thesis
    using fails_loop [of "map env [0..<k]" None r w] last by (auto simp: if_distrib cong: if_cong)
qed

text \<open>
  Claim C8. Failover, on every branch. When the first \<open>k\<close> attempts fail without a connection to the target
  (and the client is still there), nothing of them reaches the client: the reply is the one of attempt \<open>k\<close>, the handler
  aborts the connection when that response broke off and panics when its status is no status \<open>WriteHeader\<close>
  takes; a request with a body whose attempt \<open>k\<close> failed after the connection was made is
  answered with that error; if \<open>Acquire\<close> refuses, or the
  instances are exhausted, the client sees the error of the last attempt, or a 503 when
  there was none.
\<close>

theorem failover:
  assumes "k \<le> n" and "\<forall>j < k. fails_over (env j)" and "\<forall>j \<le> k. 0 < j \<and> j < n \<longrightarrow> \<not> ae_gone (env j)"
    and "prev = (if k = 0 then None else trip_error (env (k - 1)))"
  shows "\<exists>acts. length (filter is_acquire acts) = k \<and>
    (k = n \<longrightarrow> serve_forward n env r w = (acts, exhausted prev w, H_Returned)) \<and>
    (k < n \<longrightarrow> (case ae_acquire (env k) of
       Inl e \<Rightarrow> serve_forward n env r w = (acts, acquire_error e prev w, H_Returned)
     | Inr l \<Rightarrow>
        (case forward_attempt (ae_trip (env k)) w of
           (None, w1) \<Rightarrow> serve_forward n env r w = (acts @ attempt_begun r l (ae_trip (env k)), w1, H_Panicked)
         | (Some (responded, dialed, err), w1) \<Rightarrow>
            (responded \<longrightarrow> serve_forward n env r w =
               (acts @ attempt_actions r l (ae_trip (env k)) err, w1, if err = None then H_Returned else H_Aborted)) \<and>
            (\<not> responded \<and> dialed \<and> has_body r \<longrightarrow> serve_forward n env r w =
               (acts @ attempt_actions r l (ae_trip (env k)) err, proxy_error (the err) w, H_Returned)))))"
proof -
  obtain acts where n: "length (filter is_acquire acts) = k"
    and loop: "\<And>rest. forward_loop r (map env [0..<k] @ rest) None w =
      (case forward_loop r rest prev w of (later, result) \<Rightarrow> (acts @ later, result))"
    using failed_prefix [OF assms(2), of r w] assms(1,3,4) by (auto simp: Ball_def)
  have split: "map env [0..<n] = map env [0..<k] @ map env [k..<n]"
    using assms(1) by (metis le0 map_append upt_add_eq_append le_Suc_ex)
  have serve: "serve_forward n env r w =
      (case forward_loop r (map env [k..<n]) prev w of (later, result) \<Rightarrow> (acts @ later, result))"
    unfolding serve_forward_def split loop ..
  have alive: "\<not> (prev \<noteq> None \<and> ae_gone (env k))" if "k < n" using assms(3,4) that by auto
  have ended: "serve_forward n env r w = (acts, exhausted prev w, H_Returned)" if "k = n"
    using serve that by simp
  have one: "serve_forward n env r w =
      (case forward_loop r (env k # map env [Suc k..<n]) prev w of (later, result) \<Rightarrow> (acts @ later, result))"
    if "k < n" using serve that by (simp only: upt_conv_Cons list.map)
  show ?thesis
  proof (intro exI [of _ acts] conjI impI n ended)
    assume k: "k < n"
    show "case ae_acquire (env k) of
       Inl e \<Rightarrow> serve_forward n env r w = (acts, acquire_error e prev w, H_Returned)
     | Inr l \<Rightarrow>
        (case forward_attempt (ae_trip (env k)) w of
           (None, w1) \<Rightarrow> serve_forward n env r w = (acts @ attempt_begun r l (ae_trip (env k)), w1, H_Panicked)
         | (Some (responded, dialed, err), w1) \<Rightarrow>
            (responded \<longrightarrow> serve_forward n env r w =
               (acts @ attempt_actions r l (ae_trip (env k)) err, w1, if err = None then H_Returned else H_Aborted)) \<and>
            (\<not> responded \<and> dialed \<and> has_body r \<longrightarrow> serve_forward n env r w =
               (acts @ attempt_actions r l (ae_trip (env k)) err, proxy_error (the err) w, H_Returned)))"
    proof (cases "ae_acquire (env k)")
      case (Inl e)
      with one [OF k, unfolded forward_loop.simps if_not_P [OF alive [OF k]]] show ?thesis by simp
    next
      case (Inr l)
      obtain res w1 where f: "forward_attempt (ae_trip (env k)) w = (res, w1)" by (metis surj_pair)
      show ?thesis
      proof (cases res)
        case None
        with Inr f one [OF k, unfolded forward_loop.simps if_not_P [OF alive [OF k]]] show ?thesis by simp
      next
        case (Some t)
        obtain responded dialed err where t: "t = (responded, dialed, err)" by (cases t) auto
        note fa = attempt_failed [OF f [unfolded Some t]]
        show ?thesis
          using Inr f Some t fa one [OF k, unfolded forward_loop.simps if_not_P [OF alive [OF k]]] by (cases err) (auto simp: Let_def)
      qed
    qed
  qed
qed

theorem failover_witness:
  "\<exists>acts w1. length (filter is_acquire acts) = 1 \<and>
     forward_attempt (ae_trip (demo_trip 1)) new_writer = (Some (True, True, None), w1) \<and>
     serve_forward 2 demo_trip demo_get new_writer
       = (acts @ attempt_actions demo_get 1 (ae_trip (demo_trip 1)) None, w1, H_Returned)"
proof -
  have f: "\<forall>j < 1. fails_over (demo_trip j)" and g: "\<forall>j \<le> 1. 0 < j \<and> j < 2 \<longrightarrow> \<not> ae_gone (demo_trip j)"
    by (simp_all add: fails_over_def demo_trip_def rt_dialed_def)
  obtain w1 where a: "forward_attempt (ae_trip (demo_trip 1)) new_writer = (Some (True, True, None), w1)"
    by (simp add: forward_attempt_def demo_trip_def demo_ok_def rt_dialed_def flush_write_def Let_def
        checked_write_header_def invalid_code_def)
  have acq: "ae_acquire (demo_trip 1) = Inr 1" by (simp add: demo_trip_def)
  from failover [OF _ f g refl, of demo_get new_writer] acq a obtain acts where
    "length (filter is_acquire acts) = 1" and
    "serve_forward 2 demo_trip demo_get new_writer
        = (acts @ attempt_actions demo_get 1 (ae_trip (demo_trip 1)) None, w1, H_Returned)"
    by auto
  then show ?thesis using a by blast
qed

section \<open>The status the client sees\<close>

lemma error_sent:
  assumes "w_sent w = None"
  shows "\<exists>c h. w_sent (proxy_error e w) = Some (c, h) \<and> c \<in> {502, 504}"
    and "\<exists>c h. w_sent (exhausted prev w) = Some (c, h) \<and> c \<in> {502, 503, 504}"
    and "\<exists>c h. w_sent (acquire_error e prev w) = Some (c, h) \<and> c \<in> {502, 503, 504}"
proof -
  have c503: "\<not> interim_code 503" by (simp add: interim_code_def)
  have p: "\<exists>c h. w_sent (proxy_error e w) = Some (c, h) \<and> c \<in> {502, 504}" for e
  proof -
    have "error_code e \<in> {502, 504}" by (simp add: error_code_def)
    then show ?thesis
      unfolding proxy_error_def
      using http_error_sent [OF assms, of "error_code e" "status_text (error_code e) @
        '': Tor could not complete the upstream connection.''"]
      by (auto simp: error_code_def interim_code_def)
  qed
  then show "\<exists>c h. w_sent (proxy_error e w) = Some (c, h) \<and> c \<in> {502, 504}" .
  show "\<exists>c h. w_sent (exhausted prev w) = Some (c, h) \<and> c \<in> {502, 503, 504}"
    using http_error_sent [OF assms c503, of no_ready_text] p [of "the prev"]
    by (cases prev) (auto simp: exhausted_def)
  let ?w = "put_header (header_set ''Retry-After'' ''10'') w"
  have "w_sent ?w = None" using assms by simp
  from http_error_sent [OF this c503, of no_ready_text] p [of "the prev"]
    http_error_sent [OF assms c503, of "''IP reservation could not be persisted.''"]
  show "\<exists>c h. w_sent (acquire_error e prev w) = Some (c, h) \<and> c \<in> {502, 503, 504}"
    by (cases prev) (auto simp: acquire_error_def)
qed

text \<open>The upstream responses the attempts of a loop got.\<close>

definition responses :: "attempt_env list \<Rightarrow> response set" where
  "responses envs = {resp. \<exists>env \<in> set envs. rt_result (ae_trip env) = Inr resp}"

text \<open>
  \<open>http.Transport\<close> keeps interim responses to itself: \<open>RoundTrip\<close> returns the final one (or 101).
\<close>

definition final_responses :: "attempt_env list \<Rightarrow> bool" where
  "final_responses envs \<longleftrightarrow> (\<forall>resp \<in> responses envs. \<not> interim_code (rs_status resp))"

lemma forward_status:
  assumes "forward_loop r envs prev w = (acts, w', out)" and "w_sent w = None" and "final_responses envs"
  shows "case out of
      H_Panicked \<Rightarrow> w_sent w' = None \<and> (\<exists>resp \<in> responses envs. invalid_code (rs_status resp))
    | H_Aborted \<Rightarrow> \<exists>resp \<in> responses envs. \<not> invalid_code (rs_status resp) \<and> (\<exists>h. w_sent w' = Some (rs_status resp, h))
    | H_Returned \<Rightarrow> (case w_sent w' of
         None \<Rightarrow> \<exists>env \<in> set (if prev = None then tl envs else envs). ae_gone env
       | Some (code, h) \<Rightarrow> code \<in> {502, 503, 504} \<or>
           (\<exists>resp \<in> responses envs. \<not> invalid_code (rs_status resp) \<and> code = rs_status resp))"
  using assms
proof (induction envs arbitrary: prev w acts)
  case Nil
  then show ?case using error_sent(2) [OF Nil.prems(2), of prev] by auto
next
  case (Cons env rest)
  have mine: "\<not> interim_code (rs_status resp)" if "rt_result (ae_trip env) = Inr resp" for resp
    using Cons.prems(3) that by (auto simp: final_responses_def responses_def)
  from Cons.prems(1) show ?case
  proof (cases rule: forward_step)
    case gone
    then show ?thesis using Cons.prems(2) by auto
  next
    case (refused e)
    then show ?thesis using error_sent(3) [OF Cons.prems(2), of e prev] by auto
  next
    case (panicked l)
    from attempt_panics [OF panicked(2)] panicked Cons.prems(2) show ?thesis
      by (auto simp: responses_def)
  next
    case (served l w1 d)
    from attempt_responded [OF served(2) Cons.prems(2)] mine obtain resp h where
      "rt_result (ae_trip env) = Inr resp" "\<not> invalid_code (rs_status resp)" "w_sent w1 = Some (rs_status resp, h)"
      by blast
    with served show ?thesis by (auto simp: responses_def)
  next
    case (aborted l w1 d e)
    from attempt_responded [OF aborted(2) Cons.prems(2)] mine obtain resp h where
      "rt_result (ae_trip env) = Inr resp" "\<not> invalid_code (rs_status resp)" "w_sent w1 = Some (rs_status resp, h)"
      by blast
    with aborted show ?thesis by (auto simp: responses_def)
  next
    case (stopped l e)
    then show ?thesis using error_sent(1) [OF Cons.prems(2), of e] by auto
  next
    case (failed l e acts1)
    have sub: "responses rest \<subseteq> responses (env # rest)" by (auto simp: responses_def)
    then have fin: "final_responses rest" using Cons.prems(3) by (auto simp: final_responses_def)
    from Cons.IH [OF failed(4) Cons.prems(2) fin] sub show ?thesis
      by (cases out; cases "w_sent w'"; cases prev) fastforce+
  qed
qed



end
