(* ===== verification/ProxyProps.thy ===== *)
theory ProxyProps
  imports Leases ProxyReplies AcquireProps
begin

text \<open>What the proxy guarantees to its clients, to the targets and to the pool.\<close>

section \<open>Leases\<close>

text \<open>
  Claim C7. Whatever request a handler serves, whatever the network and the
  pool answer, and whatever the other goroutines do meanwhile: it holds one lease
  at a time, makes at most \<open>Size\<close> attempts, and when it ends every lease it took is
  finished, so its instance rotates or is free again, with one exception, which is exact: when
  \<open>WriteHeader\<close> panicked on the status of an upstream response that is below 100, the lease of that attempt, the last
  one, is never finished.
\<close>

theorem no_lease_leak:
  assumes "serve_http (pool_size p) fenv cenv r w = (acts, w', out)" and "pool_reachable cfg t p"
    and "pool_plays acts p q"
  shows "length (filter is_acquire acts) \<le> pool_size p \<and>
    (\<exists>held. lease_end None acts = Some held \<and>
      (\<forall>l. Act_Acquire l \<in> set acts \<longrightarrow> held = Some l \<or> lease_over l q) \<and>
      (held \<noteq> None \<longleftrightarrow> out = H_Panicked) \<and>
      (out = H_Panicked \<longrightarrow> (\<exists>k < pool_size p. \<exists>resp. rt_result (ae_trip (fenv k)) = Inr resp \<and>
         invalid_code (rs_status resp))))"
proof -
  note tr = serve_trace [OF assms(1)]
  obtain held where h: "lease_end None acts = Some held" "held \<noteq> None \<longleftrightarrow> out = H_Panicked" using tr(2) by blast
  have "plays pool_step pool_get finish_lease acts p q"
    using assms(3) by (simp add: pool_plays_def)
  from pool_leases.plays_no_leak [OF this wf_reachable [OF assms(2)] h(1)] tr h show ?thesis by simp
qed

text \<open>The pool under a request that fails over once and is then served.\<close>

definition demo_acts :: "action list" where
  "demo_acts = attempt_actions demo_get 0 (ae_trip (demo_trip 0)) (Some Ctx_DeadlineExceeded) @
     attempt_actions demo_get 1 (ae_trip (demo_trip 1)) None"

lemma demo_plays: "\<exists>q. pool_plays demo_acts (demo_pool True demo_publish) q"
proof -
  let ?s0 = "demo_pool True demo_publish"
  let ?s1 = "snd (acquire_locked (acq_ok (At 5)) ?s0)"
  let ?s2 = "the (finish_lease 0 (Some Ctx_DeadlineExceeded) (At 6) ?s1)"
  let ?s3 = "snd (acquire_locked (acq_ok (At 7)) ?s2)"
  let ?s4 = "the (finish_lease 1 None (At 8) ?s3)"
  have r: "fst (acquire_locked (acq_ok (At 5)) ?s0) = Inr 0" "fst (acquire_locked (acq_ok (At 7)) ?s2) = Inr 1"
    and n: "finish_lease 0 (Some Ctx_DeadlineExceeded) (At 6) ?s1 \<noteq> None"
      "finish_lease 1 None (At 8) ?s3 \<noteq> None"
    by code_simp+
  have g: "pool_get 0 ?s0 ?s1" "pool_get 1 ?s2 ?s3"
    using r unfolding pool_get_def by (metis prod.collapse)+
  have f: "finish_lease 0 (Some Ctx_DeadlineExceeded) (At 6) ?s1 = Some ?s2"
    "finish_lease 1 None (At 8) ?s3 = Some ?s4"
    using n by simp_all
  let ?pl = "plays pool_step pool_get finish_lease"
  let ?a1 = "[Act_Send 1 (out_request demo_get), Act_Dial 1 True, Act_Finish 1 None]"
  have acts: "demo_acts = Act_Acquire 0 # Act_Send 0 (out_request demo_get) # Act_Dial 0 False #
      Act_Finish 0 (Some Ctx_DeadlineExceeded) # Act_Acquire 1 # ?a1"
    by (simp add: demo_acts_def attempt_actions_def attempt_begun_def demo_trip_def)
  have "?pl [] ?s4 ?s4" by (rule plays_end)
  then have "?pl [Act_Finish 1 None] ?s3 ?s4" by (rule plays_finish [where give = finish_lease, rotated]) (rule f)
  then have "?pl [Act_Dial 1 True, Act_Finish 1 None] ?s3 ?s4" by (rule plays_silent [rotated]) simp
  then have "?pl [Act_Send 1 (out_request demo_get), Act_Dial 1 True, Act_Finish 1 None] ?s3 ?s4"
    by (rule plays_silent [rotated]) simp
  then have "?pl (Act_Acquire 1 # ?a1) ?s2 ?s4" by (rule plays_acquire [where get = pool_get, rotated]) (rule g)
  then have "?pl (Act_Finish 0 (Some Ctx_DeadlineExceeded) # Act_Acquire 1 # ?a1) ?s1 ?s4"
    by (rule plays_finish [where give = finish_lease, rotated]) (rule f)
  then have "?pl (Act_Dial 0 False # Act_Finish 0 (Some Ctx_DeadlineExceeded) # Act_Acquire 1 # ?a1) ?s1 ?s4"
    by (rule plays_silent [rotated]) simp
  then have "?pl (Act_Send 0 (out_request demo_get) # Act_Dial 0 False #
      Act_Finish 0 (Some Ctx_DeadlineExceeded) # Act_Acquire 1 # ?a1) ?s1 ?s4"
    by (rule plays_silent [rotated]) simp
  then have "?pl demo_acts ?s0 ?s4"
    unfolding acts by (rule plays_acquire [where get = pool_get, rotated]) (rule g)
  then show ?thesis unfolding pool_plays_def by blast
qed

theorem no_lease_leak_witness:
  "\<exists>q. pool_plays demo_acts (demo_pool True demo_publish) q \<and> lease_over 0 q \<and> lease_over 1 q"
proof -
  let ?p = "demo_pool True demo_publish"
  obtain q where q: "pool_plays demo_acts ?p q" using demo_plays by blast
  have r: "pool_reachable (demo_cfg True) [] ?p" by (rule demo_reachable) code_simp
  have two: "pool_size ?p = 2" and fw: "check_request demo_get = Forward" by code_simp+
  have "\<exists>w'. serve_http 2 demo_trip demo_tunnel demo_get new_writer = (demo_acts, w', H_Returned)"
    using demo_served [of demo_get] unfolding serve_http_def fw demo_acts_def route.case .
  then obtain w' where s: "serve_http (pool_size ?p) demo_trip demo_tunnel demo_get new_writer = (demo_acts, w', H_Returned)"
    unfolding two by blast
  have "Act_Acquire 0 \<in> set demo_acts" "Act_Acquire 1 \<in> set demo_acts"
    by (simp_all add: demo_acts_def attempt_actions_def attempt_begun_def)
  with no_lease_leak [OF s r q] q show ?thesis by auto
qed

text \<open>
  The exception happens: the trace of a handler that got the status 099 ends with the lease still held.
\<close>

lemma leaked_lease:
  "\<exists>acts w'. serve_http 2 odd_trip demo_tunnel demo_get new_writer = (acts, w', H_Panicked) \<and>
     lease_end None acts = Some (Some 0)"
proof -
  have "check_request demo_get = Forward" by code_simp
  then show ?thesis
    using odd_panics [of demo_get] begun_trace by (auto simp: serve_http_def)
qed

section \<open>Requests with a body\<close>

text \<open>Along a trace: no instance is asked for and nothing is sent once a dial succeeded.\<close>

fun replay_safe :: "bool \<Rightarrow> action list \<Rightarrow> bool" where
  "replay_safe dialed [] \<longleftrightarrow> True"
| "replay_safe dialed (Act_Acquire l # as) \<longleftrightarrow> \<not> dialed \<and> replay_safe dialed as"
| "replay_safe dialed (Act_Send l r # as) \<longleftrightarrow> \<not> dialed \<and> replay_safe dialed as"
| "replay_safe dialed (Act_Dial l b # as) \<longleftrightarrow> replay_safe (dialed \<or> b) as"
| "replay_safe dialed (a # as) \<longleftrightarrow> replay_safe dialed as"

lemma replay_dials:
  "replay_safe b (map (\<lambda>d. Act_Dial l (d = None)) ds @ as) \<longleftrightarrow> replay_safe (b \<or> list_ex (\<lambda>d. d = None) ds) as"
  by (induction ds arbitrary: b) (auto simp: disj_assoc)

lemma replay_loop:
  assumes "has_body r"
  shows "forward_loop r envs prev w = (acts, w', out) \<Longrightarrow> replay_safe False acts"
proof (induction envs arbitrary: prev w acts)
  case (Cons env rest)
  from Cons.prems show ?case
  proof (cases rule: forward_step)
    case (panicked l)
    then show ?thesis using replay_dials [of False l "rt_dials (ae_trip env)" "[]"] by (simp add: attempt_begun_def)
  next
    case (failed l e acts1)
    then have "\<not> rt_dialed (ae_trip env)" using assms by simp
    then show ?thesis using failed Cons.IH [OF failed(4)]
      by (simp add: attempt_actions_def attempt_begun_def replay_dials rt_dialed_def)
  qed (simp_all add: attempt_actions_def attempt_begun_def replay_dials)
qed simp

text \<open>
  Claim C12. A request with a body is not replayed: once the connection to the target was
  established through one instance, no other instance is taken and nothing is sent again.
\<close>

theorem body_not_replayed:
  assumes "serve_forward n env r w = (acts, w', out)" and "has_body r"
  shows "replay_safe False acts"
  using replay_loop assms unfolding serve_forward_def by blast

theorem body_not_replayed_witness:
  "\<exists>acts w'. serve_forward 2 demo_trip demo_post new_writer = (acts, w', H_Returned) \<and> replay_safe False acts \<and>
     Act_Send 1 (out_request demo_post) \<in> set acts"
proof -
  let ?s = "serve_forward 2 demo_trip demo_post new_writer"
  obtain acts w' out where s: "?s = (acts, w', out)" by (metis prod.collapse)
  have b: "has_body demo_post" by (simp add: demo_post_def has_body_def)
  with s body_not_replayed [OF s b] demo_served [of demo_post] show ?thesis
    by (auto simp: attempt_actions_def attempt_begun_def)
qed

end
