(* ===== verification/ProxyChecks.thy ===== *)
theory ProxyChecks
  imports ProxyReplies
begin

text \<open>The checks before a request is served, the headers that pass, and the life of a tunnel.\<close>

section \<open>Headers\<close>


definition demo_header :: header where
  "demo_header = [(''Connection'', [''X-One, keep-alive'', ''X-Two'']), (''X-One'', [''secret'']),
     (''X-Two'', [''secret'']), (''X-Keep'', [''value'']), (''Proxy-Authorization'', [''secret''])]"


section \<open>CONNECT targets\<close>

lemma itoa_bytes: "c \<in> set (itoa n) \<Longrightarrow> c \<noteq> colon \<and> c \<noteq> lbracket \<and> c \<noteq> rbracket"
  using itoa_digits [of c n] by (auto simp: is_digit_def colon_def lbracket_def rbracket_def)

text \<open>
  A CONNECT target that is a host without brackets and a port in canonical decimal digits is accepted exactly when it has a host without slash, backslash, at sign
  or white space that does not end in \<open>.onion\<close>, and a port from 1 to 65535; IPv6 literals are
  written in brackets.
\<close>

theorem connect_targets:
  assumes "lbracket \<notin> set host" and "rbracket \<notin> set host" and "int port \<le> max_int64"
  shows "validate_connect (join_host_port host (itoa port)) = None \<longleftrightarrow>
    host \<noteq> '''' \<and> 1 \<le> port \<and> port \<le> 65535 \<and> \<not> has_suffix (to_lower host) ''.onion'' \<and>
    set host \<inter> {CHR ''/'', CHR 0x5C, CHR ''@'', CHR '' '', CHR 0x09, CHR 0x0D, CHR 0x0A} = {}"
proof -
  have "split_host_port (join_host_port host (itoa port)) = Inr (host, itoa port)"
    using itoa_bytes by (intro split_join) (use assms in auto)
  moreover have "contains_any host bad_host_bytes \<longleftrightarrow>
      set host \<inter> {CHR ''/'', CHR 0x5C, CHR ''@'', CHR '' '', CHR 0x09, CHR 0x0D, CHR 0x0A} \<noteq> {}"
  proof -
    have "set bad_host_bytes = {CHR ''/'', CHR 0x5C, CHR ''@'', CHR '' '', CHR 0x09, CHR 0x0D, CHR 0x0A}"
      by code_simp
    then show ?thesis by (auto simp: contains_any_def list_ex_iff)
  qed
  ultimately show ?thesis
    using atoi_itoa [OF assms(3)] by (auto simp: validate_connect_def)
qed

theorem connect_targets_witness: "validate_connect ''example.com:443'' = None"
proof -
  have j: "join_host_port ''example.com'' (itoa 443) = ''example.com:443''" by code_simp
  have a: "lbracket \<notin> set ''example.com''" "rbracket \<notin> set ''example.com''" "int 443 \<le> max_int64"
    and s: "\<not> has_suffix (to_lower ''example.com'') ''.onion''"
    by code_simp+
  have "set ''example.com'' \<inter> {CHR ''/'', CHR 0x5C, CHR ''@'', CHR '' '', CHR 0x09, CHR 0x0D, CHR 0x0A} = {}"
    by simp
  with connect_targets [OF a] s j show ?thesis by simp
qed

text \<open>
  A host name may end in a dot, and such a name is not recognised as an onion address by the test for
  the suffix \<open>.onion\<close>.
\<close>

lemma onion_trailing_dot:
  "validate_connect ''abc.onion:80'' = Some ''onion destinations are not supported''"
  "validate_connect ''abc.onion.:80'' = None"
  by code_simp+

text \<open>
  Claim C26. A request that fails a check is answered with 400 or 501 and touches neither the pool nor the
  network; whatever is forwarded goes to an absolute \<open>http\<close> URL with a host and without
  credentials or fragment, and neither loop serves onion hosts or protocol upgrades.
\<close>

theorem admission:
  assumes "serve_http n fenv cenv r new_writer = (acts, w', out)"
  shows "case check_request r of
      Rejected msg code \<Rightarrow> acts = [] \<and> out = H_Returned \<and> code \<in> {400, 501} \<and> (\<exists>h. w_sent w' = Some (code, h))
    | Connect \<Rightarrow> validate_connect (rq_host r) = None \<and> header_get ''Upgrade'' (rq_header r) = '''' \<and> out = H_Returned
    | Forward \<Rightarrow> url_scheme (rq_url r) = ''http'' \<and> url_hostname (url_host (rq_url r)) \<noteq> '''' \<and>
        \<not> has_suffix (to_lower (url_hostname (url_host (rq_url r)))) ''.onion'' \<and>
        url_user (rq_url r) = None \<and> url_fragment (rq_url r) = '''' \<and>
        header_get ''Upgrade'' (rq_header r) = ''''"
proof (cases "check_request r")
  case (Rejected msg code)
  then have "code \<in> {400, 501}"
    by (auto simp: check_request_def Let_def split: if_splits option.splits)
  then have "code \<in> {400, 501}" and "\<not> interim_code code" by (auto simp: interim_code_def)
  with Rejected assms http_error_sent [of new_writer code msg] show ?thesis
    by (auto simp: serve_http_def new_writer_def)
next
  case Forward
  then show ?thesis
    by (auto simp: check_request_def Let_def split: if_splits option.splits)
next
  case Connect
  then have "validate_connect (rq_host r) = None \<and> header_get ''Upgrade'' (rq_header r) = ''''"
    by (auto simp: check_request_def Let_def split: if_splits option.splits)
  with Connect assms show ?thesis by (auto simp: serve_http_def split: prod.splits)
qed

definition demo_onion :: request where
  "demo_onion = demo_get\<lparr>rq_url := demo_url\<lparr>url_host := ''abc.onion''\<rparr>\<rparr>"

theorem admission_witness:
  "\<exists>w' h. serve_http 2 demo_trip demo_tunnel demo_onion new_writer = ([], w', H_Returned) \<and> w_sent w' = Some (400, h)"
proof -
  obtain acts w' out where s: "serve_http 2 demo_trip demo_tunnel demo_onion new_writer = (acts, w', out)"
    by (metis prod.collapse)
  have "check_request demo_onion =
      Rejected ''Onion destinations do not have a public exit IP and are not supported.'' 400"
    by code_simp
  with admission [OF s] s show ?thesis by auto
qed

section \<open>The life of a tunnel\<close>

text \<open>
  The two connections of a tunnel along a trace: what a handler opens it closes before it gives the lease
  back, the confirmation is only sent while both are open and after the read deadline
  the server left on the connection was cleared.
\<close>

fun tunnel_trace :: "bool \<Rightarrow> bool \<Rightarrow> action list \<Rightarrow> bool" where
  "tunnel_trace up cl [] \<longleftrightarrow> \<not> up \<and> \<not> cl"
| "tunnel_trace up cl (Act_Dial l b # as) \<longleftrightarrow> \<not> up \<and> tunnel_trace b cl as"
| "tunnel_trace up cl (Act_Hijack # as) \<longleftrightarrow> up \<and> \<not> cl \<and>
     (case as of Act_Clear_Deadline # as' \<Rightarrow> True | _ \<Rightarrow> False) \<and> tunnel_trace up True as"
| "tunnel_trace up cl (Act_Established # as) \<longleftrightarrow> up \<and> cl \<and> tunnel_trace up cl as"
| "tunnel_trace up cl (Act_Close_Client # as) \<longleftrightarrow> tunnel_trace up False as"
| "tunnel_trace up cl (Act_Close_Upstream # as) \<longleftrightarrow> tunnel_trace False cl as"
| "tunnel_trace up cl (Act_Finish l e # as) \<longleftrightarrow> \<not> up \<and> \<not> cl \<and> tunnel_trace up cl as"
| "tunnel_trace up cl (a # as) \<longleftrightarrow> tunnel_trace up cl as"

lemma tunnel_attempt:
  "connect_attempt env l w = ((True, err), acts, w') \<Longrightarrow> tunnel_trace False False (acts @ [Act_Finish l err])"
  by (auto simp: connect_attempt_def relay_tunnel_def split: option.splits if_splits)

lemma tunnel_established:
  "connect_attempt env l w = ((t, err), acts, w') \<Longrightarrow>
     count_list acts Act_Established \<le> (if t then 1 else 0)"
  by (auto simp: connect_attempt_def relay_tunnel_def split: option.splits if_splits)

text \<open>
  Claim C24. A tunnel leaves nothing open: on every path (dial failure, no hijacking, a failed confirmation,
  either direction ending first) the connections a CONNECT handler opened are closed before its
  lease is finished, at most one tunnel is confirmed per request, and after a confirmation
  nothing is written to the response.
\<close>

theorem tunnels_closed:
  assumes "serve_connect n env w = (acts, w')"
  shows "tunnel_trace False False acts \<and> count_list acts Act_Established \<le> 1 \<and>
    (Act_Established \<in> set acts \<longrightarrow> w' = w)"
proof -
  have "tunnel_trace False False acts \<and> count_list acts Act_Established \<le> 1 \<and>
      (Act_Established \<in> set acts \<longrightarrow> w' = w)"
    if "connect_loop envs prev w = (acts, w')" for envs prev
    using that
  proof (induction envs arbitrary: prev acts)
    case (Cons env rest)
    from Cons.prems show ?case
    proof (cases rule: connect_step)
      case (tunnel l err acts1)
      have "Act_Established \<in> set acts1 \<longrightarrow> w' = w"
        using tunnel(2) by (auto simp: connect_attempt_def relay_tunnel_def split: option.splits if_splits)
      with tunnel tunnel_attempt [OF tunnel(2)] tunnel_established [OF tunnel(2)] show ?thesis by simp
    next
      case (failed l e acts2)
      then show ?thesis using Cons.IH [OF failed(3)] by simp
    qed simp_all
  qed simp
  then show ?thesis using assms unfolding serve_connect_def by blast
qed

theorem tunnels_closed_witness:
  "\<exists>acts. serve_connect 2 demo_tunnel new_writer = (acts, new_writer) \<and> Act_Established \<in> set acts"
proof -
  obtain acts w' where s: "serve_connect 2 demo_tunnel new_writer = (acts, w')" by (metis prod.collapse)
  have "Act_Established \<in> set acts"
    using s by (auto simp: serve_connect_def numeral_2_eq_2 connect_attempt_def demo_tunnel_def relay_tunnel_def
      Let_def)
  with tunnels_closed [OF s] s show ?thesis by blast
qed

end
