(* ===== verification/Conn.thy ===== *)
theory Conn
  imports Prelude
begin

text \<open>
  The connection wrappers of \<open>internal/app/proxy.go\<close>: \<open>idleConn\<close> (one idle deadline for
  both directions), \<open>guardedConn\<close> and \<open>boundedListener\<close> (a bound on the accepted
  connections). The wrapped sockets are not under \<open>src/\<close>: what setting a deadline answers is an
  argument, and the deadlines a socket was given are part of the state.
\<close>

section \<open>idleConn\<close>

definition earlier :: "gotime \<Rightarrow> gotime \<Rightarrow> gotime" where
  "earlier a b = (if b \<noteq> Zero_Time \<and> b < a then b else a)"

record idle_conn =
  ic_timeout :: duration
  ic_read_limit :: gotime
  ic_write_limit :: gotime
  ic_read_deadline :: gotime    \<comment> \<open>what the wrapped socket was told last\<close>
  ic_write_deadline :: gotime

definition new_idle :: "duration \<Rightarrow> gotime \<Rightarrow> gotime \<Rightarrow> idle_conn" where
  "new_idle timeout rd wr = \<lparr>ic_timeout = timeout, ic_read_limit = Zero_Time, ic_write_limit = Zero_Time,
     ic_read_deadline = rd, ic_write_deadline = wr\<rparr>"

text \<open>Setting the deadlines of the socket, with its answer.\<close>

definition sock_read_deadline :: "gerr option \<Rightarrow> gotime \<Rightarrow> idle_conn \<Rightarrow> gerr option \<times> idle_conn" where
  "sock_read_deadline err t c = (err, if err = None then c\<lparr>ic_read_deadline := t\<rparr> else c)"

definition sock_write_deadline :: "gerr option \<Rightarrow> gotime \<Rightarrow> idle_conn \<Rightarrow> gerr option \<times> idle_conn" where
  "sock_write_deadline err t c = (err, if err = None then c\<lparr>ic_write_deadline := t\<rparr> else c)"

definition touch :: "gerr option \<Rightarrow> gerr option \<Rightarrow> gotime \<Rightarrow> idle_conn \<Rightarrow> gerr option \<times> idle_conn" where
  "touch read_err write_err now c =
     (let deadline = time_add now (ic_timeout c)
      in case sock_read_deadline read_err (earlier deadline (ic_read_limit c)) c of
           (Some e, c) \<Rightarrow> (Some e, c)
         | (None, c) \<Rightarrow> sock_write_deadline write_err (earlier deadline (ic_write_limit c)) c)"

definition set_deadline :: "gerr option \<Rightarrow> gotime \<Rightarrow> idle_conn \<Rightarrow> gerr option \<times> idle_conn" where
  "set_deadline err t c =
     (let c = c\<lparr>ic_read_limit := t, ic_write_limit := t\<rparr>
      in (err, if err = None then c\<lparr>ic_read_deadline := t, ic_write_deadline := t\<rparr> else c))"

definition set_read_deadline :: "gerr option \<Rightarrow> gotime \<Rightarrow> idle_conn \<Rightarrow> gerr option \<times> idle_conn" where
  "set_read_deadline err t c = sock_read_deadline err t (c\<lparr>ic_read_limit := t\<rparr>)"

definition set_write_deadline :: "gerr option \<Rightarrow> gotime \<Rightarrow> idle_conn \<Rightarrow> gerr option \<times> idle_conn" where
  "set_write_deadline err t c = sock_write_deadline err t (c\<lparr>ic_write_limit := t\<rparr>)"

text \<open>\<open>Read\<close> and \<open>Write\<close>: the socket is only asked when \<open>touch\<close> succeeded.\<close>

definition conn_io ::
  "gerr option \<Rightarrow> gerr option \<Rightarrow> gotime \<Rightarrow> (nat \<times> gerr option) \<Rightarrow> idle_conn \<Rightarrow> (nat \<times> gerr option) \<times> idle_conn" where
  "conn_io read_err write_err now io c =
     (case touch read_err write_err now c of (Some e, c) \<Rightarrow> ((0, Some e), c) | (None, c) \<Rightarrow> (io, c))"

section \<open>guardedConn\<close>

text \<open>
  \<open>guardConnection\<close>: the wrapped connection is closed when the endpoint's context ends, until
  \<open>Close\<close> removes that hook and closes it itself.
\<close>

record guarded =
  gc_hooked :: bool
  gc_closed :: bool

definition guard_connection :: "bool \<Rightarrow> guarded" where
  "guard_connection cancelled = \<lparr>gc_hooked = \<not> cancelled, gc_closed = cancelled\<rparr>"

definition guard_cancel :: "guarded \<Rightarrow> guarded" where
  "guard_cancel g = (if gc_hooked g then \<lparr>gc_hooked = False, gc_closed = True\<rparr> else g)"

definition guard_close :: "guarded \<Rightarrow> guarded" where
  "guard_close g = \<lparr>gc_hooked = False, gc_closed = True\<rparr>"

section \<open>boundedListener\<close>

record tracked =
  tc_sock :: nat
  tc_once :: bool
  tc_closed :: bool

record listener =
  bl_limit :: int
  bl_idle :: duration
  bl_heap :: "tracked list"      \<comment> \<open>every \<open>trackedConn\<close> ever made\<close>
  bl_conns :: "nat list"         \<comment> \<open>the keys of \<open>connections\<close>\<close>
  bl_refused :: "(nat \<times> string) list"   \<comment> \<open>sockets refused, with what they were sent\<close>

definition new_bounded_listener :: "int \<Rightarrow> duration \<Rightarrow> listener" where
  "new_bounded_listener limit idle =
     \<lparr>bl_limit = limit, bl_idle = idle, bl_heap = [], bl_conns = [], bl_refused = []\<rparr>"

text \<open>The answer to a connection over the limit; lines end in CR LF.\<close>

definition crlf :: string where
  "crlf = map char_of [13, 10 :: nat]"

definition busy_reply :: string where
  "busy_reply = ''HTTP/1.1 503 Service Unavailable'' @ crlf @ ''Connection: close'' @ crlf @
     ''Content-Length: 0'' @ crlf @ ''Retry-After: 10'' @ crlf @ crlf"

text \<open>\<open>trackedConn.Close\<close>.\<close>

definition tracked_close :: "nat \<Rightarrow> listener \<Rightarrow> listener" where
  "tracked_close c l =
     (let t = bl_heap l ! c;
          l = l\<lparr>bl_heap := (bl_heap l)[c := t\<lparr>tc_closed := True, tc_once := True\<rparr>]\<rparr>
      in if tc_once t then l else l\<lparr>bl_conns := filter (\<lambda>x. x \<noteq> c) (bl_conns l)\<rparr>)"

text \<open>
  \<open>Accept\<close>: the answers of the wrapped listener in order; \<open>None\<close> when they are used up and it still
  waits. The result is its error, or the tracked connection.
\<close>

fun accept :: "(gerr + nat) list \<Rightarrow> listener \<Rightarrow> (gerr + nat) option \<times> listener" where
  "accept [] l = (None, l)"
| "accept (Inl e # rest) l = (Some (Inl e), l)"
| "accept (Inr sock # rest) l =
     (if int (length (bl_conns l)) < bl_limit l
      then (Some (Inr (length (bl_heap l))),
            l\<lparr>bl_heap := bl_heap l @ [\<lparr>tc_sock = sock, tc_once = False, tc_closed = False\<rparr>],
              bl_conns := bl_conns l @ [length (bl_heap l)]\<rparr>)
      else accept rest (l\<lparr>bl_refused := bl_refused l @ [(sock, busy_reply)]\<rparr>))"

text \<open>\<open>closeConnections\<close>: the keys are copied first, then each is closed.\<close>

definition close_connections :: "listener \<Rightarrow> listener" where
  "close_connections l = fold tracked_close (bl_conns l) l"

datatype bl_op =
    Bl_Accept "(gerr + nat) list"
  | Bl_Close nat
  | Bl_Close_All

fun bl_exec :: "bl_op \<Rightarrow> listener \<Rightarrow> listener option" where
  "bl_exec (Bl_Accept answers) l = Some (snd (accept answers l))"
| "bl_exec (Bl_Close c) l = (if c < length (bl_heap l) then Some (tracked_close c l) else None)"
| "bl_exec Bl_Close_All l = Some (close_connections l)"

fun bl_run :: "bl_op list \<Rightarrow> listener \<Rightarrow> listener option" where
  "bl_run [] l = Some l"
| "bl_run (op # ops) l = Option.bind (bl_exec op l) (bl_run ops)"

section \<open>The invariant of the listener\<close>

definition listener_ok :: "listener \<Rightarrow> bool" where
  "listener_ok l \<longleftrightarrow> distinct (bl_conns l) \<and>
     set (bl_conns l) = {c. c < length (bl_heap l) \<and> \<not> tc_once (bl_heap l ! c)} \<and>
     (\<forall>c < length (bl_heap l). tc_closed (bl_heap l ! c) = tc_once (bl_heap l ! c)) \<and>
     int (length (bl_conns l)) \<le> max 0 (bl_limit l)"

lemma listener_new: "listener_ok (new_bounded_listener limit idle)"
  by (simp add: listener_ok_def new_bounded_listener_def)

lemma listener_accept: "listener_ok l \<Longrightarrow> listener_ok (snd (accept answers l))"
proof (induction answers l rule: accept.induct)
  case (3 sock rest l)
  show ?case
  proof (cases "int (length (bl_conns l)) < bl_limit l")
    case True
    let ?n = "length (bl_heap l)"
    have "{c. c < Suc ?n \<and> \<not> tc_once ((bl_heap l @ [\<lparr>tc_sock = sock, tc_once = False, tc_closed = False\<rparr>]) ! c)}
        = insert ?n {c. c < ?n \<and> \<not> tc_once (bl_heap l ! c)}"
      by (auto simp: nth_append less_Suc_eq)
    moreover have "?n \<notin> set (bl_conns l)" using "3.prems" by (auto simp: listener_ok_def)
    ultimately show ?thesis
      using True "3.prems" by (auto simp: listener_ok_def nth_append less_Suc_eq)
  next
    case False
    have "listener_ok (l\<lparr>bl_refused := bl_refused l @ [(sock, busy_reply)]\<rparr>)"
      using "3.prems" by (simp add: listener_ok_def)
    with False "3.IH" show ?thesis by simp
  qed
qed simp_all

lemma listener_close:
  assumes "listener_ok l" and "c < length (bl_heap l)"
  shows "listener_ok (tracked_close c l)"
proof (cases "tc_once (bl_heap l ! c)")
  case True
  with assms show ?thesis
    by (auto simp: listener_ok_def tracked_close_def Let_def nth_update_if split: if_splits)
next
  case False
  have "int (length (filter (\<lambda>x. x \<noteq> c) (bl_conns l))) \<le> int (length (bl_conns l))" by simp
  also have "\<dots> \<le> max 0 (bl_limit l)" using assms(1) by (simp add: listener_ok_def)
  finally show ?thesis
    using False assms by (auto simp: listener_ok_def tracked_close_def Let_def nth_update_if split: if_splits)
qed

lemma close_heap [simp]:
  "length (bl_heap (tracked_close c l)) = length (bl_heap l)" "bl_limit (tracked_close c l) = bl_limit l"
  by (simp_all add: tracked_close_def Let_def)

lemma listener_close_all:
  assumes "listener_ok l" and "\<forall>c \<in> set cs. c < length (bl_heap l)"
  shows "listener_ok (fold tracked_close cs l) \<and> length (bl_heap (fold tracked_close cs l)) = length (bl_heap l) \<and>
    bl_limit (fold tracked_close cs l) = bl_limit l \<and>
    set (bl_conns (fold tracked_close cs l)) = set (bl_conns l) - set cs"
  using assms
proof (induction cs arbitrary: l)
  case (Cons c cs)
  have ok: "listener_ok (tracked_close c l)" using Cons.prems listener_close by simp
  have "set (bl_conns (tracked_close c l)) = set (bl_conns l) - {c}"
    using Cons.prems by (auto simp: tracked_close_def Let_def listener_ok_def)
  with Cons.IH [OF ok] Cons.prems(2) show ?case by auto
qed simp

lemma close_connections_all:
  assumes "listener_ok l"
  shows "listener_ok (close_connections l) \<and> bl_conns (close_connections l) = [] \<and>
    bl_limit (close_connections l) = bl_limit l \<and>
    (\<forall>c < length (bl_heap l). tc_closed (bl_heap (close_connections l) ! c))"
proof -
  have "\<forall>c \<in> set (bl_conns l). c < length (bl_heap l)" using assms by (auto simp: listener_ok_def)
  note all = listener_close_all [OF assms this]
  then have ok: "listener_ok (close_connections l)" and none: "bl_conns (close_connections l) = []"
    by (auto simp: close_connections_def)
  have "tc_closed (bl_heap (close_connections l) ! c)" if "c < length (bl_heap l)" for c
    using ok none that all by (auto simp: listener_ok_def close_connections_def)
  with ok none all show ?thesis by (simp add: close_connections_def)
qed

lemma accept_limit [simp]: "bl_limit (snd (accept answers l)) = bl_limit l"
  by (induction answers l rule: accept.induct) auto

lemma listener_exec:
  "bl_exec op l = Some l' \<Longrightarrow> listener_ok l \<Longrightarrow> listener_ok l' \<and> bl_limit l' = bl_limit l"
  by (cases op) (auto simp: listener_accept listener_close dest: close_connections_all split: if_splits)

lemma listener_run:
  "bl_run ops l = Some l' \<Longrightarrow> listener_ok l \<Longrightarrow> listener_ok l' \<and> bl_limit l' = bl_limit l"
proof (induction ops arbitrary: l)
  case (Cons op ops)
  then obtain l1 where "bl_exec op l = Some l1" "bl_run ops l1 = Some l'" by (auto elim: bind_eq_SomeE)
  with Cons.IH Cons.prems(2) listener_exec show ?case by metis
qed simp

section \<open>Properties\<close>

text \<open>
  Claim C37. The number of accepted connections that are still open never exceeds the limit, however
  accepting, closing (also twice) and shutting down interleave; the map holds exactly the
  open ones, and after \<open>closeConnections\<close> every connection accepted so far is closed.
\<close>

theorem listener_bound:
  assumes "bl_run ops (new_bounded_listener limit idle) = Some l" and "0 \<le> limit"
  shows "card {c. c < length (bl_heap l) \<and> \<not> tc_closed (bl_heap l ! c)} \<le> nat limit \<and>
    set (bl_conns l) = {c. c < length (bl_heap l) \<and> \<not> tc_closed (bl_heap l ! c)} \<and>
    (\<forall>c < length (bl_heap l). tc_closed (bl_heap (close_connections l) ! c))"
proof -
  have ok: "listener_ok l" and lim: "bl_limit l = limit"
    using listener_run [OF assms(1) listener_new] by (simp_all add: new_bounded_listener_def)
  have eq: "set (bl_conns l) = {c. c < length (bl_heap l) \<and> \<not> tc_closed (bl_heap l ! c)}"
    using ok by (auto simp: listener_ok_def)
  have "card (set (bl_conns l)) = length (bl_conns l)"
    using ok unfolding listener_ok_def by (blast intro: distinct_card)
  also have "\<dots> \<le> nat limit" using ok lim assms(2) unfolding listener_ok_def by linarith
  finally show ?thesis using eq close_connections_all [OF ok] by simp
qed

theorem listener_bound_witness:
  "\<exists>l. bl_run [Bl_Accept [Inr 5], Bl_Accept [Inr 6, Inr 7, Inl Ctx_Canceled], Bl_Close 0, Bl_Close 0, Bl_Accept [Inr 8]]
      (new_bounded_listener 1 30) = Some l \<and> map fst (bl_refused l) = [6, 7] \<and>
    card {c. c < length (bl_heap l) \<and> \<not> tc_closed (bl_heap l ! c)} \<le> 1"
proof -
  let ?ops = "[Bl_Accept [Inr 5], Bl_Accept [Inr 6, Inr 7, Inl Ctx_Canceled], Bl_Close 0, Bl_Close 0,
    Bl_Accept [Inr 8]]"
  obtain l where l: "bl_run ?ops (new_bounded_listener 1 30) = Some l" and r: "map fst (bl_refused l) = [6, 7]"
    by (simp add: new_bounded_listener_def tracked_close_def Let_def)
  from listener_bound [OF l] l r show ?thesis by (intro exI [of _ l]) simp
qed

text \<open>
  Every byte moved in one direction refreshes the deadline of both: whenever the socket is
  really asked to read or write, both of its deadlines are the idle timeout from now, or the
  explicit limit of that direction if it is earlier. A limit that was set is never exceeded, and
  when setting a deadline fails nothing is read or written.
\<close>

theorem idle_deadlines:
  assumes "conn_io read_err write_err now io c = (r, c')" and "now = At t"
  shows "(read_err = None \<and> write_err = None \<longrightarrow> r = io \<and>
      ic_read_deadline c' = earlier (At (t + ic_timeout c)) (ic_read_limit c) \<and>
      ic_write_deadline c' = earlier (At (t + ic_timeout c)) (ic_write_limit c) \<and>
      ic_read_deadline c' \<le> At (t + ic_timeout c) \<and> ic_write_deadline c' \<le> At (t + ic_timeout c) \<and>
      (ic_read_limit c \<noteq> Zero_Time \<longrightarrow> ic_read_deadline c' \<le> ic_read_limit c) \<and>
      (ic_write_limit c \<noteq> Zero_Time \<longrightarrow> ic_write_deadline c' \<le> ic_write_limit c)) \<and>
    (read_err \<noteq> None \<or> write_err \<noteq> None \<longrightarrow> fst r = 0 \<and> snd r \<noteq> None) \<and>
    ic_read_limit c' = ic_read_limit c \<and> ic_write_limit c' = ic_write_limit c"
  using assms
  by (auto simp: conn_io_def touch_def sock_read_deadline_def sock_write_deadline_def earlier_def Let_def
      split: option.splits if_splits)

theorem idle_deadlines_witness:
  "\<exists>c. conn_io None None (At 100) (3, None) (snd (set_read_deadline None (At 110) (new_idle 30 Zero_Time Zero_Time)))
      = ((3, None), c) \<and> ic_read_deadline c = At 110 \<and> ic_write_deadline c = At 130"
proof -
  let ?c = "snd (set_read_deadline None (At 110) (new_idle 30 Zero_Time Zero_Time))"
  have f: "ic_read_limit ?c = At 110" "ic_write_limit ?c = Zero_Time" "ic_timeout ?c = 30"
    by (simp_all add: set_read_deadline_def new_idle_def sock_read_deadline_def)
  obtain r c where e: "conn_io None None (At 100) (3, None) ?c = (r, c)" by (metis prod.collapse)
  from idle_deadlines [OF e refl] f e show ?thesis
    by (intro exI [of _ c]) (auto simp: earlier_def)
qed

end
