(* ===== verification/Control.thy ===== *)
theory Control
  imports GoStrings
begin

text \<open>
  The client of Tor's control protocol, \<open>internal/app/control.go\<close>: the reader that separates
  replies from asynchronous events, and the commands, of which one runs at a time. The connection is not
  under \<open>src/\<close>: the reader is given the lines \<open>bufio.Scanner\<close> delivers, and what a
  write answers is an argument.
\<close>

section \<open>The reader\<close>

definition newline :: char where "newline = char_of (10::nat)"

definition max_block :: nat where "max_block = 4 * 1024 * 1024"

text \<open>The reply being collected: \<open>reply\<close> and \<open>total\<close> of \<open>readLoop\<close>.\<close>

record reply_acc =
  ra_code :: int
  ra_lines :: "string list"
  ra_total :: nat

definition no_reply :: reply_acc where
  "no_reply = \<lparr>ra_code = 0, ra_lines = [], ra_total = 0\<rparr>"

text \<open>Code, separator and body of a line; \<open>None\<close> is a line that ends the reader.\<close>

definition split_line :: "string \<Rightarrow> (int \<times> char \<times> string) option" where
  "split_line line =
     (if length line < 4 then None
      else (case atoi (take 3 line) of
              (n, Some e) \<Rightarrow> None
            | (n, None) \<Rightarrow>
                if line ! 3 \<noteq> CHR '' '' \<and> line ! 3 \<noteq> CHR ''-'' \<and> line ! 3 \<noteq> CHR ''+'' then None
                else Some (n, line ! 3, drop 4 line)))"

text \<open>The lines of a data block, up to the line with a single dot: the body and the lines after it.\<close>

fun read_block :: "string \<Rightarrow> string list \<Rightarrow> (string \<times> string list) option" where
  "read_block b [] = None"
| "read_block b (v # rest) =
     (if v = ''.'' then Some (b, rest)
      else let v = (if has_prefix v ''..'' then drop 1 v else v)
           in if length b + length v > max_block then None
              else read_block (b @ newline # v) rest)"

datatype reader_out =
    Out_Event string
  | Out_Reply int "string list"

text \<open>
  One turn of the loop: \<open>None\<close> closes the connection, otherwise what it sends to a channel, the
  reply being collected and the lines that are left.
\<close>

definition read_unit ::
  "reply_acc \<Rightarrow> string \<Rightarrow> string list \<Rightarrow> (reader_out option \<times> reply_acc \<times> string list) option" where
  "read_unit acc line rest =
     (case split_line line of
        None \<Rightarrow> None
      | Some (code, sep, body) \<Rightarrow>
          (case (if sep = CHR ''+'' then read_block body rest else Some (body, rest)) of
             None \<Rightarrow> None
           | Some (body, rest) \<Rightarrow>
               if code = 650 then Some (Some (Out_Event body), acc, rest)
               else if ra_code acc \<noteq> 0 \<and> ra_code acc \<noteq> code then None
               else
                 let acc = \<lparr>ra_code = code, ra_lines = ra_lines acc @ [body],
                            ra_total = ra_total acc + length body\<rparr>
                 in if ra_total acc > max_block then None
                    else if sep = CHR '' '' then Some (Some (Out_Reply code (ra_lines acc)), no_reply, rest)
                    else Some (None, acc, rest)))"

lemma read_block_length: "read_block b ls = Some (b', rest) \<Longrightarrow> length rest < length ls"
  by (induction b ls rule: read_block.induct) (auto simp: Let_def split: if_splits)

lemma read_unit_length:
  "read_unit acc line rest = Some (out, acc', rest') \<Longrightarrow> length rest' \<le> length rest"
  by (auto simp: read_unit_def Let_def split: option.splits if_splits dest!: read_block_length)

text \<open>
  The whole loop: what is sent to the channels until the connection is closed, by the reader or
  because the lines end.
\<close>

function read_loop :: "reply_acc \<Rightarrow> string list \<Rightarrow> reader_out list" where
  "read_loop acc [] = []"
| "read_loop acc (line # rest) =
     (case read_unit acc line rest of
        None \<Rightarrow> []
      | Some (out, acc', rest') \<Rightarrow>
          (case out of None \<Rightarrow> [] | Some x \<Rightarrow> [x]) @ read_loop acc' rest')"
  by pat_completeness auto
termination
proof (relation "measure (\<lambda>(acc, ls). length ls)")
  fix acc line rest x out y acc' rest'
  assume "read_unit acc line rest = Some x" "(out, y) = x" "(acc', rest') = y"
  then show "((acc', rest'), acc, line # rest) \<in> measure (\<lambda>(acc, ls). length ls)"
    using read_unit_length by fastforce
qed simp

text \<open>
  The reader with its two channels: \<open>room k\<close> says whether the \<open>k\<close>-th send finds room in its channel. An
  event that finds the channel of 256 events full ends the loop at once; a reply waits for room,
  and never finds it when \<open>done\<close> is closed first. Both close the connection, and nothing
  after that is sent.
\<close>

fun sends :: "(nat \<Rightarrow> bool) \<Rightarrow> nat \<Rightarrow> reader_out list \<Rightarrow> reader_out list" where
  "sends room k [] = []"
| "sends room k (x # xs) = (if room k then x # sends room (Suc k) xs else [])"

definition reader_run :: "(nat \<Rightarrow> bool) \<Rightarrow> string list \<Rightarrow> reader_out list" where
  "reader_run room lines = sends room 0 (read_loop no_reply lines)"

section \<open>Commands\<close>

text \<open>The bytes a command puts on the connection; a command with a line break is refused.\<close>

definition command_bytes :: "string \<Rightarrow> string option" where
  "command_bytes cmd =
     (if contains_any cmd [char_of (13::nat), newline] then None
      else Some (cmd @ [char_of (13::nat), newline]))"

text \<open>
  The connection with the two channels a command uses: \<open>commands\<close> (free or held),
  \<open>replies\<close> (room for one), and \<open>done\<close>. \<open>cc_sent\<close> are the commands written so far and
  \<open>cc_answers\<close> the replies Tor sent so far; \<open>cc_returned\<close> records which reply
  each finished command returned.
\<close>

record reply =
  rp_code :: int
  rp_lines :: "string list"

record connection =
  cc_held :: bool
  cc_waiting :: bool
  cc_queue :: "reply list"
  cc_done :: bool
  cc_sent :: "string list"
  cc_answers :: "reply list"
  cc_returned :: "(string \<times> reply) list"

definition new_connection :: connection where
  "new_connection = \<lparr>cc_held = False, cc_waiting = False, cc_queue = [], cc_done = False, cc_sent = [],
     cc_answers = [], cc_returned = []\<rparr>"

definition close_connection :: "connection \<Rightarrow> connection" where
  "close_connection c = c\<lparr>cc_done := True\<rparr>"

text \<open>
  The command part that writes: it takes the slot of \<open>commands\<close>, sets the deadline and writes. An
  error of either closes the connection; on a connection that is closed they fail.
\<close>

definition command_write :: "gerr option \<Rightarrow> string \<Rightarrow> connection \<Rightarrow> connection" where
  "command_write err cmd c =
     (if cc_done c \<or> err \<noteq> None then close_connection c
      else c\<lparr>cc_held := True, cc_waiting := True, cc_sent := cc_sent c @ [cmd]\<rparr>)"

text \<open>The result of a command from the reply it received.\<close>

definition command_result :: "reply \<Rightarrow> gerr + string list" where
  "command_result r =
     (if rp_code r \<noteq> 250
      then Inl (Err_Text (''Tor control '' @ (if rp_code r < 0 then ''-'' else '''') @ itoa (nat \<bar>rp_code r\<bar>) @
                 '': '' @ join_with ''; '' (rp_lines r)))
      else Inr (rp_lines r))"

text \<open>
  The branches of the last \<open>select\<close> of \<open>command\<close>: a reply, the end of the context (which
  closes the connection, so that a late reply can never answer another command), or \<open>done\<close>.
\<close>

definition command_reply :: "connection \<Rightarrow> (gerr + string list) \<times> connection" where
  "command_reply c =
     (command_result (hd (cc_queue c)),
      c\<lparr>cc_queue := tl (cc_queue c), cc_held := False, cc_waiting := False,
        cc_returned := cc_returned c @ [(last (cc_sent c), hd (cc_queue c))]\<rparr>)"

definition command_expired :: "gerr \<Rightarrow> connection \<Rightarrow> (gerr + string list) \<times> connection" where
  "command_expired e c = (Inl e, (close_connection c)\<lparr>cc_held := False, cc_waiting := False\<rparr>)"

definition command_closed :: "connection \<Rightarrow> (gerr + string list) \<times> connection" where
  "command_closed c = (Inl Err_ControlClosed, c\<lparr>cc_held := False, cc_waiting := False\<rparr>)"

text \<open>The reader hands over a reply of Tor when the channel has room.\<close>

definition deliver_reply :: "reply \<Rightarrow> connection \<Rightarrow> connection" where
  "deliver_reply r c = c\<lparr>cc_queue := cc_queue c @ [r], cc_answers := cc_answers c @ [r]\<rparr>"

text \<open>
  All interleavings. The guard of \<open>conn_answer\<close> is what the protocol says of Tor: it answers
  commands, in their order, so it never has sent more replies than it has got commands.
\<close>

inductive conn_step :: "connection \<Rightarrow> connection \<Rightarrow> bool" where
  conn_write: "\<not> cc_held c \<Longrightarrow> command_bytes cmd \<noteq> None \<Longrightarrow> conn_step c (command_write err cmd c)"
| conn_answer: "length (cc_answers c) < length (cc_sent c) \<Longrightarrow> cc_queue c = [] \<Longrightarrow>
    conn_step c (deliver_reply r c)"
| conn_reply: "cc_waiting c \<Longrightarrow> cc_queue c \<noteq> [] \<Longrightarrow> conn_step c (snd (command_reply c))"
| conn_expired: "cc_waiting c \<Longrightarrow> conn_step c (snd (command_expired e c))"
| conn_closed: "cc_waiting c \<Longrightarrow> cc_done c \<Longrightarrow> conn_step c (snd (command_closed c))"
| conn_close: "conn_step c (close_connection c)"

end
