(* ===== verification/ControlProps.thy ===== *)
theory ControlProps
  imports Control
begin

text \<open>
  What the control connection guarantees: what Tor prints is what the reader delivers, a command is
  one line, and a command that returns a reply returns its own.
\<close>

section \<open>Printing a reply, as the protocol prescribes\<close>

text \<open>
  The lines of a reply before its last one, with events in between: \<open>It_Mid\<close> is a line with a dash, the
  data forms carry lines after the first, terminated by a dot, each leading dot doubled.
\<close>

datatype item =
    It_Mid string
  | It_Data string "string list"
  | It_Event string
  | It_Event_Data string "string list"

definition stuff :: "string \<Rightarrow> string" where
  "stuff l = (if has_prefix l ''.'' then CHR ''.'' # l else l)"

definition data_body :: "string \<Rightarrow> string list \<Rightarrow> string" where
  "data_body b ls = b @ concat (map (\<lambda>l. newline # l) ls)"

fun item_lines :: "nat \<Rightarrow> item \<Rightarrow> string list" where
  "item_lines code (It_Mid b) = [itoa code @ ''-'' @ b]"
| "item_lines code (It_Data b ls) = (itoa code @ ''+'' @ b) # map stuff ls @ [''.'']"
| "item_lines code (It_Event b) = [''650 '' @ b]"
| "item_lines code (It_Event_Data b ls) = (''650+'' @ b) # map stuff ls @ [''.'']"

fun item_event :: "item \<Rightarrow> reader_out list" where
  "item_event (It_Event b) = [Out_Event b]"
| "item_event (It_Event_Data b ls) = [Out_Event (data_body b ls)]"
| "item_event _ = []"

fun item_body :: "item \<Rightarrow> string list" where
  "item_body (It_Mid b) = [b]"
| "item_body (It_Data b ls) = [data_body b ls]"
| "item_body _ = []"

fun item_block :: "item \<Rightarrow> nat" where
  "item_block (It_Data b ls) = length (data_body b ls)"
| "item_block (It_Event_Data b ls) = length (data_body b ls)"
| "item_block _ = 0"

definition print_reply :: "nat \<Rightarrow> item list \<Rightarrow> string \<Rightarrow> string list" where
  "print_reply code items b = concat (map (item_lines code) items) @ [itoa code @ '' '' @ b]"

section \<open>Reading it back\<close>

lemma itoa3:
  assumes "100 \<le> n" and "n < 1000"
  shows "length (itoa n) = 3"
proof -
  have "length (itoa m) = 2" if "10 \<le> m" "m < 100" for m
    using that by (subst itoa.simps, subst itoa.simps) (simp add: div_less_mono)
  moreover have "10 \<le> n div 10" "n div 10 < 100" using assms by simp_all
  ultimately show ?thesis using assms by (subst itoa.simps) simp
qed

lemma split_line_code:
  assumes "100 \<le> n" and "n < 1000" and "sep = CHR '' '' \<or> sep = CHR ''-'' \<or> sep = CHR ''+''"
  shows "split_line (itoa n @ sep # b) = Some (int n, sep, b)"
proof -
  have l: "length (itoa n) = 3" by (rule itoa3 [OF assms(1,2)])
  then have t: "take 3 (itoa n @ sep # b) = itoa n" "(itoa n @ sep # b) ! 3 = sep" "drop 4 (itoa n @ sep # b) = b"
    by (simp_all add: nth_append)
  have "atoi (itoa n) = (int n, None)" by (rule atoi_itoa) (use assms in \<open>simp add: max_int64_def\<close>)
  with t l assms(3) show ?thesis by (simp add: split_line_def)
qed

lemma itoa_650: "itoa 650 = ''650''"
  by code_simp

lemma stuff_back:
  "stuff l \<noteq> ''.'' \<and> (if has_prefix (stuff l) ''..'' then drop 1 (stuff l) else stuff l) = l"
  by (cases l) (auto simp: stuff_def has_prefix_def)

lemma read_block_print:
  "length (data_body b ls) \<le> max_block + length ls \<Longrightarrow> length (data_body b ls) \<le> max_block \<Longrightarrow>
     read_block b (map stuff ls @ ''.'' # rest) = Some (data_body b ls, rest)"
proof (induction ls arbitrary: b)
  case Nil
  then show ?case by (simp add: data_body_def)
next
  case (Cons l ls)
  let ?b = "b @ newline # l"
  have e: "data_body ?b ls = data_body b (l # ls)" by (simp add: data_body_def)
  have "length b + length l \<le> max_block" using Cons.prems(2) by (simp add: data_body_def)
  moreover have "read_block ?b (map stuff ls @ ''.'' # rest) = Some (data_body ?b ls, rest)"
    using Cons.prems e by (intro Cons.IH) auto
  ultimately show ?case using stuff_back [of l] e by (simp add: Let_def)
qed

definition fits :: "item list \<Rightarrow> string \<Rightarrow> nat \<Rightarrow> bool" where
  "fits items b n \<longleftrightarrow> (\<forall>i \<in> set items. item_block i \<le> max_block) \<and>
     n + sum_list (map length (concat (map item_body items))) + length b \<le> max_block"

lemma read_item:
  assumes "100 \<le> n" and "n < 1000" and "n \<noteq> 650" and "item_block i \<le> max_block"
    and "ra_code acc = 0 \<or> ra_code acc = int n"
    and "ra_total acc + sum_list (map length (item_body i)) \<le> max_block"
  shows "read_loop acc (item_lines n i @ rest) = item_event i @
    read_loop \<lparr>ra_code = (if item_body i = [] then ra_code acc else int n), ra_lines = ra_lines acc @ item_body i,
      ra_total = ra_total acc + sum_list (map length (item_body i))\<rparr> rest"
proof (cases i)
  case (It_Mid b)
  have "split_line (itoa n @ ''-'' @ b) = Some (int n, CHR ''-'', b)"
    using split_line_code [OF assms(1,2)] by simp
  with It_Mid assms show ?thesis
    by (auto simp: read_unit_def Let_def)
next
  case (It_Data b ls)
  have "split_line (itoa n @ ''+'' @ b) = Some (int n, CHR ''+'', b)"
    using split_line_code [OF assms(1,2)] by simp
  moreover have "read_block b (map stuff ls @ ''.'' # rest) = Some (data_body b ls, rest)"
    using It_Data assms(4) by (intro read_block_print) auto
  ultimately show ?thesis
    using It_Data assms by (auto simp: read_unit_def Let_def)
next
  case (It_Event b)
  have "split_line (''650 '' @ b) = Some (650, CHR '' '', b)"
    using split_line_code [of 650 "CHR '' ''" b] itoa_650 by simp
  with It_Event show ?thesis
    by (cases acc) (simp add: read_unit_def)
next
  case (It_Event_Data b ls)
  have "split_line (''650+'' @ b) = Some (650, CHR ''+'', b)"
    using split_line_code [of 650 "CHR ''+''" b] itoa_650 by simp
  moreover have "read_block b (map stuff ls @ ''.'' # rest) = Some (data_body b ls, rest)"
    using It_Event_Data assms(4) by (intro read_block_print) auto
  ultimately show ?thesis
    using It_Event_Data by (cases acc) (simp add: read_unit_def)
qed

lemma read_items:
  assumes "100 \<le> n" and "n < 1000" and "n \<noteq> 650"
  shows "fits items b (ra_total acc) \<Longrightarrow> ra_code acc = 0 \<or> ra_code acc = int n \<Longrightarrow>
    read_loop acc (concat (map (item_lines n) items) @ [itoa n @ '' '' @ b] @ rest) =
      concat (map item_event items) @
      Out_Reply (int n) (ra_lines acc @ concat (map item_body items) @ [b]) # read_loop no_reply rest"
proof (induction items arbitrary: acc)
  case Nil
  have "split_line (itoa n @ '' '' @ b) = Some (int n, CHR '' '', b)"
    using split_line_code [OF assms(1,2)] by simp
  with Nil assms(3) show ?case by (simp add: read_unit_def Let_def fits_def)
next
  case (Cons i items)
  let ?acc = "\<lparr>ra_code = (if item_body i = [] then ra_code acc else int n), ra_lines = ra_lines acc @ item_body i,
      ra_total = ra_total acc + sum_list (map length (item_body i))\<rparr>"
  have i: "item_block i \<le> max_block" "ra_total acc + sum_list (map length (item_body i)) \<le> max_block"
    using Cons.prems(1) by (auto simp: fits_def)
  have r: "read_loop acc (item_lines n i @ rest) = item_event i @ read_loop ?acc rest" for rest
    by (rule read_item [OF assms i(1) Cons.prems(2) i(2)])
  have "fits items b (ra_total ?acc)" using Cons.prems(1) by (auto simp: fits_def)
  from Cons.IH [OF this] Cons.prems(2) r show ?case by (cases "item_body i = []") auto
qed

lemma sends_take: "\<exists>m. sends room k xs = take m xs \<and> (m < length xs \<longrightarrow> \<not> room (k + m))"
proof (induction xs arbitrary: k)
  case (Cons x xs)
  show ?case
  proof (cases "room k")
    case True
    obtain m where "sends room (Suc k) xs = take m xs" "m < length xs \<longrightarrow> \<not> room (Suc k + m)"
      using Cons.IH by blast
    with True show ?thesis by (intro exI [of _ "Suc m"]) simp
  next
    case False
    then show ?thesis by (intro exI [of _ 0]) simp
  qed
qed simp

text \<open>
  Claim C35. What Tor prints is what the reader delivers: a reply of any number of lines and data blocks, with events
  in between, arrives as those events, in order, and one reply with its code and bodies; reading
  then continues with what follows. The sizes stay below the limits of the reader. A channel without
  room ends the reader: what was delivered is an initial part, so no event or reply is ever
  skipped.
\<close>

theorem replies_parsed:
  assumes "100 \<le> n" and "n < 1000" and "n \<noteq> 650" and "fits items b 0"
  shows "read_loop no_reply (print_reply n items b @ rest) =
      concat (map item_event items) @ Out_Reply (int n) (concat (map item_body items) @ [b]) #
        read_loop no_reply rest \<and>
    (\<exists>m. reader_run room (print_reply n items b @ rest) = take m (read_loop no_reply (print_reply n items b @ rest)) \<and>
      (m < length (read_loop no_reply (print_reply n items b @ rest)) \<longrightarrow> \<not> room m))"
  using read_items [OF assms(1-3), of items b no_reply rest] assms(4)
    sends_take [of room 0 "read_loop no_reply (print_reply n items b @ rest)"]
  by (simp add: print_reply_def no_reply_def reader_run_def)

text \<open>The exchange of the first test of the repository: a data block with an event inside a reply.\<close>

definition demo_items :: "item list" where
  "demo_items = [It_Mid ''version=1'', It_Event ''CIRC 7 CLOSED'', It_Data ''info='' [''7 BUILT'', ''.dot'']]"

theorem replies_parsed_witness:
  "read_loop no_reply
     [''250-version=1'', ''650 CIRC 7 CLOSED'', ''250+info='', ''7 BUILT'', ''..dot'', ''.'', ''250 OK'', ''650 X'']
   = [Out_Event ''CIRC 7 CLOSED'',
      Out_Reply 250 [''version=1'', ''info='' @ newline # ''7 BUILT'' @ newline # ''.dot'', ''OK''], Out_Event ''X'']"
proof -
  have c: "itoa 250 = ''250''" by code_simp
  have p: "print_reply 250 demo_items ''OK'' @ [''650 X''] =
    [''250-version=1'', ''650 CIRC 7 CLOSED'', ''250+info='', ''7 BUILT'', ''..dot'', ''.'', ''250 OK'', ''650 X'']"
    by (simp add: print_reply_def demo_items_def stuff_def has_prefix_def c)
  have f: "fits demo_items ''OK'' 0" by (simp add: fits_def demo_items_def data_body_def max_block_def)
  have x: "read_loop no_reply [''650 X''] = [Out_Event ''X'']"
    using split_line_code [of 650 "CHR '' ''" "''X''"] itoa_650 by (simp add: read_unit_def)
  from conjunct1 [OF replies_parsed [OF _ _ _ f, of 250 "[''650 X'']" "\<lambda>_. True"]] show ?thesis
    unfolding p x by (simp add: demo_items_def data_body_def)
qed

section \<open>Commands and their replies\<close>

text \<open>Each finished command returned the answer with its own number.\<close>

definition paired :: "(string \<times> reply) list \<Rightarrow> reply list \<Rightarrow> string list \<Rightarrow> bool" where
  "paired rs as ss \<longleftrightarrow> (\<forall>(cmd, r) \<in> set rs. \<exists>k < length as. k < length ss \<and> ss ! k = cmd \<and> as ! k = r)"

lemma paired_grows: "paired rs as ss \<Longrightarrow> paired rs (as @ xs) (ss @ ys)"
  unfolding paired_def
proof clarify
  fix cmd r
  assume all: "\<forall>(cmd, r) \<in> set rs. \<exists>k < length as. k < length ss \<and> ss ! k = cmd \<and> as ! k = r"
    and mem: "(cmd, r) \<in> set rs"
  from bspec [OF all mem] obtain k where "k < length as" "k < length ss" "ss ! k = cmd" "as ! k = r"
    by auto
  then show "\<exists>k < length (as @ xs). k < length (ss @ ys) \<and> (ss @ ys) ! k = cmd \<and> (as @ xs) ! k = r"
    by (intro exI [of _ k]) (simp add: nth_append)
qed

lemma paired_last:
  assumes "paired rs as ss" and "length as = length ss" and "ss \<noteq> []"
  shows "paired (rs @ [(last ss, last as)]) as ss"
proof -
  let ?k = "length ss - 1"
  have ne: "as \<noteq> []" using assms(2,3) by (metis length_0_conv)
  have "?k < length ss" using assms(3) by (metis diff_less length_greater_0_conv less_numeral_extra(1))
  moreover have "ss ! ?k = last ss" by (rule last_conv_nth [OF assms(3), symmetric])
  moreover have "as ! ?k = last as" using last_conv_nth [OF ne] assms(2) by metis
  ultimately have "\<exists>k < length as. k < length ss \<and> ss ! k = last ss \<and> as ! k = last as"
    unfolding assms(2) by blast
  then show ?thesis
    using assms(1) unfolding paired_def set_append ball_Un by simp
qed

definition conn_ok :: "connection \<Rightarrow> bool" where
  "conn_ok c \<longleftrightarrow> cc_held c = cc_waiting c \<and>
     (\<forall>cmd \<in> set (cc_sent c). command_bytes cmd \<noteq> None) \<and>
     paired (cc_returned c) (cc_answers c) (cc_sent c) \<and>
     (cc_held c \<longrightarrow> cc_sent c \<noteq> [] \<and>
        length (cc_answers c) + (if cc_queue c = [] then 1 else 0) = length (cc_sent c) \<and>
        (cc_queue c \<noteq> [] \<longrightarrow> cc_queue c = [last (cc_answers c)])) \<and>
     (\<not> cc_held c \<and> \<not> cc_done c \<longrightarrow> length (cc_answers c) = length (cc_sent c) \<and> cc_queue c = [])"

lemma conn_ok_new: "conn_ok new_connection"
  by (simp add: conn_ok_def new_connection_def paired_def)

lemma conn_ok_step: "conn_step c c' \<Longrightarrow> conn_ok c \<Longrightarrow> conn_ok c'"
proof (induction rule: conn_step.induct)
  case (conn_write c cmd err)
  then show ?case
    using paired_grows [of "cc_returned c" "cc_answers c" "cc_sent c" "[]" "[cmd]"]
    by (auto simp: command_write_def close_connection_def conn_ok_def)
next
  case (conn_answer c r)
  then show ?case
    using paired_grows [of "cc_returned c" "cc_answers c" "cc_sent c" "[r]" "[]"]
    by (auto simp: deliver_reply_def conn_ok_def)
next
  case (conn_reply c)
  then have q: "cc_queue c = [last (cc_answers c)]" and n: "length (cc_answers c) = length (cc_sent c)"
    and held: "cc_sent c \<noteq> []" and p: "paired (cc_returned c) (cc_answers c) (cc_sent c)"
    by (auto simp: conn_ok_def)
  from paired_last [OF p n held] conn_reply q n show ?case
    by (simp add: command_reply_def conn_ok_def)
next
  case (conn_expired c e)
  then show ?case by (auto simp: command_expired_def close_connection_def conn_ok_def)
next
  case (conn_closed c)
  then show ?case by (auto simp: command_closed_def conn_ok_def)
next
  case (conn_close c)
  then show ?case by (auto simp: close_connection_def conn_ok_def)
qed

text \<open>
  Claim C20. A command that returns a reply returns Tor's reply to that very command, whatever commands expire,
  whatever closes the connection and however replies and time-outs race: the reply
  is the answer with the number the command has among the commands sent. And every command on the
  connection is one line: a line break cannot smuggle in a second one.
\<close>

theorem own_replies:
  assumes "conn_step\<^sup>*\<^sup>* new_connection c"
  shows "(\<forall>(cmd, r) \<in> set (cc_returned c). \<exists>k < length (cc_answers c). k < length (cc_sent c) \<and>
      cc_sent c ! k = cmd \<and> cc_answers c ! k = r) \<and>
    (\<forall>cmd \<in> set (cc_sent c). newline \<notin> set cmd \<and> char_of (13::nat) \<notin> set cmd)"
proof -
  from assms have "conn_ok c"
    by (induction rule: rtranclp_induct) (auto intro: conn_ok_new conn_ok_step)
  then have p: "paired (cc_returned c) (cc_answers c) (cc_sent c)"
    and b: "\<forall>cmd \<in> set (cc_sent c). command_bytes cmd \<noteq> None"
    by (simp_all add: conn_ok_def)
  have "\<forall>cmd \<in> set (cc_sent c). newline \<notin> set cmd \<and> char_of (13::nat) \<notin> set cmd"
    using b by (auto simp: command_bytes_def contains_any_def list_ex_iff)
  with p show ?thesis unfolding paired_def by (rule conjI)
qed

text \<open>Two commands; the first expires before its answer, which then arrives on a closed connection.\<close>

theorem own_replies_witness:
  "\<exists>c. conn_step\<^sup>*\<^sup>* new_connection c \<and> cc_sent c = [''AUTHENTICATE'', ''SETEVENTS STREAM CIRC''] \<and>
     cc_returned c = [(''AUTHENTICATE'', \<lparr>rp_code = 250, rp_lines = [''OK'']\<rparr>)] \<and> cc_done c \<and>
     (\<exists>k < length (cc_answers c). k < length (cc_sent c) \<and>
        cc_sent c ! k = ''AUTHENTICATE'' \<and> cc_answers c ! k = \<lparr>rp_code = 250, rp_lines = [''OK'']\<rparr>)"
proof -
  let ?r = "\<lparr>rp_code = 250, rp_lines = [''OK'']\<rparr>" and ?q = "\<lparr>rp_code = 251, rp_lines = [''late'']\<rparr>"
  let ?c1 = "command_write None ''AUTHENTICATE'' new_connection"
  let ?c3 = "snd (command_reply (deliver_reply ?r ?c1))"
  let ?c4 = "command_write None ''SETEVENTS STREAM CIRC'' ?c3"
  let ?c6 = "deliver_reply ?q (snd (command_expired Ctx_DeadlineExceeded ?c4))"
  have b: "command_bytes ''AUTHENTICATE'' \<noteq> None" "command_bytes ''SETEVENTS STREAM CIRC'' \<noteq> None"
    by code_simp+
  note d = command_write_def command_reply_def deliver_reply_def command_expired_def close_connection_def
    new_connection_def
  have "conn_step new_connection ?c1" by (rule conn_write) (simp add: d, rule b)
  moreover have "conn_step ?c1 (deliver_reply ?r ?c1)" by (rule conn_answer) (simp_all add: d)
  moreover have "conn_step (deliver_reply ?r ?c1) ?c3" by (rule conn_reply) (simp_all add: d)
  moreover have "conn_step ?c3 ?c4" by (rule conn_write) (simp add: d, rule b)
  moreover have "conn_step ?c4 (snd (command_expired Ctx_DeadlineExceeded ?c4))"
    by (rule conn_expired) (simp add: d)
  moreover have "conn_step (snd (command_expired Ctx_DeadlineExceeded ?c4)) ?c6"
    by (rule conn_answer) (simp_all add: d)
  ultimately have s: "conn_step\<^sup>*\<^sup>* new_connection ?c6"
    by (meson converse_rtranclp_into_rtranclp rtranclp.rtrancl_refl)
  have "(''AUTHENTICATE'', ?r) \<in> set (cc_returned ?c6)" by (simp add: d)
  with conjunct1 [OF own_replies [OF s]] have "\<exists>k < length (cc_answers ?c6). k < length (cc_sent ?c6) \<and>
      cc_sent ?c6 ! k = ''AUTHENTICATE'' \<and> cc_answers ?c6 ! k = ?r"
    by (auto dest: bspec)
  with s show ?thesis by (intro exI [of _ ?c6]) (simp add: d)
qed

end
