(* ===== verification/Session.thy ===== *)
theory Session
  imports Control Pool
begin

text \<open>
  \<open>torSession.events\<close> of \<open>internal/app/tor.go\<close>: the loop that attaches streams to the
  verified circuit. The commands it sends are values of a datatype with their text; what
  \<open>ATTACHSTREAM\<close> answers and the endpoint that is current at each event are arguments.
\<close>

section \<open>The generation tag of a stream\<close>

definition is_hex :: "char \<Rightarrow> bool" where
  "is_hex c \<longleftrightarrow> is_digit c \<or> (97 \<le> (of_char c :: nat) \<and> (of_char c :: nat) \<le> 102)"

definition dquote :: char where "dquote = char_of (34::nat)"

definition user_prefix :: string where
  "user_prefix = ''SOCKS_USERNAME='' @ [dquote]"

text \<open>\<open>socksUserPattern\<close> where the key starts: a quoted hexadecimal tag, then a blank or the end.\<close>

definition token_at :: "string \<Rightarrow> string option" where
  "token_at s =
     (if has_prefix s user_prefix
      then let r = drop (length user_prefix) s;
               tok = takeWhile is_hex r;
               rest = drop (length tok) r
           in if tok \<noteq> [] \<and> rest \<noteq> [] \<and> hd rest = dquote \<and> (tl rest = [] \<or> hd (tl rest) = CHR '' '')
              then Some tok else None
      else None)"

fun token_after_blank :: "string \<Rightarrow> string option" where
  "token_after_blank [] = None"
| "token_after_blank (c # s) =
     (if c = CHR '' '' then (case token_at s of Some t \<Rightarrow> Some t | None \<Rightarrow> token_after_blank s)
      else token_after_blank s)"

text \<open>\<open>FindStringSubmatch\<close>: the leftmost match, at the start of the text or after a blank.\<close>

definition find_token :: "string \<Rightarrow> string option" where
  "find_token s = (case token_at s of Some t \<Rightarrow> Some t | None \<Rightarrow> token_after_blank s)"

section \<open>One event\<close>

definition is_internal_stream :: "string list \<Rightarrow> bool" where
  "is_internal_stream f \<longleftrightarrow>
     (length f \<ge> 5 \<and> has_prefix (f ! 4) ''(Tor_internal):'') \<or>
     list_ex (\<lambda>x. x = ''PURPOSE=DIR_FETCH'' \<or> x = ''PURPOSE=DIR_UPLOAD'' \<or> x = ''PURPOSE=DIRPORT_TEST'') f"

datatype session_act =
    Cancel_Endpoint nat
  | Attach_Stream string string
  | Close_Stream string
  | Close_Control

fun act_command :: "session_act \<Rightarrow> string option" where
  "act_command (Attach_Stream sid circuit) = Some (''ATTACHSTREAM '' @ sid @ '' '' @ circuit)"
| "act_command (Close_Stream sid) = Some (''CLOSESTREAM '' @ sid @ '' 1'')"
| "act_command _ = None"

text \<open>
  What is current when an event is handled: the endpoint (its address and fields, \<open>ep_cancelled\<close>
  being whether its context has ended) and the result of an \<open>ATTACHSTREAM\<close>.
\<close>

record session_env =
  se_current :: "(nat \<times> endpoint) option"
  se_attach :: "gerr option"

definition circuit_gone :: "string list \<Rightarrow> (nat \<times> endpoint) option \<Rightarrow> session_act list" where
  "circuit_gone f cur =
     (case cur of None \<Rightarrow> []
      | Some (a, ep) \<Rightarrow>
          if f ! 0 = ''CIRC'' \<and> f ! 1 = ep_circuit ep \<and> (f ! 2 = ''CLOSED'' \<or> f ! 2 = ''FAILED'')
          then [Cancel_Endpoint a] else [])"

text \<open>The \<open>switch\<close> on the status of a stream that is not Tor's own.\<close>

definition stream_event :: "session_env \<Rightarrow> string \<Rightarrow> string list \<Rightarrow> session_act list" where
  "stream_event env event f =
     (if f ! 2 = ''NEW'' \<or> f ! 2 = ''NEWRESOLVE''
      then (case se_current env of
              None \<Rightarrow> [Close_Stream (f ! 1)]
            | Some (a, ep) \<Rightarrow>
                if ep_cancelled ep \<or> find_token event \<noteq> Some (ep_token ep) then [Close_Stream (f ! 1)]
                else Attach_Stream (f ! 1) (ep_circuit ep) #
                  (if se_attach env = None then [] else [Close_Stream (f ! 1)]))
      else if f ! 2 = ''DETACHED'' then [Close_Stream (f ! 1)]
      else [])"

text \<open>
  The body of the loop: the actions, the streams known to be Tor's own, and whether the loop goes
  on. A stream identifier that is not a number closes the control connection and ends it.
\<close>

definition session_event ::
  "session_env \<Rightarrow> string list \<Rightarrow> string \<Rightarrow> session_act list \<times> string list \<times> bool" where
  "session_event env internal event =
     (let f = go_fields event in
      if length f < 3 then ([], internal, True)
      else
        let acts = circuit_gone f (se_current env) in
        if f ! 0 \<noteq> ''STREAM'' then (acts, internal, True)
        else
          let internal = (if is_internal_stream f then List.insert (f ! 1) internal else internal) in
          if f ! 1 \<in> set internal
          then (acts, if f ! 2 = ''CLOSED'' then removeAll (f ! 1) internal else internal, True)
          else if snd (parse_uint (f ! 1)) \<noteq> None then (acts @ [Close_Control], internal, False)
          else (acts @ stream_event env event f, internal, True))"

section \<open>The loop\<close>

text \<open>
  The events in the order they are read, each with what is current then. When the loop ends, for any
  reason, the endpoint that is current at that moment is cancelled.
\<close>

fun session_loop :: "(session_env \<times> string) list \<Rightarrow> string list \<Rightarrow> session_act list" where
  "session_loop [] internal = []"
| "session_loop ((env, event) # rest) internal =
     (case session_event env internal event of
        (acts, internal', go_on) \<Rightarrow> acts @ (if go_on then session_loop rest internal' else []))"

definition session_end :: "(nat \<times> endpoint) option \<Rightarrow> session_act list" where
  "session_end cur = (case cur of None \<Rightarrow> [] | Some (a, ep) \<Rightarrow> [Cancel_Endpoint a])"

definition session_run :: "(session_env \<times> string) list \<Rightarrow> (nat \<times> endpoint) option \<Rightarrow> session_act list" where
  "session_run events final = session_loop events [] @ session_end final"

end
