(* ===== verification/SessionProps.thy ===== *)
theory SessionProps
  imports Session
begin

text \<open>What reaches the verified circuit: only streams of the current generation, and every other stream is refused.\<close>

section \<open>Facts about one event\<close>

lemma parse_uint_digits:
  "parse_uint_loop n s = (m, None) \<Longrightarrow> list_all is_digit s"
  by (induction n s rule: parse_uint_loop.induct) (auto simp: Let_def split: if_splits)

lemma parse_uint_ok: "snd (parse_uint s) = None \<Longrightarrow> s \<noteq> [] \<and> list_all is_digit s"
  using parse_uint_digits [of 0 s "fst (parse_uint_loop 0 s)"]
  by (cases "parse_uint_loop 0 s") (auto simp: parse_uint_def split: if_splits)

text \<open>What an attachment in the actions of one event says of the event and of what is current.\<close>

definition verified :: "session_env \<Rightarrow> string \<Rightarrow> string \<Rightarrow> string \<Rightarrow> bool" where
  "verified env event sid circuit \<longleftrightarrow>
     (let f = go_fields event in
      3 \<le> length f \<and> f ! 0 = ''STREAM'' \<and> f ! 1 = sid \<and> (f ! 2 = ''NEW'' \<or> f ! 2 = ''NEWRESOLVE'') \<and>
      sid \<noteq> [] \<and> list_all is_digit sid \<and> \<not> is_internal_stream f \<and>
      (\<exists>a ep. se_current env = Some (a, ep) \<and> \<not> ep_cancelled ep \<and> circuit = ep_circuit ep \<and>
         find_token event = Some (ep_token ep)))"

lemma event_attach:
  assumes "session_event env internal event = (acts, internal', go_on)" and "Attach_Stream sid circuit \<in> set acts"
  shows "verified env event sid circuit"
proof -
  let ?f = "go_fields event"
  have gone: "Attach_Stream sid circuit \<notin> set (circuit_gone ?f (se_current env))"
    by (auto simp: circuit_gone_def split: option.splits)
  have n: "3 \<le> length ?f" and s: "?f ! 0 = ''STREAM''" and int: "\<not> is_internal_stream ?f"
    and num: "snd (parse_uint (?f ! 1)) = None" and st: "Attach_Stream sid circuit \<in> set (stream_event env event ?f)"
    using assms gone
    by (auto simp: session_event_def Let_def not_less split: if_splits)
  from st have "(?f ! 2 = ''NEW'' \<or> ?f ! 2 = ''NEWRESOLVE'') \<and> ?f ! 1 = sid \<and>
      (\<exists>a ep. se_current env = Some (a, ep) \<and> \<not> ep_cancelled ep \<and> circuit = ep_circuit ep \<and>
         find_token event = Some (ep_token ep))"
    by (auto simp: stream_event_def split: if_splits option.splits)
  with n s int parse_uint_ok [OF num] show ?thesis by (auto simp: verified_def Let_def)
qed

lemma loop_attach:
  "Attach_Stream sid circuit \<in> set (session_loop events internal) \<Longrightarrow>
     \<exists>(env, event) \<in> set events. verified env event sid circuit"
proof (induction events arbitrary: internal)
  case (Cons x rest)
  obtain env event where x: "x = (env, event)" by (cases x)
  obtain acts internal' go_on where e: "session_event env internal event = (acts, internal', go_on)"
    by (metis surj_pair)
  from Cons.prems x e consider "Attach_Stream sid circuit \<in> set acts"
    | "Attach_Stream sid circuit \<in> set (session_loop rest internal')"
    by (auto split: if_splits)
  then show ?case
  proof cases
    case 1
    with event_attach [OF e] x show ?thesis by auto
  next
    case 2
    with Cons.IH x show ?thesis by fastforce
  qed
qed simp

section \<open>Properties\<close>

text \<open>
  Claim C13. A stream is attached only to the verified circuit of the endpoint that is current, only while
  that endpoint is alive, only when it is new and carries this endpoint's tag, and never when it
  is one of Tor's own: a stream of an earlier generation, one without a tag and a detached one are never
  attached. Its identifier is a number, so the command is one line with the meaning it has.
\<close>

theorem streams_verified:
  assumes "Attach_Stream sid circuit \<in> set (session_run events final)"
  shows "(\<exists>(env, event) \<in> set events. verified env event sid circuit) \<and>
    (newline \<notin> set sid \<and> CHR '' '' \<notin> set sid)"
proof -
  have "Attach_Stream sid circuit \<in> set (session_loop events [])"
    using assms by (auto simp: session_run_def session_end_def split: option.splits)
  from loop_attach [OF this] obtain env event where e: "(env, event) \<in> set events"
    and v: "verified env event sid circuit"
    by blast
  have "list_all is_digit sid" using v by (auto simp: verified_def Let_def)
  moreover have "\<not> is_digit newline" "\<not> is_digit (CHR '' '')" by code_simp+
  ultimately have "newline \<notin> set sid \<and> CHR '' '' \<notin> set sid" by (auto simp: list_all_iff)
  with e v show ?thesis by auto
qed

definition demo_endpoint :: endpoint where
  "demo_endpoint = new_endpoint 1 ''1.1.1.1'' ''7'' ''ab12'' False"

definition demo_env :: session_env where
  "demo_env = \<lparr>se_current = Some (0, demo_endpoint), se_attach = None\<rparr>"

definition demo_new :: string where
  "demo_new = ''STREAM 21 NEW 0 example.com:80 SOCKS_USERNAME='' @ [dquote] @ ''ab12'' @ [dquote]"

definition demo_stale :: string where
  "demo_stale = ''STREAM 22 NEW 0 example.com:80 SOCKS_USERNAME='' @ [dquote] @ ''ff00'' @ [dquote]"

theorem streams_verified_witness:
  "session_run [(demo_env, demo_new), (demo_env, demo_stale), (demo_env, ''STREAM 21 DETACHED 7 x'')] None
     = [Attach_Stream ''21'' ''7'', Close_Stream ''22'', Close_Stream ''21''] \<and>
   (\<exists>(env, event) \<in> set [(demo_env, demo_new), (demo_env, demo_stale), (demo_env, ''STREAM 21 DETACHED 7 x'')].
      verified env event ''21'' ''7'')"
proof -
  let ?e = "[(demo_env, demo_new), (demo_env, demo_stale), (demo_env, ''STREAM 21 DETACHED 7 x'')]"
  have r: "session_run ?e None = [Attach_Stream ''21'' ''7'', Close_Stream ''22'', Close_Stream ''21'']"
    by code_simp
  then have "Attach_Stream ''21'' ''7'' \<in> set (session_run ?e None)" by simp
  from streams_verified [OF this] r show ?thesis by blast
qed

text \<open>
  Every event has its answer. A stream that is not Tor's own gets exactly one fate when it appears:
  it is attached, or it is closed, and closed too when attaching fails; a detached stream is
  closed, never retried elsewhere; the streams of Tor's directory traffic are left alone; and
  the death of the current circuit cancels its endpoint, at once.
\<close>

theorem streams_answered:
  assumes "session_event env internal event = (acts, internal', go_on)"
    and "f = go_fields event" and "3 \<le> length f"
  shows "(f ! 0 = ''STREAM'' \<and> f ! 1 \<notin> set internal \<and> \<not> is_internal_stream f \<and> snd (parse_uint (f ! 1)) = None \<longrightarrow>
      (f ! 2 = ''NEW'' \<or> f ! 2 = ''NEWRESOLVE'' \<longrightarrow>
         (\<exists>a ep. se_current env = Some (a, ep) \<and> \<not> ep_cancelled ep \<and> find_token event = Some (ep_token ep) \<and>
            acts = Attach_Stream (f ! 1) (ep_circuit ep) #
              (if se_attach env = None then [] else [Close_Stream (f ! 1)])) \<or>
         acts = [Close_Stream (f ! 1)]) \<and>
      (f ! 2 = ''DETACHED'' \<longrightarrow> acts = [Close_Stream (f ! 1)])) \<and>
    (f ! 0 = ''STREAM'' \<and> (f ! 1 \<in> set internal \<or> is_internal_stream f) \<longrightarrow> acts = [] \<and> go_on) \<and>
    (f ! 0 = ''CIRC'' \<and> (f ! 2 = ''CLOSED'' \<or> f ! 2 = ''FAILED'') \<longrightarrow>
      (\<forall>a ep. se_current env = Some (a, ep) \<and> ep_circuit ep = f ! 1 \<longrightarrow> acts = [Cancel_Endpoint a]))"
proof -
  have "circuit_gone f (se_current env) = []" if "f ! 0 = ''STREAM''"
    using that by (auto simp: circuit_gone_def split: option.splits)
  then show ?thesis
    using assms
    by (auto simp: session_event_def Let_def stream_event_def circuit_gone_def split: if_splits option.splits)
qed

theorem streams_answered_witness:
  "session_event demo_env [] ''CIRC 7 CLOSED REASON=FINISHED'' = ([Cancel_Endpoint 0], [], True)"
proof -
  let ?v = "''CIRC 7 CLOSED REASON=FINISHED''"
  have f: "go_fields ?v = [''CIRC'', ''7'', ''CLOSED'', ''REASON=FINISHED'']" by code_simp
  obtain acts internal' go_on where e: "session_event demo_env [] ?v = (acts, internal', go_on)"
    by (metis surj_pair)
  have "acts = [Cancel_Endpoint 0]"
    using streams_answered [OF e f [symmetric]]
    by (simp add: demo_env_def demo_endpoint_def new_endpoint_def)
  moreover have "internal' = [] \<and> go_on" using e by (simp add: session_event_def f)
  ultimately show ?thesis using e by simp
qed

end
