(* ===== verification/IPCheck.thy ===== *)
theory IPCheck
  imports GoNet
begin

text \<open>
  \<open>checkIP\<close> of \<open>internal/app/tor.go\<close>: the answer of the IP checker is accepted only as one
  public IPv4 address. The HTTP exchange is not under \<open>src/\<close>; its outcome is the argument. Of
  \<open>net/netip\<close> the parts that matter here are modelled: the parser of IPv4 addresses (an
  IPv6 address is never accepted, so that every text that is not IPv4 is the same to the code), the
  class of an address and its printed form.
\<close>

section \<open>netip.ParseAddr for IPv4\<close>

type_synonym ipv4 = "nat list"

definition dot :: char where "dot = CHR ''.''"

text \<open>
  \<open>parseIPv4Fields\<close>: \<open>prev\<close> is the byte before, \<open>digits\<close> the number of digits of
  the current octet, \<open>val\<close> its value and \<open>fs\<close> the octets read.
\<close>

fun parse_fields :: "char option \<Rightarrow> nat \<Rightarrow> nat \<Rightarrow> nat list \<Rightarrow> string \<Rightarrow> ipv4 option" where
  "parse_fields prev digits val fs [] = (if length fs < 3 then None else Some (fs @ [val]))"
| "parse_fields prev digits val fs (c # s) =
     (if is_digit c
      then if digits = 1 \<and> val = 0 then None
           else let val = val * 10 + digit_value c
                in if val > 255 then None else parse_fields (Some c) (digits + 1) val fs s
      else if c = dot
      then if prev = None \<or> s = [] \<or> prev = Some dot then None
           else if length fs = 3 then None
           else parse_fields (Some c) 0 0 (fs @ [val]) s
      else None)"

text \<open>\<open>ParseAddr\<close>: the first of dot, colon and percent sign decides the family.\<close>

fun first_special :: "string \<Rightarrow> char option" where
  "first_special [] = None"
| "first_special (c # s) =
     (if c = dot \<or> c = CHR '':'' \<or> c = CHR 0x25 then Some c else first_special s)"

definition parse_ipv4 :: "string \<Rightarrow> ipv4 option" where
  "parse_ipv4 s = (if first_special s = Some dot then parse_fields None 0 0 [] s else None)"

definition ipv4_string :: "ipv4 \<Rightarrow> string" where
  "ipv4_string fs = join_with [dot] (map itoa fs)"

definition octet :: "nat \<Rightarrow> ipv4 \<Rightarrow> nat" where "octet i fs = fs ! i"

definition is_global_unicast :: "ipv4 \<Rightarrow> bool" where
  "is_global_unicast fs \<longleftrightarrow>
     fs \<noteq> [0, 0, 0, 0] \<and> fs \<noteq> [255, 255, 255, 255] \<and> octet 0 fs \<noteq> 127 \<and>
     octet 0 fs div 16 \<noteq> 14 \<and> \<not> (octet 0 fs = 169 \<and> octet 1 fs = 254)"

definition is_private :: "ipv4 \<Rightarrow> bool" where
  "is_private fs \<longleftrightarrow> octet 0 fs = 10 \<or> (octet 0 fs = 172 \<and> octet 1 fs div 16 = 1) \<or>
     (octet 0 fs = 192 \<and> octet 1 fs = 168)"

section \<open>checkIP\<close>

text \<open>
  The outcome of the request: an error of building or sending it, or the status, the bytes of the body
  and the error of reading them.
\<close>

record http_result =
  hr_status :: nat
  hr_body :: string
  hr_read_err :: "gerr option"

definition check_ip :: "gerr + http_result \<Rightarrow> gerr + string" where
  "check_ip outcome =
     (case outcome of
        Inl e \<Rightarrow> Inl e
      | Inr r \<Rightarrow>
          if hr_status r \<noteq> 200 then Inl (Err_Text (''HTTP '' @ itoa (hr_status r)))
          else (case hr_read_err r of
                  Some e \<Rightarrow> Inl e
                | None \<Rightarrow>
                    (case parse_ipv4 (trim_space (take 65 (hr_body r))) of
                       Some ip \<Rightarrow>
                         if \<not> is_global_unicast ip \<or> is_private ip
                         then Inl (Err_Text ''IP checker must return one public IPv4 address as plain text'')
                         else Inr (ipv4_string ip)
                     | None \<Rightarrow> Inl (Err_Text ''IP checker must return one public IPv4 address as plain text''))))"

section \<open>The parser accepts exactly the canonical form\<close>

lemma dot_not_digit [simp]: "\<not> is_digit dot"
  by code_simp

text \<open>The text of the octet being read: nothing, or its canonical numeral.\<close>

definition octet_text :: "nat \<Rightarrow> nat \<Rightarrow> string" where
  "octet_text digits val = (if digits = 0 then [] else itoa val)"

lemma digit_char_of_value: "is_digit c \<Longrightarrow> digit_char (digit_value c) = c"
proof -
  assume "is_digit c"
  then have "48 \<le> (of_char c :: nat)" by (simp add: is_digit_def)
  then show ?thesis by (simp add: digit_char_def digit_value_def)
qed

lemma digit_value_less: "is_digit c \<Longrightarrow> digit_value c < 10"
  by (auto simp: is_digit_def digit_value_def)

lemma octet_text_step:
  assumes "is_digit c" and "\<not> (digits = 1 \<and> val = 0)" and "digits = 0 \<longrightarrow> val = 0" and "val = 0 \<longrightarrow> digits \<le> 1"
  shows "octet_text (digits + 1) (val * 10 + digit_value c) = octet_text digits val @ [c]"
proof (cases "digits = 0")
  case True
  with assms(3) have "val * 10 + digit_value c < 10" "val = 0" using digit_value_less [OF assms(1)] by auto
  then show ?thesis
    using True digit_char_of_value [OF assms(1)] by (simp add: octet_text_def) (subst itoa.simps, simp)
next
  case False
  with assms(2,4) have "val \<noteq> 0" by auto
  then have "\<not> val * 10 + digit_value c < 10" by simp
  moreover have "(val * 10 + digit_value c) div 10 = val" "(val * 10 + digit_value c) mod 10 = digit_value c"
    using digit_value_less [OF assms(1)] by simp_all
  ultimately show ?thesis
    using False digit_char_of_value [OF assms(1)] by (simp add: octet_text_def) (subst itoa.simps, simp)
qed

definition fields_text :: "nat list \<Rightarrow> string" where
  "fields_text fs = concat (map (\<lambda>f. itoa f @ [dot]) fs)"

lemma join_fields: "join_with [dot] (map itoa (fs @ [v])) = fields_text fs @ itoa v"
proof (induction fs)
  case Nil
  then show ?case by (simp add: fields_text_def)
next
  case (Cons f fs)
  then show ?case by (cases fs) (simp_all add: fields_text_def)
qed

lemma parse_fields_text:
  assumes "parse_fields prev digits val fs s = Some ip"
    and "digits = 0 \<longrightarrow> val = 0" and "val = 0 \<longrightarrow> digits \<le> 1" and "val \<le> 255" and "\<forall>f \<in> set fs. f \<le> 255"
    and "digits = 0 \<longleftrightarrow> prev = None \<or> prev = Some dot" and "digits = 0 \<and> prev \<noteq> None \<longrightarrow> s \<noteq> []"
    and "length fs \<le> 3" and "s = [] \<longrightarrow> digits \<noteq> 0"
  shows "ipv4_string ip = fields_text fs @ octet_text digits val @ s \<and> length ip = 4 \<and> (\<forall>f \<in> set ip. f \<le> 255)"
  using assms
proof (induction prev digits val fs s rule: parse_fields.induct)
  case (1 prev digits val fs)
  then have "ip = fs @ [val]" "length fs = 3" by (auto split: if_splits)
  with 1 show ?case
    using join_fields [of fs val] by (auto simp: ipv4_string_def octet_text_def)
next
  case (2 prev digits val fs c s)
  show ?case
  proof (cases "is_digit c")
    case True
    let ?v = "val * 10 + digit_value c"
    have ok: "\<not> (digits = 1 \<and> val = 0)" "?v \<le> 255" "parse_fields (Some c) (digits + 1) ?v fs s = Some ip"
      using "2.prems"(1) True by (auto simp: Let_def split: if_splits)
    have zero: "?v = 0 \<longrightarrow> digits + 1 \<le> 1" using ok(1) "2.prems"(3) by auto
    have ndot: "c \<noteq> dot" using True by auto
    from "2.IH"(1) [OF True ok(1) refl _ ok(3)] ok zero ndot "2.prems" octet_text_step [OF True ok(1)]
    show ?thesis by auto
  next
    case False
    with "2.prems"(1) have c: "c = dot" "prev \<noteq> None" "s \<noteq> []" "prev \<noteq> Some dot" "length fs \<noteq> 3"
      and p: "parse_fields (Some c) 0 0 (fs @ [val]) s = Some ip"
      by (auto split: if_splits)
    have "digits \<noteq> 0" using c "2.prems"(6) by auto
    then have t: "fields_text (fs @ [val]) = fields_text fs @ octet_text digits val @ [dot]"
      by (simp add: fields_text_def octet_text_def)
    from "2.IH"(2) [OF False c(1) _ c(5) p] c t "2.prems" show ?thesis
      by (auto simp: octet_text_def)
  qed
qed

lemma parse_ipv4_text:
  assumes "parse_ipv4 s = Some ip"
  shows "ipv4_string ip = s \<and> length ip = 4 \<and> (\<forall>f \<in> set ip. f \<le> 255)"
proof -
  have "s \<noteq> []" and p: "parse_fields None 0 0 [] s = Some ip"
    using assms by (auto simp: parse_ipv4_def split: if_splits)
  then show ?thesis using parse_fields_text [OF p] by (simp add: fields_text_def octet_text_def)
qed

section \<open>Properties\<close>

text \<open>
  Claim C38. An address the checker accepts is one IPv4 address that is global unicast in the sense of \<open>net/netip\<close> (not unspecified,
  broadcast, loopback, multicast or link-local) and not private, which is less than public (see \<open>ip_reserved_accepted\<close>); and its
  text is the canonical one: it is the trimmed answer itself, so two texts that are
  stored in the history never stand for the same address.
\<close>

theorem ip_canonical:
  assumes "check_ip (Inr r) = Inr text"
  shows "\<exists>ip. parse_ipv4 text = Some ip \<and> text = trim_space (take 65 (hr_body r)) \<and> hr_status r = 200 \<and>
    length ip = 4 \<and> (\<forall>f \<in> set ip. f \<le> 255) \<and> is_global_unicast ip \<and> \<not> is_private ip \<and>
    (\<forall>s. parse_ipv4 s = Some ip \<longrightarrow> s = text)"
proof -
  let ?s = "trim_space (take 65 (hr_body r))"
  obtain ip where ip: "parse_ipv4 ?s = Some ip" "is_global_unicast ip" "\<not> is_private ip"
    and t: "text = ipv4_string ip" and st: "hr_status r = 200"
    using assms by (auto simp: check_ip_def split: if_splits option.splits)
  note p = parse_ipv4_text [OF ip(1)]
  then have ts: "text = ?s" using t by simp
  have "\<forall>s. parse_ipv4 s = Some ip \<longrightarrow> s = text" using parse_ipv4_text t by blast
  with ip p ts st show ?thesis by (intro exI [of _ ip]) simp
qed

definition demo_answer :: "string \<Rightarrow> gerr + http_result" where
  "demo_answer body = Inr \<lparr>hr_status = 200, hr_body = body, hr_read_err = None\<rparr>"

theorem ip_canonical_witness:
  "check_ip (demo_answer (''8.8.8.8'' @ [char_of (10::nat)])) = Inr ''8.8.8.8'' \<and>
   parse_ipv4 ''8.8.8.8'' = Some [8, 8, 8, 8] \<and> is_global_unicast [8, 8, 8, 8]"
proof -
  let ?r = "\<lparr>hr_status = 200, hr_body = ''8.8.8.8'' @ [char_of (10::nat)], hr_read_err = None\<rparr>"
  have c: "check_ip (Inr ?r) = Inr ''8.8.8.8''" and p: "parse_ipv4 ''8.8.8.8'' = Some [8, 8, 8, 8]"
    by code_simp+
  from ip_canonical [OF c] p c show ?thesis by (auto simp: demo_answer_def)
qed

text \<open>
  The answers the tests of the repository reject, and addresses reserved for other uses that the
  checks let pass as public.
\<close>

lemma ip_rejected:
  "check_ip (demo_answer ''127.0.0.1'') = Inl (Err_Text ''IP checker must return one public IPv4 address as plain text'')"
  "check_ip (demo_answer ''10.0.0.1'') = Inl (Err_Text ''IP checker must return one public IPv4 address as plain text'')"
  "check_ip (demo_answer ''::1'') = Inl (Err_Text ''IP checker must return one public IPv4 address as plain text'')"
  "check_ip (demo_answer ''8.8.8.08'') = Inl (Err_Text ''IP checker must return one public IPv4 address as plain text'')"
  by code_simp+

lemma ip_reserved_accepted:
  "check_ip (demo_answer ''100.64.0.1'') = Inr ''100.64.0.1''"
  "check_ip (demo_answer ''0.1.2.3'') = Inr ''0.1.2.3''"
  "check_ip (demo_answer ''240.0.0.1'') = Inr ''240.0.0.1''"
  by code_simp+

end
