(* ===== verification/Paths.thy ===== *)
theory Paths
  imports GoStrings
begin

text \<open>
  The lexical operations of \<open>path/filepath\<close> on Unix that the sources use, and
  \<open>resetInstanceData\<close> of \<open>internal/app/tor.go\<close>, which removes the state of one instance.
\<close>

section \<open>filepath.Clean, Join, Abs and Dir\<close>

definition slash :: char where "slash = CHR ''/''"

text \<open>One component against the ones kept so far.\<close>

definition clean_step :: "bool \<Rightarrow> string list \<Rightarrow> string \<Rightarrow> string list" where
  "clean_step rooted kept c =
     (if c = '''' \<or> c = ''.'' then kept
      else if c = ''..''
      then (if kept \<noteq> [] \<and> last kept \<noteq> ''..'' then butlast kept else if rooted then kept else kept @ [''..''])
      else kept @ [c])"

definition is_abs :: "string \<Rightarrow> bool" where
  "is_abs path \<longleftrightarrow> path \<noteq> [] \<and> hd path = slash"

definition clean :: "string \<Rightarrow> string" where
  "clean path =
     (let comps = foldl (clean_step (is_abs path)) [] (split_on slash path);
          text = join_with [slash] comps
      in if is_abs path then slash # text else if text = [] then ''.'' else text)"

text \<open>\<open>Join\<close>: from the first element that is not empty.\<close>

definition path_join :: "string list \<Rightarrow> string" where
  "path_join elems =
     (case dropWhile (\<lambda>e. e = []) elems of [] \<Rightarrow> [] | es \<Rightarrow> clean (join_with [slash] es))"

text \<open>\<open>Abs\<close>, with the working directory or the error of finding it.\<close>

definition path_abs :: "gerr + string \<Rightarrow> string \<Rightarrow> gerr + string" where
  "path_abs wd path =
     (if is_abs path then Inr (clean path)
      else (case wd of Inl e \<Rightarrow> Inl e | Inr d \<Rightarrow> Inr (path_join [d, path])))"

text \<open>\<open>Dir\<close>: everything up to the last slash, cleaned.\<close>

definition path_dir :: "string \<Rightarrow> string" where
  "path_dir path = clean (rev (dropWhile (\<lambda>c. c \<noteq> slash) (rev path)))"

section \<open>resetInstanceData\<close>

text \<open>
  The tree that is removed, if any, and the error. \<open>rm\<close> is the answer of \<open>os.RemoveAll\<close>.
\<close>

definition reset_instance_data ::
  "gerr + string \<Rightarrow> gerr option \<Rightarrow> string \<Rightarrow> int \<Rightarrow> string option \<times> gerr option" where
  "reset_instance_data wd rm data_dir iid =
     (if iid < 1 then (None, Some (Err_Text ''invalid instance ID for reset''))
      else (case path_abs wd (path_join [data_dir, ''tor'']) of
              Inl e \<Rightarrow> (None, Some e)
            | Inr root \<Rightarrow>
                let target = path_join [root, itoa (nat iid)]
                in if path_dir target \<noteq> root \<or> target = root
                   then (None, Some (Err_Text ''instance reset path escapes Tor data directory''))
                   else (Some target, rm)))"

section \<open>Clean rooted paths\<close>

definition plain :: "string \<Rightarrow> bool" where
  "plain c \<longleftrightarrow> c \<noteq> '''' \<and> c \<noteq> ''.'' \<and> c \<noteq> ''..'' \<and> slash \<notin> set c"

definition rooted_path :: "string list \<Rightarrow> string" where
  "rooted_path comps = slash # join_with [slash] comps"

lemma split_on_not_Nil [simp]: "split_on sep s \<noteq> []"
  by (induction s) (auto split: list.splits)

lemma split_on_no_sep: "w \<in> set (split_on sep s) \<Longrightarrow> sep \<notin> set w"
  by (induction s arbitrary: w) (auto split: list.splits if_splits)

lemma split_on_single: "sep \<notin> set w \<Longrightarrow> split_on sep w = [w]"
  by (induction w) auto

lemma split_on_append: "sep \<notin> set w \<Longrightarrow> split_on sep (w @ sep # s) = w # split_on sep s"
  by (induction w) auto

lemma split_on_join: "ws \<noteq> [] \<Longrightarrow> \<forall>w \<in> set ws. sep \<notin> set w \<Longrightarrow> split_on sep (join_with [sep] ws) = ws"
proof (induction ws)
  case (Cons w ws)
  then show ?case by (cases ws) (simp_all add: split_on_single split_on_append)
qed simp

lemma foldl_plain: "\<forall>w \<in> set ws. plain w \<Longrightarrow> foldl (clean_step r) kept ws = kept @ ws"
  by (induction ws arbitrary: kept) (auto simp: clean_step_def plain_def)

lemma foldl_kept_plain:
  "\<forall>w \<in> set kept. plain w \<Longrightarrow> \<forall>w \<in> set ws. slash \<notin> set w \<Longrightarrow> \<forall>w \<in> set (foldl (clean_step True) kept ws). plain w"
proof (induction ws arbitrary: kept)
  case (Cons w ws)
  have "\<forall>v \<in> set (clean_step True kept w). plain v"
    using Cons.prems by (auto simp: clean_step_def plain_def dest: in_set_butlastD)
  with Cons show ?case by simp
qed simp

text \<open>A path that starts with a slash is cleaned to a slash and plain components.\<close>

lemma clean_rooted:
  assumes "is_abs path"
  shows "\<exists>cs. clean path = rooted_path cs \<and> (\<forall>c \<in> set cs. plain c)"
proof -
  let ?cs = "foldl (clean_step True) [] (split_on slash path)"
  have "\<forall>c \<in> set ?cs. plain c" by (rule foldl_kept_plain) (simp_all add: split_on_no_sep)
  then show ?thesis using assms by (auto simp: clean_def Let_def rooted_path_def)
qed

lemma rooted_abs [simp]: "is_abs (rooted_path cs)"
  by (simp add: is_abs_def rooted_path_def)

lemma split_rooted:
  "\<forall>c \<in> set cs. plain c \<Longrightarrow> split_on slash (rooted_path cs) = '''' # (if cs = [] then [''''] else cs)"
  by (simp add: rooted_path_def split_on_join plain_def)

lemma clean_rooted_fix: "\<forall>c \<in> set cs. plain c \<Longrightarrow> clean (rooted_path cs) = rooted_path cs"
proof -
  assume p: "\<forall>c \<in> set cs. plain c"
  have "foldl (clean_step True) [] (split_on slash (rooted_path cs)) = cs"
    using p by (auto simp: split_rooted clean_step_def foldl_plain)
  then show ?thesis by (simp add: clean_def Let_def) (simp add: rooted_path_def)
qed

lemma join_with_snoc:
  "join_with sep (ws @ [v]) = (if ws = [] then v else join_with sep ws @ sep @ v)"
proof (induction ws)
  case (Cons w ws)
  then show ?case by (cases ws) simp_all
qed simp

lemma foldl_clean_snoc:
  "plain c \<Longrightarrow> foldl (clean_step r) kept (ws @ [c]) = foldl (clean_step r) kept ws @ [c]"
  by (simp add: clean_step_def plain_def)

lemma split_on_snoc: "sep \<notin> set v \<Longrightarrow> split_on sep (s @ sep # v) = split_on sep s @ [v]"
  by (induction s) (auto simp: split_on_single split: list.splits)

text \<open>Appending one plain component to a clean rooted path, and taking it off again.\<close>

lemma join_rooted:
  assumes "\<forall>c \<in> set cs. plain c" "plain c"
  shows "path_join [rooted_path cs, c] = rooted_path (cs @ [c])"
proof -
  have ne: "rooted_path cs \<noteq> []" and cne: "c \<noteq> []" and cs: "slash \<notin> set c"
    using assms(2) by (simp_all add: rooted_path_def plain_def)
  have "path_join [rooted_path cs, c] = clean (rooted_path cs @ slash # c)"
    using ne by (simp add: path_join_def)
  also have "\<dots> = rooted_path (cs @ [c])"
  proof -
    have a: "is_abs (rooted_path cs @ slash # c)" by (simp add: is_abs_def rooted_path_def)
    have "foldl (clean_step True) [] (split_on slash (rooted_path cs @ slash # c)) = cs @ [c]"
      using assms cs by (auto simp: split_on_snoc split_rooted foldl_clean_snoc clean_step_def foldl_plain plain_def)
    with a show ?thesis by (simp add: clean_def Let_def rooted_path_def)
  qed
  finally show ?thesis .
qed

lemma dir_rooted:
  assumes "\<forall>c \<in> set cs. plain c" "plain c"
  shows "path_dir (rooted_path (cs @ [c])) = rooted_path cs"
proof -
  have cs: "slash \<notin> set c" using assms(2) by (simp add: plain_def)
  define pre where "pre = (if cs = [] then [] else slash # join_with [slash] cs)"
  have r: "rooted_path (cs @ [c]) = pre @ slash # c"
    by (simp add: rooted_path_def join_with_snoc pre_def)
  have "dropWhile (\<lambda>x. x \<noteq> slash) (rev (pre @ slash # c)) = slash # rev pre"
    using cs by (simp add: dropWhile_append)
  then have "path_dir (rooted_path (cs @ [c])) = clean (pre @ [slash])"
    unfolding path_dir_def r by simp
  also have "\<dots> = rooted_path cs"
  proof -
    have a: "is_abs (pre @ [slash])" by (simp add: is_abs_def pre_def)
    have "foldl (clean_step True) [] (split_on slash (pre @ [slash])) = cs"
    proof (cases "cs = []")
      case False
      then have "pre = rooted_path cs" by (simp add: pre_def rooted_path_def)
      with False assms show ?thesis
        using split_on_snoc [of slash "[]" "rooted_path cs"]
        by (auto simp: split_rooted clean_step_def foldl_plain)
    qed (simp add: pre_def clean_step_def)
    with a show ?thesis by (simp add: clean_def Let_def rooted_path_def)
  qed
  finally show ?thesis .
qed

lemma itoa_plain: "plain (itoa n)"
proof -
  have "slash \<notin> set (itoa n)" "CHR ''.'' \<notin> set (itoa n)"
    using itoa_digits [of slash n] itoa_digits [of "CHR ''.''" n] by (auto simp: is_digit_def slash_def)
  then show ?thesis by (auto simp: plain_def)
qed

lemma rooted_inj:
  assumes "\<forall>c \<in> set cs. plain c" "\<forall>c \<in> set ds. plain c" "rooted_path cs = rooted_path ds"
  shows "cs = ds"
proof -
  have "(if cs = [] then [''''] else cs) = (if ds = [] then [''''] else ds)"
    using split_rooted [OF assms(1)] split_rooted [OF assms(2)] assms(3) by simp
  moreover have "'''' \<notin> set cs" "'''' \<notin> set ds" using assms(1,2) by (auto simp: plain_def)
  ultimately show ?thesis by (auto split: if_splits)
qed

lemma rooted_snoc_neq: 
  assumes "\<forall>c \<in> set cs. plain c" "plain c"
  shows "rooted_path (cs @ [c]) \<noteq> rooted_path cs"
  using rooted_inj [of "cs @ [c]" cs] assms by auto

section \<open>The reset removes one instance\<close>

lemma abs_rooted:
  assumes "path_abs wd path = Inr root" "\<forall>d. wd = Inr d \<longrightarrow> is_abs d"
  shows "\<exists>cs. root = rooted_path cs \<and> (\<forall>c \<in> set cs. plain c)"
proof (cases "is_abs path")
  case True
  with assms(1) clean_rooted [OF True] show ?thesis by (auto simp: path_abs_def)
next
  case False
  with assms obtain d where d: "root = path_join [d, path]" "is_abs d"
    by (auto simp: path_abs_def split: sum.splits)
  then have "root = clean (d @ slash # path)" by (auto simp: path_join_def is_abs_def)
  moreover have "is_abs (d @ slash # path)" using d(2) by (auto simp: is_abs_def)
  ultimately show ?thesis using clean_rooted by blast
qed

text \<open>
  With an absolute working directory the reset of instance \<open>i\<close> removes
  exactly the directory named \<open>i\<close> directly below the Tor directory: the escape check never
  refuses an instance number of at least 1, what is removed is neither the root itself nor
  a tree that contains it, and two instances never remove the same tree. With a number
  below 1, or when the root cannot be found, nothing is removed.
\<close>

theorem reset_own_state:
  assumes "\<forall>d. wd = Inr d \<longrightarrow> is_abs d"
  shows "(i < 1 \<longrightarrow> fst (reset_instance_data wd rm dir i) = None)
    \<and> (\<forall>e. path_abs wd (path_join [dir, ''tor'']) = Inl e \<longrightarrow> 1 \<le> i
        \<longrightarrow> reset_instance_data wd rm dir i = (None, Some e))
    \<and> (\<forall>root. path_abs wd (path_join [dir, ''tor'']) = Inr root \<longrightarrow> 1 \<le> i
        \<longrightarrow> (\<exists>target. reset_instance_data wd rm dir i = (Some target, rm)
          \<and> target = path_join [root, itoa (nat i)] \<and> path_dir target = root \<and> target \<noteq> root
          \<and> (\<forall>j rm'. 1 \<le> j \<longrightarrow> j \<noteq> i \<longrightarrow> fst (reset_instance_data wd rm' dir j) \<noteq> Some target)))"
proof (intro conjI allI impI)
  show "fst (reset_instance_data wd rm dir i) = None" if "i < 1"
    using that by (simp add: reset_instance_data_def)
  show "reset_instance_data wd rm dir i = (None, Some e)"
    if "path_abs wd (path_join [dir, ''tor'']) = Inl e" "1 \<le> i" for e
    using that by (simp add: reset_instance_data_def)
  fix root
  assume root: "path_abs wd (path_join [dir, ''tor'']) = Inr root" and i: "1 \<le> i"
  obtain cs where cs: "root = rooted_path cs" "\<forall>c \<in> set cs. plain c"
    using abs_rooted [OF root assms] by blast
  define t where "t = (\<lambda>k::int. rooted_path (cs @ [itoa (nat k)]))"
  have t: "path_join [root, itoa (nat k)] = t k" "path_dir (t k) = root" "t k \<noteq> root" for k
    using cs join_rooted dir_rooted rooted_snoc_neq itoa_plain by (auto simp: t_def)
  have r: "reset_instance_data wd rm' dir k = (Some (t k), rm')" if "1 \<le> k" for k rm'
    using that root t by (simp add: reset_instance_data_def Let_def)
  have "t j \<noteq> t i" if "1 \<le> j" "j \<noteq> i" for j
  proof
    assume "t j = t i"
    then have "cs @ [itoa (nat j)] = cs @ [itoa (nat i)]"
      using rooted_inj [of "cs @ [itoa (nat j)]" "cs @ [itoa (nat i)]"] cs(2) itoa_plain
      by (simp add: t_def)
    with i that show False by (simp add: itoa_inj)
  qed
  then show "\<exists>target. reset_instance_data wd rm dir i = (Some target, rm)
          \<and> target = path_join [root, itoa (nat i)] \<and> path_dir target = root \<and> target \<noteq> root
          \<and> (\<forall>j rm'. 1 \<le> j \<longrightarrow> j \<noteq> i \<longrightarrow> fst (reset_instance_data wd rm' dir j) \<noteq> Some target)"
    using i r t by auto
qed


lemma reset_own_state_witness:
  "fst (reset_instance_data (Inr ''/srv'') None ''data/../d'' 12) = Some ''/srv/d/tor/12''"
proof -
  have root: "path_abs (Inr ''/srv'') (path_join [''data/../d'', ''tor'']) = Inr ''/srv/d/tor''"
    by (simp add: path_abs_def path_join_def clean_def is_abs_def slash_def clean_step_def Let_def)
  have itoa: "itoa 12 = ''12''"
    by (subst itoa.simps, simp, subst itoa.simps) (simp add: digit_char_def char_of_def bit_Suc_0_iff)
  have "path_join [''/srv/d/tor'', itoa (nat 12)] = ''/srv/d/tor/12''"
    by (simp add: itoa path_join_def clean_def is_abs_def slash_def clean_step_def Let_def)
  then show ?thesis
    using reset_own_state [of "Inr ''/srv''" 12 None "''data/../d''"] root by (simp add: is_abs_def slash_def)
qed

end
