(* ===== verification/Cycle.thy ===== *)
theory Cycle
  imports Session IPCheck Conn
begin

text \<open>
  \<open>cycle\<close>, \<open>cycleReuse\<close> and \<open>drainReuse\<close> of \<open>internal/app/tor.go\<close>: one verified circuit from its
  creation to its end. What the control connection, the random source, the IP check, the pool and the
  waits answer is a record; the calls are a list of actions, in their order, deferred calls
  included. The answers of the pool are tied to the pool's operations in \<open>CycleProps\<close>.
\<close>

section \<open>Creating the circuit\<close>

text \<open>The last \<open>EXTENDED\<close> line names the circuit.\<close>

definition extended_circuit :: "string list \<Rightarrow> string" where
  "extended_circuit lines =
     foldl (\<lambda>circuit line. if has_prefix line ''EXTENDED '' then trim_prefix line ''EXTENDED '' else circuit) '''' lines"

definition valid_circuit :: "string \<Rightarrow> bool" where
  "valid_circuit circuit \<longleftrightarrow> snd (parse_uint circuit) = None \<and> fst (parse_uint circuit) \<noteq> 0"

definition circuit_built :: "string \<Rightarrow> string list \<Rightarrow> bool" where
  "circuit_built circuit lines \<longleftrightarrow>
     list_ex (\<lambda>line. let f = go_fields line in length f \<ge> 2 \<and> f ! 0 = circuit \<and> f ! 1 = ''BUILT'')
       (split_on newline (join_with [newline] lines))"

section \<open>The token of a generation\<close>

text \<open>\<open>hex.EncodeToString\<close>.\<close>

definition hex_digit :: "nat \<Rightarrow> char" where
  "hex_digit d = (if d < 10 then char_of (48 + d) else char_of (87 + d))"

definition hex_encode :: "string \<Rightarrow> string" where
  "hex_encode bytes =
     concat (map (\<lambda>b. [hex_digit (of_char b div 16), hex_digit (of_char b mod 16)]) bytes)"

section \<open>Actions and answers\<close>

datatype wake = Wake_Done | Wake_Circuit | Wake_Control

datatype cycle_act =
    Cy_Command string
  | Cy_Current "(string \<times> string) option"   \<comment> \<open>\<open>setEndpoint\<close>: circuit and token, or nil\<close>
  | Cy_Publish string "bool \<times> gerr option"  \<comment> \<open>\<open>publish\<close>, with the address and its answer\<close>
  | Cy_Wake wake                            \<comment> \<open>the channel the worker woke up on\<close>
  | Cy_LastErr "gerr option"                \<comment> \<open>a read of \<open>ep.lastErr\<close>\<close>
  | Cy_Failures nat                         \<comment> \<open>\<open>consecutiveFailures\<close>\<close>
  | Cy_Active nat                           \<comment> \<open>\<open>reuseActive\<close>\<close>
  | Cy_Withdraw
  | Cy_Cancel                               \<comment> \<open>the deferred \<open>epCancel\<close>\<close>

record cycle_env =
  ce_extend :: "gerr + string list"          \<comment> \<open>\<open>EXTENDCIRCUIT\<close>\<close>
  ce_status :: "gerr + string list"          \<comment> \<open>the first \<open>GETINFO circuit-status\<close>\<close>
  ce_polls :: "(gerr + string list) list"    \<comment> \<open>the next ones, each after a pause\<close>
  ce_expiry :: gerr                          \<comment> \<open>\<open>checkCtx.Err()\<close> when a pause is cut short\<close>
  ce_rand :: "gerr + string"
  ce_socks :: "gerr option"
  ce_check :: "gerr + http_result"           \<comment> \<open>the IP check through the circuit\<close>
  ce_publish :: "bool \<times> gerr option"
  ce_wake :: wake
  ce_last_err :: "gerr option"               \<comment> \<open>\<open>ep.lastErr\<close> after waking up\<close>
  ce_fails :: nat
  ce_ticks :: "nat list"                     \<comment> \<open>leases in flight at each look of \<open>drainReuse\<close>, a tick after each\<close>
  ce_left :: nat                             \<comment> \<open>and at its last look\<close>
  ce_last_err_end :: "gerr option"           \<comment> \<open>\<open>ep.lastErr\<close> when it is returned\<close>

section \<open>Waiting for the circuit\<close>

text \<open>
  The polling loop: \<open>None\<close> when the circuit is built, otherwise the error. The pauses between the
  polls succeed, the one after the last poll does not: the context has a deadline.
\<close>

fun await_built :: "string \<Rightarrow> gerr \<Rightarrow> gerr + string list \<Rightarrow> (gerr + string list) list \<Rightarrow> gerr option \<times> cycle_act list" where
  "await_built circuit expiry answer rest =
     (let act = Cy_Command ''GETINFO circuit-status'' in
      case answer of
        Inl e \<Rightarrow> (Some e, [act])
      | Inr lines \<Rightarrow>
          if circuit_built circuit lines then (None, [act])
          else (case rest of
                  [] \<Rightarrow> (Some (Err_Wrap (''building circuit: '' @ error_text expiry) expiry), [act])
                | answer' # rest' \<Rightarrow>
                    (case await_built circuit expiry answer' rest' of (r, acts) \<Rightarrow> (r, act # acts))))"

declare await_built.simps [simp del]

section \<open>Dialling through the endpoint\<close>

text \<open>
  \<open>ep.dial\<close>: refused once the endpoint's context has ended. Otherwise the SOCKS dialer answers; a connection
  is guarded by the context, which may have ended in the meantime.
\<close>

definition ep_dial :: "gerr option \<Rightarrow> gerr + nat \<Rightarrow> bool \<Rightarrow> gerr + guarded" where
  "ep_dial ctx_err answer cancelled =
     (case ctx_err of Some e \<Rightarrow> Inl e
      | None \<Rightarrow> (case answer of Inl e \<Rightarrow> Inl e | Inr sock \<Rightarrow> Inr (guard_connection cancelled)))"

section \<open>Serving\<close>

definition max_consecutive_serve_failures :: nat where
  "max_consecutive_serve_failures = 3"

definition not_ready_error :: "string \<Rightarrow> gerr" where
  "not_ready_error ip = Err_Text (''IP '' @ ip @ '' is used, reserved, or its circuit expired'')"

text \<open>\<open>fmt.Errorf("%w: %v", errServeFailures, ep.lastErr)\<close>; \<open>%v\<close> of a nil error prints \<open><nil>\<close>.\<close>

definition serve_failure :: "gerr option \<Rightarrow> gerr" where
  "serve_failure e = Err_Wrap (error_text Err_ServeFailures @ '': '' @
     (case e of None \<Rightarrow> ''<nil>'' | Some x \<Rightarrow> error_text x)) Err_ServeFailures"

text \<open>The test after waking up: whether the instance kept failing, and the reads it makes.\<close>

definition keeps_failing :: "cycle_env \<Rightarrow> bool \<times> cycle_act list" where
  "keeps_failing env =
     (if ce_last_err env = None then (False, [Cy_LastErr None])
      else (max_consecutive_serve_failures \<le> ce_fails env, [Cy_LastErr (ce_last_err env), Cy_Failures (ce_fails env)]))"

text \<open>The part of \<open>cycle\<close> for unique addresses.\<close>

definition cycle_unique :: "cycle_env \<Rightarrow> string \<Rightarrow> gerr option \<times> cycle_act list" where
  "cycle_unique env ip =
     (case ce_publish env of
        (ready, Some e) \<Rightarrow> (Some e, [Cy_Publish ip (ready, Some e)])
      | (ready, None) \<Rightarrow>
          if \<not> ready then (Some (not_ready_error ip), [Cy_Publish ip (ready, None)])
          else
            let woke = [Cy_Publish ip (ready, None), Cy_Wake (ce_wake env)] in
            (case ce_wake env of
               Wake_Circuit \<Rightarrow> (Some (Err_Text ''verified circuit closed''), woke @ [Cy_Withdraw])
             | Wake_Control \<Rightarrow> (Some Err_ControlClosed, woke @ [Cy_Withdraw])
             | Wake_Done \<Rightarrow>
                 (case keeps_failing env of
                    (failing, reads) \<Rightarrow>
                      (if failing then Some (serve_failure (ce_last_err_end env)) else ce_last_err_end env,
                       woke @ reads @ [Cy_Withdraw, Cy_LastErr (ce_last_err_end env)]))))"

text \<open>\<open>drainReuse\<close>: it looks until no lease is in flight, or a channel ends the wait after the last look.\<close>

fun drain_reuse :: "nat list \<Rightarrow> nat \<Rightarrow> cycle_act list" where
  "drain_reuse [] left = [Cy_Active left]"
| "drain_reuse (n # ticks) left = Cy_Active n # (if n > 0 then drain_reuse ticks left else [])"

definition cycle_reuse :: "cycle_env \<Rightarrow> string \<Rightarrow> gerr option \<times> cycle_act list" where
  "cycle_reuse env ip =
     (case ce_publish env of
        (ready, Some e) \<Rightarrow> (Some e, [Cy_Publish ip (ready, Some e)])
      | (ready, None) \<Rightarrow>
          if \<not> ready then (Some (not_ready_error ip), [Cy_Publish ip (ready, None)])
          else
            let woke = [Cy_Publish ip (ready, None), Cy_Wake (ce_wake env)] in
            (case ce_wake env of
               Wake_Circuit \<Rightarrow> (Some (Err_Text ''verified circuit closed''), woke @ [Cy_Withdraw])
             | Wake_Control \<Rightarrow> (Some Err_ControlClosed, woke @ [Cy_Withdraw])
             | Wake_Done \<Rightarrow>
                 (case keeps_failing env of
                    (failing, reads) \<Rightarrow>
                      (if failing then Some (serve_failure (ce_last_err_end env)) else ce_last_err_end env,
                       woke @ reads @ drain_reuse (ce_ticks env) (ce_left env) @
                         [Cy_Withdraw, Cy_LastErr (ce_last_err_end env)]))))"

section \<open>cycle\<close>

text \<open>From the endpoint to its end: \<open>setEndpoint(nil)\<close> and \<open>epCancel\<close> are deferred.\<close>

definition cycle_endpoint :: "bool \<Rightarrow> cycle_env \<Rightarrow> string \<Rightarrow> gerr option \<times> cycle_act list" where
  "cycle_endpoint unique env circuit =
     (case ce_rand env of
        Inl e \<Rightarrow> (Some e, [Cy_Cancel])
      | Inr bytes \<Rightarrow>
          (case ce_socks env of
             Some e \<Rightarrow> (Some e, [Cy_Cancel])
           | None \<Rightarrow>
               let start = Cy_Current (Some (circuit, hex_encode bytes)); final = [Cy_Current None, Cy_Cancel] in
               (case check_ip (ce_check env) of
                  Inl e \<Rightarrow> (Some (Err_Wrap (''IP check: '' @ error_text e) e), start # final)
                | Inr ip \<Rightarrow>
                    (case (if unique then cycle_unique env ip else cycle_reuse env ip) of
                       (r, acts) \<Rightarrow> (r, start # acts @ final)))))"

definition cycle :: "bool \<Rightarrow> cycle_env \<Rightarrow> gerr option \<times> cycle_act list" where
  "cycle unique env =
     (let extend = Cy_Command ''EXTENDCIRCUIT 0 purpose=general'' in
      case ce_extend env of
        Inl e \<Rightarrow> (Some e, [extend])
      | Inr lines \<Rightarrow>
          let circuit = extended_circuit lines in
          if \<not> valid_circuit circuit then (Some (Err_Text ''Tor returned an invalid circuit ID''), [extend])
          else
            let final = [Cy_Command (''CLOSECIRCUIT '' @ circuit)] in
            (case await_built circuit (ce_expiry env) (ce_status env) (ce_polls env) of
               (Some e, polls) \<Rightarrow> (Some e, extend # polls @ final)
             | (None, polls) \<Rightarrow>
                 (case cycle_endpoint unique env circuit of
                    (r, acts) \<Rightarrow> (r, extend # polls @ acts @ final))))"

end
