(* ===== verification/Offers.thy ===== *)
theory Offers
  imports Cycle PoolFinish
begin

text \<open>
  The interface between a worker and the pool: a cycle offers one endpoint, takes it back and ends it, while
  other goroutines run in between. The locale states what the worker relies on; its client
  lemma is that a cycle leaves nothing of its instance behind. The pool is an instance.
\<close>

section \<open>The order of the calls of a cycle\<close>

text \<open>
  \<open>held\<close>: an endpoint is offered; \<open>live\<close>: its context still has to be ended.
\<close>

fun offers_ok :: "bool \<Rightarrow> bool \<Rightarrow> cycle_act list \<Rightarrow> bool" where
  "offers_ok held live [] \<longleftrightarrow> \<not> held \<and> \<not> live"
| "offers_ok held live (act # acts) \<longleftrightarrow>
     (case act of
        Cy_Publish ip r \<Rightarrow> \<not> held \<and> \<not> live \<and> offers_ok (r = (True, None)) True acts
      | Cy_Withdraw \<Rightarrow> held \<and> offers_ok False live acts
      | Cy_Cancel \<Rightarrow> \<not> held \<and> offers_ok False False acts
      | _ \<Rightarrow> offers_ok held live acts)"

fun plain_act :: "cycle_act \<Rightarrow> bool" where
  "plain_act (Cy_Publish ip r) \<longleftrightarrow> False"
| "plain_act Cy_Withdraw \<longleftrightarrow> False"
| "plain_act Cy_Cancel \<longleftrightarrow> False"
| "plain_act _ \<longleftrightarrow> True"

lemma offers_plain [simp]: "list_all plain_act xs \<Longrightarrow> offers_ok h v (xs @ acts) = offers_ok h v acts"
proof (induction xs)
  case (Cons x xs)
  then show ?case by (cases x) auto
qed simp

lemma await_plain: "list_all plain_act (snd (await_built c e a rest))"
proof (induction rest arbitrary: a)
  case Nil
  show ?case by (subst await_built.simps) (auto simp: Let_def split: sum.splits)
next
  case (Cons a' rest)
  from Cons.IH [of a'] show ?case
    by (subst await_built.simps) (auto simp: Let_def split: sum.splits prod.splits)
qed

lemma drain_plain: "list_all plain_act (drain_reuse ticks left)"
  by (induction ticks left rule: drain_reuse.induct) auto

lemma keeps_plain: "list_all plain_act (snd (keeps_failing env))"
  by (simp add: keeps_failing_def)

lemma serve_offers:
  assumes "(if unique then cycle_unique env ip else cycle_reuse env ip) = (r, acts)"
  shows "offers_ok False False (acts @ Cy_Current None # Cy_Cancel # tail) = offers_ok False False tail"
proof -
  have [simp]: "offers_ok h v (reads @ rest) = offers_ok h v rest"
    if "keeps_failing env = (b, reads)" for h v b reads rest
    using keeps_plain [of env] that by simp
  have [simp]: "offers_ok h v (drain_reuse ticks left @ rest) = offers_ok h v rest" for h v ticks left rest
    using drain_plain by (rule offers_plain)
  show ?thesis
    using assms
    by (auto simp: cycle_unique_def cycle_reuse_def Let_def
        split: prod.splits option.splits wake.splits if_splits)
qed

lemma cycle_offers: "offers_ok False False (snd (cycle unique env))"
proof -
  have e: "offers_ok False False (acts @ [Cy_Command x])" if "cycle_endpoint unique env circuit = (r, acts)"
    for circuit x r acts
    using that serve_offers [where env = env and unique = unique]
    by (auto simp: cycle_endpoint_def Let_def split: sum.splits option.splits prod.splits)
  have a: "offers_ok False False (polls @ rest) = offers_ok False False rest"
    if "await_built c x s ps = (r, polls)" for c x s ps r polls rest
    using await_plain [of c x s ps] that by simp
  show ?thesis
    using e by (auto simp: cycle_def Let_def a split: sum.splits option.splits prod.splits)
qed

section \<open>A cycle played against a provider\<close>

text \<open>
  \<open>at\<close> is the address of the endpoint once it is offered. Reads and wake-ups see the state of
  that moment; other goroutines run at any point.
\<close>

inductive cycle_plays ::
  "('s \<Rightarrow> 's \<Rightarrow> bool) \<Rightarrow> (string \<Rightarrow> bool \<times> gerr option \<Rightarrow> nat \<Rightarrow> 's \<Rightarrow> 's \<Rightarrow> bool) \<Rightarrow> (nat \<Rightarrow> 's \<Rightarrow> 's \<Rightarrow> bool) \<Rightarrow>
   (nat \<Rightarrow> 's \<Rightarrow> 's) \<Rightarrow> (nat \<Rightarrow> cycle_act \<Rightarrow> 's \<Rightarrow> bool) \<Rightarrow>
   nat option \<Rightarrow> cycle_act list \<Rightarrow> 's \<Rightarrow> 's \<Rightarrow> nat option \<Rightarrow> bool"
  for other offer retract stop sees where
  cp_end: "cycle_plays other offer retract stop sees at [] s s at"
| cp_other: "other s s1 \<Longrightarrow> cycle_plays other offer retract stop sees at acts s1 s2 at' \<Longrightarrow>
    cycle_plays other offer retract stop sees at acts s s2 at'"
| cp_publish: "offer ip r a s s1 \<Longrightarrow> cycle_plays other offer retract stop sees (Some a) acts s1 s2 at' \<Longrightarrow>
    cycle_plays other offer retract stop sees None (Cy_Publish ip r # acts) s s2 at'"
| cp_withdraw: "retract a s s1 \<Longrightarrow> cycle_plays other offer retract stop sees (Some a) acts s1 s2 at' \<Longrightarrow>
    cycle_plays other offer retract stop sees (Some a) (Cy_Withdraw # acts) s s2 at'"
| cp_cancel: "cycle_plays other offer retract stop sees (Some a) acts (stop a s) s2 at' \<Longrightarrow>
    cycle_plays other offer retract stop sees (Some a) (Cy_Cancel # acts) s s2 at'"
| cp_cancel_none: "cycle_plays other offer retract stop sees None acts s s2 at' \<Longrightarrow>
    cycle_plays other offer retract stop sees None (Cy_Cancel # acts) s s2 at'"
| cp_plain: "plain_act act \<Longrightarrow> (\<forall>a. at = Some a \<longrightarrow> sees a act s) \<Longrightarrow>
    cycle_plays other offer retract stop sees at acts s s2 at' \<Longrightarrow>
    cycle_plays other offer retract stop sees at (act # acts) s s2 at'"

section \<open>The contract\<close>

locale offer_provider =
  fixes other :: "'s \<Rightarrow> 's \<Rightarrow> bool"
    and offer :: "string \<Rightarrow> bool \<times> gerr option \<Rightarrow> nat \<Rightarrow> 's \<Rightarrow> 's \<Rightarrow> bool"
    and retract :: "nat \<Rightarrow> 's \<Rightarrow> 's \<Rightarrow> bool"
    and stop :: "nat \<Rightarrow> 's \<Rightarrow> 's"
    and sees :: "nat \<Rightarrow> cycle_act \<Rightarrow> 's \<Rightarrow> bool"
    and good :: "'s \<Rightarrow> bool"
    and clear :: "'s \<Rightarrow> bool"
    and holds :: "nat \<Rightarrow> 's \<Rightarrow> bool"
    and present :: "nat \<Rightarrow> 's \<Rightarrow> bool"
    and ended :: "nat \<Rightarrow> 's \<Rightarrow> bool"
  assumes other_good: "good s \<Longrightarrow> other s s' \<Longrightarrow> good s'"
    and offer_good: "good s \<Longrightarrow> offer ip r a s s' \<Longrightarrow> good s'"
    and retract_good: "good s \<Longrightarrow> holds a s \<Longrightarrow> retract a s s' \<Longrightarrow> good s'"
    and stop_good: "good s \<Longrightarrow> good (stop a s)"
    and other_clear: "good s \<Longrightarrow> clear s \<Longrightarrow> other s s' \<Longrightarrow> clear s'"
    and offer_refused: "good s \<Longrightarrow> clear s \<Longrightarrow> offer ip r a s s' \<Longrightarrow> r \<noteq> (True, None) \<Longrightarrow> clear s'"
    and offer_made: "good s \<Longrightarrow> clear s \<Longrightarrow> offer ip (True, None) a s s' \<Longrightarrow> holds a s'"
    and other_holds: "good s \<Longrightarrow> holds a s \<Longrightarrow> other s s' \<Longrightarrow> holds a s'"
    and retract_clear: "good s \<Longrightarrow> holds a s \<Longrightarrow> retract a s s' \<Longrightarrow> clear s'"
    and retract_ended: "good s \<Longrightarrow> holds a s \<Longrightarrow> retract a s s' \<Longrightarrow> ended a s \<Longrightarrow> ended a s'"
    and stop_clear: "clear s \<Longrightarrow> clear (stop a s)"
    and offer_present: "good s \<Longrightarrow> offer ip r a s s' \<Longrightarrow> present a s'"
    and other_present: "good s \<Longrightarrow> present a s \<Longrightarrow> other s s' \<Longrightarrow> present a s'"
    and retract_present: "good s \<Longrightarrow> holds a s \<Longrightarrow> retract a s s' \<Longrightarrow> present a s'"
    and stop_present: "present a s \<Longrightarrow> present a (stop a s)"
    and stop_ends: "present a s \<Longrightarrow> ended a (stop a s)"
    and other_ended: "good s \<Longrightarrow> ended a s \<Longrightarrow> other s s' \<Longrightarrow> ended a s'"
begin

lemma plays_leaves_nothing:
  assumes "cycle_plays other offer retract stop sees at acts s s' at'" and "good s"
    and "offers_ok held live acts"
    and "if held then \<exists>a. at = Some a \<and> holds a s else clear s"
    and "\<not> live \<longrightarrow> (\<forall>a. at = Some a \<longrightarrow> ended a s)"
    and "live \<longrightarrow> at \<noteq> None"
    and "\<forall>a. at = Some a \<longrightarrow> present a s"
  shows "good s' \<and> clear s' \<and> (\<forall>a. at' = Some a \<longrightarrow> ended a s')"
  using assms
proof (induction arbitrary: held live rule: cycle_plays.induct)
  case (cp_end at s)
  then show ?case by auto
next
  case (cp_other s s1 at acts s2 at')
  have g: "good s1" using other_good cp_other.hyps(1) cp_other.prems(1) by blast
  have c: "if held then \<exists>a. at = Some a \<and> holds a s1 else clear s1"
    using other_clear other_holds cp_other.hyps(1) cp_other.prems(1,3) by (metis (full_types))
  have e: "\<not> live \<longrightarrow> (\<forall>a. at = Some a \<longrightarrow> ended a s1)"
    using other_ended cp_other.hyps(1) cp_other.prems(1,4) by blast
  show ?case by (rule cp_other.IH [OF g cp_other.prems(2) c e cp_other.prems(5)])
      (use other_present cp_other.hyps(1) cp_other.prems(1,6) in blast)
next
  case (cp_publish ip r a s s1 acts s2 at')
  have h: "\<not> held" "\<not> live" and t: "offers_ok (r = (True, None)) True acts"
    using cp_publish.prems(2) by auto
  have g: "good s1" using offer_good cp_publish.hyps(1) cp_publish.prems(1) by blast
  have s: "clear s" using cp_publish.prems(3) h by simp
  have c: "if r = (True, None) then \<exists>b. Some a = Some b \<and> holds b s1 else clear s1"
    using offer_refused [OF cp_publish.prems(1) s cp_publish.hyps(1)]
      offer_made [OF cp_publish.prems(1) s] cp_publish.hyps(1) by auto
  have p: "present a s1" by (rule offer_present [OF cp_publish.prems(1) cp_publish.hyps(1)])
  show ?case by (rule cp_publish.IH [OF g t c]) (simp_all add: p)
next
  case (cp_withdraw a s s1 acts s2 at')
  have held and t: "offers_ok False live acts" using cp_withdraw.prems(2) by auto
  then have h: "holds a s" using cp_withdraw.prems(3) by simp
  have g: "good s1" by (rule retract_good [OF cp_withdraw.prems(1) h cp_withdraw.hyps(1)])
  have c: "clear s1" by (rule retract_clear [OF cp_withdraw.prems(1) h cp_withdraw.hyps(1)])
  have e: "\<not> live \<longrightarrow> (\<forall>b. Some a = Some b \<longrightarrow> ended b s1)"
    using retract_ended [OF cp_withdraw.prems(1) h cp_withdraw.hyps(1)] cp_withdraw.prems(4) by simp
  have p: "present a s1" by (rule retract_present [OF cp_withdraw.prems(1) h cp_withdraw.hyps(1)])
  show ?case by (rule cp_withdraw.IH [OF g t _ e]) (simp_all add: c p)
next
  case (cp_cancel a acts s s2 at')
  then have h: "\<not> held" and t: "offers_ok False False acts" by auto
  have c: "clear (stop a s)" using cp_cancel.prems(3) h stop_clear by simp
  show ?case by (rule cp_cancel.IH [OF stop_good t]) (use cp_cancel.prems(1,6) c stop_ends stop_present in auto)
next
  case (cp_cancel_none acts s s2 at')
  then have h: "\<not> held" and t: "offers_ok False False acts" by auto
  show ?case by (rule cp_cancel_none.IH [OF _ t]) (use cp_cancel_none.prems h in auto)
next
  case (cp_plain act at s acts s2 at')
  have t: "offers_ok held live acts" using cp_plain.prems(2) cp_plain.hyps(1) by (cases act) auto
  show ?case by (rule cp_plain.IH [OF cp_plain.prems(1) t cp_plain.prems(3,4,5,6)])
qed

end

section \<open>The pool takes offers\<close>

definition pool_other :: "nat \<Rightarrow> pool \<Rightarrow> pool \<Rightarrow> bool" where
  "pool_other iid p q \<longleftrightarrow>
     (\<exists>op. pool_exec op p = Some q \<and> (\<forall>env now b. op = Op_Publish env now b \<longrightarrow> ep_id (ep_of p b) \<noteq> iid))"

definition pool_offer :: "nat \<Rightarrow> string \<Rightarrow> bool \<times> gerr option \<Rightarrow> nat \<Rightarrow> pool \<Rightarrow> pool \<Rightarrow> bool" where
  "pool_offer iid ip r a p q \<longleftrightarrow>
     (\<exists>circuit token dead env now. slot_in p iid \<and> a = length (p_eps p) \<and>
        publish env now a (add_endpoint (new_endpoint iid ip circuit token dead) p) = Some (r, q))"

definition pool_retract :: "nat \<Rightarrow> pool \<Rightarrow> pool \<Rightarrow> bool" where
  "pool_retract a p q \<longleftrightarrow> withdraw a p = Some q"

fun pool_sees :: "nat \<Rightarrow> cycle_act \<Rightarrow> pool \<Rightarrow> bool" where
  "pool_sees a (Cy_Wake Wake_Done) p \<longleftrightarrow> ep_done (ep_of p a)"
| "pool_sees a (Cy_Wake Wake_Circuit) p \<longleftrightarrow> ep_cancelled (ep_of p a)"
| "pool_sees a (Cy_LastErr e) p \<longleftrightarrow> ep_last_err (ep_of p a) = e"
| "pool_sees a (Cy_Failures n) p \<longleftrightarrow> consecutive_failures (ep_id (ep_of p a)) p = Some n"
| "pool_sees a (Cy_Active n) p \<longleftrightarrow> reuse_active a p = n"
| "pool_sees a act p \<longleftrightarrow> True"

definition pool_clear :: "nat \<Rightarrow> pool \<Rightarrow> bool" where
  "pool_clear iid p \<longleftrightarrow> slot_in p iid \<and> slot_ep (slot_of p iid) = None \<and>
     (\<forall>b < length (p_eps p). ep_id (ep_of p b) = iid \<longrightarrow> (\<forall>ip. p_reserved p ip \<noteq> Some b))"

definition pool_holds :: "nat \<Rightarrow> nat \<Rightarrow> pool \<Rightarrow> bool" where
  "pool_holds iid a p \<longleftrightarrow> slot_in p iid \<and> a < length (p_eps p) \<and> ep_id (ep_of p a) = iid \<and>
     slot_ep (slot_of p iid) \<in> {None, Some a} \<and>
     (\<forall>b < length (p_eps p). ep_id (ep_of p b) = iid \<and> b \<noteq> a \<longrightarrow> (\<forall>ip. p_reserved p ip \<noteq> Some b))"

definition ep_present :: "nat \<Rightarrow> pool \<Rightarrow> bool" where
  "ep_present a p \<longleftrightarrow> a < length (p_eps p)"

definition ep_ended :: "nat \<Rightarrow> pool \<Rightarrow> bool" where
  "ep_ended a p \<longleftrightarrow> a < length (p_eps p) \<and> ep_cancelled (ep_of p a)"

text \<open>The fields of the endpoints that no operation changes back.\<close>

definition eps_kept :: "pool \<Rightarrow> pool \<Rightarrow> bool" where
  "eps_kept p q \<longleftrightarrow> length (p_eps p) \<le> length (p_eps q) \<and>
     (\<forall>a < length (p_eps p). ep_id (ep_of q a) = ep_id (ep_of p a) \<and>
        (ep_cancelled (ep_of p a) \<longrightarrow> ep_cancelled (ep_of q a)))"

lemma eps_kept_same: "p_eps q = p_eps p \<Longrightarrow> eps_kept p q"
  by (simp add: eps_kept_def ep_of_def)

lemma eps_kept_trans: "eps_kept p q \<Longrightarrow> eps_kept q r \<Longrightarrow> eps_kept p r"
  by (auto simp: eps_kept_def)

lemma eps_kept_upd:
  assumes "\<And>e. ep_id (f e) = ep_id e" and "\<And>e. ep_cancelled e \<Longrightarrow> ep_cancelled (f e)"
  shows "eps_kept p (upd_ep a f p)"
  using assms by (auto simp: eps_kept_def ep_of_def upd_ep_def nth_update_if)

lemma eps_kept_cancel: "eps_kept p (cancel_ep a p)"
  unfolding cancel_ep_def by (rule eps_kept_upd) simp_all

lemma eps_kept_grant:
  "eps_kept p ((if u then grant_unique else grant_reuse) now i a p)"
proof (cases u)
  case True
  then show ?thesis by (simp add: eps_kept_same grant_proj)
next
  case False
  then show ?thesis by (auto simp: eps_kept_def grant_proj ep_of_def nth_update_if)
qed

lemma eps_kept_acquire: "acquire_locked acq p = (r, q) \<Longrightarrow> eps_kept p q"
proof (rule acquire_rule [where P = "eps_kept p"])
  show "eps_kept p p" by (simp add: eps_kept_same)
  show "eps_kept p (q\<lparr>p_store := t\<rparr>)" if "eps_kept p q" for q t
    using that by (rule eps_kept_trans) (simp add: eps_kept_same)
  show "eps_kept p (cancel_ep a q)" if "eps_kept p q" for q a
    using that eps_kept_cancel eps_kept_trans by blast
  show "eps_kept p ((if p_unique p then grant_unique else grant_reuse) (acq_now acq) i a (q\<lparr>p_store := t\<rparr>))"
    if "eps_kept p q" for q a i t
    using eps_kept_trans [OF eps_kept_trans [OF that eps_kept_same [of "q\<lparr>p_store := t\<rparr>" q]] eps_kept_grant] by simp
qed

lemma eps_kept_done: "close_done_once a p = Some q \<Longrightarrow> eps_kept p q"
  by (auto simp: close_done_once_def eps_kept_same split: if_splits intro: eps_kept_upd)

lemma eps_kept_finish:
  assumes "finish_lease l err now p = Some q"
  shows "eps_kept p q"
  using assms
  by (cases "p_unique p"; cases err)
    (auto simp: finish_lease_def finish_unique_alt finish_reuse_def close_done_once_def Let_def eps_kept_def
      ep_of_def upd_ep_def nth_update_if frame_simps split: if_splits)

lemma eps_kept_step: "pool_step p q \<Longrightarrow> eps_kept p q"
proof (induction rule: pool_step.induct)
  case (step_new p iid ip circuit token c)
  show ?case by (simp add: eps_kept_def add_endpoint_def ep_of_def nth_append)
next
  case (step_state st iid progress problem now p p')
  then show ?case by (simp add: eps_kept_same pool_state_frame)
next
  case (step_publish a p env now r p')
  then show ?case by (simp add: eps_kept_same publish_frame)
next
  case (step_acquire acq p r p')
  then show ?case by (rule eps_kept_acquire)
next
  case (step_reject p)
  show ?case by (simp add: eps_kept_same count_rejected_def)
next
  case (step_finish l p err now p')
  then show ?case using eps_kept_finish by blast
next
  case (step_withdraw a p p')
  then show ?case
    by (auto simp: withdraw_def eps_kept_def cancel_ep_def ep_of_def upd_ep_def nth_update_if Let_def frame_simps
        split: if_splits)
next
  case (step_cancel a p)
  show ?case by (rule eps_kept_cancel)
qed

lemma slot_ep_eps: "slot_in p iid \<Longrightarrow> slot_ep (slot_of p iid) = slot_eps p ! (iid - 1)"
  by (auto simp: slot_in_def slot_of_def slot_eps_def)

lemma publish_slots:
  assumes "publish env now a p = Some (r, q)"
  shows "if r = (True, None)
    then slot_eps q = (slot_eps p)[ep_id (ep_of p a) - 1 := Some a] \<and>
      p_reserved q = (if p_unique p then (p_reserved p)(ep_ip (ep_of p a) \<mapsto> a) else p_reserved p)
    else slot_eps q = slot_eps p \<and> p_reserved q = p_reserved p"
  using assms
  by (auto simp: publish_def Let_def make_ready_proj frame_simps ep_of_def slot_in_def
      split: prod.splits if_splits option.splits)

lemma acquire_reserved: "acquire_locked acq p = (r, q) \<Longrightarrow> p_reserved q = p_reserved p"
  by (rule acquire_rule [where P = "\<lambda>q. p_reserved q = p_reserved p"])
    (auto simp: frame_simps grant_unique_proj grant_reuse_def Let_def)

lemma finish_reserved: "finish_lease l err now p = Some q \<Longrightarrow> p_reserved q = p_reserved p"
  by (cases "p_unique p"; cases err)
    (auto simp: finish_lease_def finish_unique_alt finish_reuse_def close_done_once_def Let_def frame_simps
      split: if_splits)

text \<open>What other goroutines can do to the offer of instance \<open>iid\<close>: take it away, never make one.\<close>

lemma other_offers:
  assumes "pool_other iid p q" and "pool_wf p" and "slot_in p iid"
  shows "slot_ep (slot_of q iid) \<in> {None, slot_ep (slot_of p iid)} \<and> slot_in q iid \<and>
    (\<forall>ip b. p_reserved q ip = Some b \<longrightarrow>
       p_reserved p ip = Some b \<or> (b < length (p_eps p) \<and> ep_id (ep_of p b) \<noteq> iid))"
proof -
  obtain op where op: "pool_exec op p = Some q"
    and no: "\<And>env now b. op = Op_Publish env now b \<Longrightarrow> ep_id (ep_of p b) \<noteq> iid"
    using assms(1) by (auto simp: pool_other_def)
  have q: "slot_in q iid" using size_step [OF pool_exec_step [OF op]] assms(3) by (simp add: slot_in_def)
  have r: "slot_eps q ! (iid - 1) \<in> {None, slot_eps p ! (iid - 1)} \<and>
    (\<forall>ip b. p_reserved q ip = Some b \<longrightarrow>
       p_reserved p ip = Some b \<or> (b < length (p_eps p) \<and> ep_id (ep_of p b) \<noteq> iid))"
  proof (cases op)
    case (Op_New i ip circuit token c)
    with op show ?thesis by (auto simp: add_endpoint_def slot_eps_def split: if_splits)
  next
    case (Op_State i st progress problem now)
    with op show ?thesis by (auto simp: pool_state_frame split: if_splits)
  next
    case (Op_Publish env now b)
    then obtain r where a: "b < length (p_eps p)" and p: "publish env now b p = Some (r, q)"
      using op by (auto split: if_splits)
    have "slot_in p (ep_id (ep_of p b))" by (rule ep_id_in [OF assms(2) a])
    then have "ep_id (ep_of p b) - 1 \<noteq> iid - 1"
      using no [OF Op_Publish] assms(3) by (auto simp: slot_in_def)
    with publish_slots [OF p] no [OF Op_Publish] a show ?thesis
      by (auto split: if_splits)
  next
    case (Op_Acquire acq)
    then obtain r where r: "acquire_locked acq p = (r, q)" using op by (cases "acquire_locked acq p") auto
    show ?thesis using acquire_frames [OF r] acquire_reserved [OF r] by simp
  next
    case Op_Reject
    with op show ?thesis by (auto simp: count_rejected_def slot_eps_def)
  next
    case (Op_Finish l err now)
    then have f: "finish_lease l err now p = Some q" using op by (auto split: if_splits)
    have "iid - 1 < length (slot_eps p)" using assms(3) by (auto simp: slot_in_def slot_eps_def)
    with finish_fewer(1) [OF f] finish_reserved [OF f] show ?thesis by (auto simp: fewer_eps_def)
  next
    case (Op_Withdraw b)
    then have w: "withdraw b p = Some q" using op by (auto split: if_splits)
    have l: "iid - 1 < length (slot_eps p)" using assms(3) by (auto simp: slot_in_def slot_eps_def)
    have "(slot_eps p)[j := None] ! (iid - 1) \<in> {None, slot_eps p ! (iid - 1)}" for j
      using l by (cases "j = iid - 1") auto
    then show ?thesis using withdraw_proj(1,7) [OF w] by (auto split: if_splits)
  next
    case (Op_Cancel b)
    with op show ?thesis by (auto simp: frame_simps split: if_splits)
  qed
  then show ?thesis using q slot_ep_eps [OF q] slot_ep_eps [OF assms(3)] by simp
qed

lemma other_kept: "pool_other iid p q \<Longrightarrow> eps_kept p q"
  using eps_kept_step pool_exec_step by (auto simp: pool_other_def)

lemma clear_other:
  assumes "pool_wf p" and "pool_clear iid p" and "pool_other iid p q"
  shows "pool_clear iid q"
proof -
  have s: "slot_in p iid" using assms(2) by (simp add: pool_clear_def)
  note o = other_offers [OF assms(3,1) s] and k = other_kept [OF assms(3)]
  have "p_reserved q ip \<noteq> Some b" if b: "b < length (p_eps q)" "ep_id (ep_of q b) = iid" for b ip
  proof
    assume "p_reserved q ip = Some b"
    with o have pr: "p_reserved p ip = Some b \<or> b < length (p_eps p) \<and> ep_id (ep_of p b) \<noteq> iid" by blast
    then have "b < length (p_eps p)" using assms(1) by (auto simp: pool_wf_def reserved_ok_def)
    moreover from this have "ep_id (ep_of p b) = iid" using k b by (simp add: eps_kept_def)
    ultimately show False using pr assms(2) by (auto simp: pool_clear_def)
  qed
  with o assms(2) show ?thesis by (auto simp: pool_clear_def)
qed

lemma holds_other:
  assumes "pool_wf p" and "pool_holds iid a p" and "pool_other iid p q"
  shows "pool_holds iid a q"
proof -
  have s: "slot_in p iid" and a: "a < length (p_eps p)" "ep_id (ep_of p a) = iid"
    using assms(2) by (simp_all add: pool_holds_def)
  note o = other_offers [OF assms(3,1) s] and k = other_kept [OF assms(3)]
  have "p_reserved q ip \<noteq> Some b"
    if b: "b < length (p_eps q)" "ep_id (ep_of q b) = iid" "b \<noteq> a" for b ip
  proof
    assume "p_reserved q ip = Some b"
    with o have pr: "p_reserved p ip = Some b \<or> b < length (p_eps p) \<and> ep_id (ep_of p b) \<noteq> iid" by blast
    then have "b < length (p_eps p)" using assms(1) by (auto simp: pool_wf_def reserved_ok_def)
    moreover from this have "ep_id (ep_of p b) = iid" using k b by (simp add: eps_kept_def)
    ultimately show False using pr b assms(2) by (auto simp: pool_holds_def)
  qed
  moreover have "a < length (p_eps q)" "ep_id (ep_of q a) = iid" using k a by (auto simp: eps_kept_def)
  ultimately show ?thesis using o assms(2) by (auto simp: pool_holds_def)
qed

lemma offer_parts:
  assumes "pool_wf p" and "pool_offer iid ip r a p q"
  obtains p1 where "pool_wf p1" "pool_wf q" "slot_eps p1 = slot_eps p" "p_reserved p1 = p_reserved p"
    "p_eps q = p_eps p1" "length (p_slots q) = length (p_slots p)" "slot_in p iid"
    "a = length (p_eps p)" "length (p_eps p1) = Suc a" "ep_id (ep_of p1 a) = iid"
    "\<forall>b < a. ep_of p1 b = ep_of p b"
    "if r = (True, None)
     then slot_eps q = (slot_eps p)[iid - 1 := Some a] \<and>
       (p_reserved q = p_reserved p \<or> p_reserved q = (p_reserved p)(ip \<mapsto> a))
     else slot_eps q = slot_eps p \<and> p_reserved q = p_reserved p"
proof -
  obtain circuit token dead env now where i: "slot_in p iid" "a = length (p_eps p)"
    and pub: "publish env now a (add_endpoint (new_endpoint iid ip circuit token dead) p) = Some (r, q)"
    using assms(2) by (auto simp: pool_offer_def)
  let ?e = "new_endpoint iid ip circuit token dead"
  let ?p1 = "add_endpoint ?e p"
  have e: "ep_of ?p1 a = ?e" using i by (simp add: ep_of_def add_endpoint_def)
  have "pool_step p ?p1" using i by (intro step_new)
  then have w1: "pool_wf ?p1" using wf_step assms(1) by blast
  have l: "a < length (p_eps ?p1)" using i by (simp add: add_endpoint_def)
  show ?thesis
  proof (rule that [of ?p1])
    show "pool_wf ?p1" by (rule w1)
    show "pool_wf q" by (rule wf_publish [OF w1 l pub])
    show "slot_eps ?p1 = slot_eps p" "p_reserved ?p1 = p_reserved p"
      by (simp_all add: add_endpoint_def slot_eps_def)
    show "p_eps q = p_eps ?p1" by (rule publish_frame [OF pub])
    show "length (p_slots q) = length (p_slots p)"
      using size_publish [OF pub] by (simp add: add_endpoint_def)
    show "ep_id (ep_of ?p1 a) = iid" unfolding e by (simp add: new_endpoint_def)
    show "length (p_eps ?p1) = Suc a" using i by (simp add: add_endpoint_def)
    show "\<forall>b < a. ep_of ?p1 b = ep_of p b" using i by (simp add: ep_of_def add_endpoint_def nth_append)
    show "if r = (True, None)
     then slot_eps q = (slot_eps p)[iid - 1 := Some a] \<and>
       (p_reserved q = p_reserved p \<or> p_reserved q = (p_reserved p)(ip \<mapsto> a))
     else slot_eps q = slot_eps p \<and> p_reserved q = p_reserved p"
      using publish_slots [OF pub] unfolding e
      by (auto simp: add_endpoint_def slot_eps_def new_endpoint_def split: if_splits)
  qed (rule i)+
qed

lemma clear_offer:
  assumes "pool_wf p" and "pool_clear iid p" and "pool_offer iid ip r a p q" and "r \<noteq> (True, None)"
  shows "pool_clear iid q"
proof -
  from offer_parts [OF assms(1,3)] obtain p1 where
    q: "slot_eps q = slot_eps p" "p_reserved q = p_reserved p" "length (p_slots q) = length (p_slots p)"
    and e: "p_eps q = p_eps p1" "a = length (p_eps p)" "length (p_eps p1) = Suc a"
      "\<forall>b < a. ep_of p1 b = ep_of p b"
    using assms(4) by (metis (full_types))
  have s: "slot_in q iid" using assms(2) q(3) by (simp add: pool_clear_def slot_in_def)
  have "p_reserved p ip \<noteq> Some b" if "b < length (p_eps q)" "ep_id (ep_of q b) = iid" for b ip
  proof (cases "b = a")
    case True
    then show ?thesis using assms(1) e(2) by (auto simp: pool_wf_def reserved_ok_def)
  next
    case False
    then have "b < a" using that e by simp
    moreover have "ep_of q b = ep_of p1 b" using e(1) by (simp add: ep_of_def)
    ultimately show ?thesis using that assms(2) e by (auto simp: pool_clear_def)
  qed
  then show ?thesis
    using s q(1,2) assms(2) slot_ep_eps [OF s] slot_ep_eps [of p iid] by (simp add: pool_clear_def)
qed

lemma holds_offer:
  assumes "pool_wf p" and "pool_clear iid p" and "pool_offer iid ip (True, None) a p q"
  shows "pool_holds iid a q"
proof -
  from offer_parts [OF assms(1,3)] obtain p1 where
    q: "slot_eps q = (slot_eps p)[iid - 1 := Some a]" "length (p_slots q) = length (p_slots p)" "slot_in p iid"
      "p_reserved q = p_reserved p \<or> p_reserved q = (p_reserved p)(ip \<mapsto> a)"
    and e: "p_eps q = p_eps p1" "a = length (p_eps p)" "length (p_eps p1) = Suc a"
      "\<forall>b < a. ep_of p1 b = ep_of p b" "ep_id (ep_of p1 a) = iid"
    by (metis (full_types))
  have s: "slot_in q iid" using q(2,3) by (simp add: slot_in_def)
  have "slot_ep (slot_of q iid) = Some a"
    using slot_ep_eps [OF s] q(1,3) by (auto simp: slot_in_def slot_eps_def)
  moreover have "p_reserved q ip' \<noteq> Some b"
    if b: "b < length (p_eps q)" "ep_id (ep_of q b) = iid" "b \<noteq> a" for b ip'
  proof -
    have "b < a" using b e by simp
    moreover have "ep_of q b = ep_of p1 b" using e(1) by (simp add: ep_of_def)
    ultimately have "p_reserved p ip' \<noteq> Some b" using b assms(2) e by (auto simp: pool_clear_def)
    with q(4) b(3) show ?thesis by (auto split: if_splits)
  qed
  moreover have "ep_id (ep_of q a) = iid" using e(1,5) by (simp add: ep_of_def)
  ultimately show ?thesis using s e by (simp add: pool_holds_def)
qed

lemma clear_retract:
  assumes "pool_wf p" and "pool_holds iid a p" and "pool_retract a p q"
  shows "pool_clear iid q"
proof -
  have w: "withdraw a p = Some q" using assms(3) by (simp add: pool_retract_def)
  have a: "slot_in p iid" "a < length (p_eps p)" "ep_id (ep_of p a) = iid"
    and sl: "slot_ep (slot_of p iid) \<in> {None, Some a}"
    using assms(2) by (simp_all add: pool_holds_def)
  have st: "pool_step p q" using a(2) w by (rule step_withdraw)
  have s: "slot_in q iid" using size_step [OF st] a(1) by (simp add: slot_in_def)
  have k: "eps_kept p q" by (rule eps_kept_step [OF st])
  have len: "length (p_eps q) = length (p_eps p)"
    using withdraw_proj(2) [OF w] by (metis ep_ips_def length_map)
  have "slot_ep (slot_of q iid) = None"
  proof -
    have l: "iid - 1 < length (slot_eps p)" using a(1) by (auto simp: slot_in_def slot_eps_def)
    then show ?thesis
      using withdraw_proj(1) [OF w] slot_ep_eps [OF s] slot_ep_eps [OF a(1)] sl unfolding a(3)
      by (auto split: if_splits)
  qed
  moreover have "p_reserved q ip \<noteq> Some b" if b: "b < length (p_eps q)" "ep_id (ep_of q b) = iid" for b ip
  proof (cases "b = a")
    case True
    have own: "ip = ep_ip (ep_of p a)" if "p_reserved p ip = Some a"
      using that assms(1) by (auto simp: pool_wf_def reserved_ok_def ep_of_def)
    have "p_reserved q ip \<noteq> Some a"
    proof (cases "p_reserved p (ep_ip (ep_of p a)) = Some a")
      case True
      then have "p_reserved q = (p_reserved p)(ep_ip (ep_of p a) := None)" using withdraw_proj(7) [OF w] by simp
      then show ?thesis using own by (cases "ip = ep_ip (ep_of p a)") auto
    next
      case False
      then have "p_reserved q = p_reserved p" using withdraw_proj(7) [OF w] by simp
      then show ?thesis using own False by auto
    qed
    then show ?thesis using True by simp
  next
    case False
    have "ep_id (ep_of p b) = iid" using k b len by (simp add: eps_kept_def)
    then have "p_reserved p ip \<noteq> Some b" using False b len assms(2) by (simp add: pool_holds_def)
    then show ?thesis using withdraw_proj(7) [OF w] by (auto split: if_splits)
  qed
  ultimately show ?thesis using s by (simp add: pool_clear_def)
qed

lemma other_wf: "pool_wf p \<Longrightarrow> pool_other iid p q \<Longrightarrow> pool_wf q"
  unfolding pool_other_def by (blast intro: wf_step pool_exec_step)

lemma retract_step: "pool_holds iid a p \<Longrightarrow> pool_retract a p q \<Longrightarrow> pool_step p q"
  by (auto simp: pool_holds_def pool_retract_def intro: step_withdraw)

lemma clear_stop: "pool_clear iid p \<Longrightarrow> pool_clear iid (cancel_ep a p)"
proof -
  assume c: "pool_clear iid p"
  have "ep_id (ep_of (cancel_ep a p) b) = ep_id (ep_of p b)" for b
  proof (cases "a = b \<and> b < length (p_eps p)")
    case True
    then show ?thesis by (simp add: cancel_ep_def upd_ep_def ep_of_def)
  next
    case False
    then show ?thesis by (cases "a = b") (simp_all add: cancel_ep_def upd_ep_def ep_of_def list_update_beyond)
  qed
  with c show ?thesis
    by (simp add: pool_clear_def slot_in_def slot_of_def frame_simps)
qed

interpretation pool_offers: offer_provider "pool_other iid" "pool_offer iid" pool_retract cancel_ep pool_sees
  pool_wf "pool_clear iid" "pool_holds iid" ep_present ep_ended for iid
proof unfold_locales
  fix p q :: pool and ip r a
  show "pool_wf p \<Longrightarrow> pool_other iid p q \<Longrightarrow> pool_wf q" by (rule other_wf)
  show "pool_wf p \<Longrightarrow> pool_offer iid ip r a p q \<Longrightarrow> pool_wf q" by (erule (1) offer_parts)
  show "pool_wf p \<Longrightarrow> pool_holds iid a p \<Longrightarrow> pool_retract a p q \<Longrightarrow> pool_wf q"
    using wf_step retract_step by blast
  show "pool_wf p \<Longrightarrow> pool_wf (cancel_ep a p)" by (rule wf_cancel)
  show "pool_wf p \<Longrightarrow> pool_clear iid p \<Longrightarrow> pool_other iid p q \<Longrightarrow> pool_clear iid q" by (rule clear_other)
  show "pool_wf p \<Longrightarrow> pool_clear iid p \<Longrightarrow> pool_offer iid ip r a p q \<Longrightarrow> r \<noteq> (True, None) \<Longrightarrow> pool_clear iid q"
    by (rule clear_offer)
  show "pool_wf p \<Longrightarrow> pool_clear iid p \<Longrightarrow> pool_offer iid ip (True, None) a p q \<Longrightarrow> pool_holds iid a q"
    by (rule holds_offer)
  show "pool_wf p \<Longrightarrow> pool_holds iid a p \<Longrightarrow> pool_other iid p q \<Longrightarrow> pool_holds iid a q" by (rule holds_other)
  show "pool_wf p \<Longrightarrow> pool_holds iid a p \<Longrightarrow> pool_retract a p q \<Longrightarrow> pool_clear iid q" by (rule clear_retract)
  show "pool_wf p \<Longrightarrow> pool_holds iid a p \<Longrightarrow> pool_retract a p q \<Longrightarrow> ep_ended a p \<Longrightarrow> ep_ended a q"
    using retract_step [of iid a p q, THEN eps_kept_step] by (auto simp: eps_kept_def ep_ended_def)
  show "pool_clear iid p \<Longrightarrow> pool_clear iid (cancel_ep a p)" by (rule clear_stop)
  show "pool_wf p \<Longrightarrow> pool_offer iid ip r a p q \<Longrightarrow> ep_present a q"
    by (erule (1) offer_parts) (simp add: ep_present_def)
  show "pool_wf p \<Longrightarrow> ep_present a p \<Longrightarrow> pool_other iid p q \<Longrightarrow> ep_present a q"
    using other_kept [of iid p q] by (auto simp: eps_kept_def ep_present_def)
  show "pool_wf p \<Longrightarrow> pool_holds iid a p \<Longrightarrow> pool_retract a p q \<Longrightarrow> ep_present a q"
    using retract_step [of iid a p q, THEN eps_kept_step] by (auto simp: eps_kept_def ep_present_def pool_holds_def)
  show "ep_present a p \<Longrightarrow> ep_present a (cancel_ep a p)" by (simp add: ep_present_def frame_simps)
  show "ep_present a p \<Longrightarrow> ep_ended a (cancel_ep a p)"
    by (simp add: ep_present_def ep_ended_def cancel_ep_def upd_ep_def ep_of_def)
  show "pool_wf p \<Longrightarrow> ep_ended a p \<Longrightarrow> pool_other iid p q \<Longrightarrow> ep_ended a q"
    using other_kept [of iid p q] by (auto simp: eps_kept_def ep_ended_def)
qed

text \<open>The pool against which a worker of instance \<open>iid\<close> runs a cycle.\<close>

definition pool_cycle :: "nat \<Rightarrow> cycle_act list \<Rightarrow> pool \<Rightarrow> pool \<Rightarrow> nat option \<Rightarrow> bool" where
  "pool_cycle iid = cycle_plays (pool_other iid) (pool_offer iid) pool_retract cancel_ep pool_sees None"


end
