(* ===== verification/CycleProps.thy ===== *)
theory CycleProps
  imports Offers SessionProps
begin

text \<open>
  The properties of one cycle and of the cycles of an instance: what must hold before an address
  is offered, what is left behind, which errors come out, and that the token of a
  generation is found again in the stream events.
\<close>

section \<open>The token of a generation\<close>

lemma hex_digit_hex: "d < 16 \<Longrightarrow> is_hex (hex_digit d)"
  by (auto simp: is_hex_def is_digit_def hex_digit_def)

lemma of_char_hex_digit: "d < 16 \<Longrightarrow> (of_char (hex_digit d) :: nat) = (if d < 10 then 48 + d else 87 + d)"
  by (simp add: hex_digit_def)

lemma hex_digit_inj: "d < 16 \<Longrightarrow> e < 16 \<Longrightarrow> hex_digit d = hex_digit e \<Longrightarrow> d = e"
  by (drule arg_cong [where f = "of_char :: char \<Rightarrow> nat"]) (simp add: of_char_hex_digit split: if_splits)

lemma hex_encode_hex: "c \<in> set (hex_encode bytes) \<Longrightarrow> is_hex c"
proof -
  assume "c \<in> set (hex_encode bytes)"
  then obtain b where "c = hex_digit (of_char b div 16) \<or> c = hex_digit (of_char b mod 16)"
    by (auto simp: hex_encode_def)
  moreover have "of_char b < (256 :: nat)" by (rule nat_of_char_less_256)
  ultimately show ?thesis using hex_digit_hex by (auto simp: less_mult_imp_div_less)
qed

lemma hex_encode_inj: "hex_encode a = hex_encode b \<Longrightarrow> a = b"
proof (induction a arbitrary: b)
  case Nil
  then show ?case by (cases b) (simp_all add: hex_encode_def)
next
  case (Cons x a)
  then obtain y b' where b: "b = y # b'" by (cases b) (simp_all add: hex_encode_def)
  have l: "of_char x < (256 :: nat)" "of_char y < (256 :: nat)" by (rule nat_of_char_less_256)+
  have "hex_digit (of_char x div 16) = hex_digit (of_char y div 16)"
    "hex_digit (of_char x mod 16) = hex_digit (of_char y mod 16)" "hex_encode a = hex_encode b'"
    using Cons.prems b by (simp_all add: hex_encode_def)
  then have "of_char x div 16 = (of_char y :: nat) div 16" "of_char x mod 16 = (of_char y :: nat) mod 16" "a = b'"
    using hex_digit_inj [of "of_char x div 16" "of_char y div 16"]
      hex_digit_inj [of "of_char x mod 16" "of_char y mod 16"] l Cons.IH
    by (auto simp: less_mult_imp_div_less)
  then have "(of_char x :: nat) = of_char y" by (metis div_mult_mod_eq)
  with b \<open>a = b'\<close> show ?case by simp
qed

lemma user_prefix_no_blank: "CHR '' '' \<notin> set user_prefix" and user_prefix_dquote: "dquote \<in> set user_prefix"
  by code_simp+

lemma no_token_before_blank:
  assumes "dquote \<notin> set s"
  shows "token_at (s @ CHR '' '' # r) = None"
proof -
  have "\<not> has_prefix (s @ CHR '' '' # r) user_prefix"
  proof
    assume h: "has_prefix (s @ CHR '' '' # r) user_prefix"
    show False
    proof (cases "length user_prefix \<le> length s")
      case True
      then have "take (length user_prefix) s = user_prefix" using h by (simp add: has_prefix_def)
      then show False using assms user_prefix_dquote by (metis in_set_takeD)
    next
      case False
      then have "CHR '' '' \<in> set (take (length user_prefix) (s @ CHR '' '' # r))" by (simp add: take_Cons')
      then show False using h user_prefix_no_blank unfolding has_prefix_def by metis
    qed
  qed
  then show ?thesis by (simp add: token_at_def)
qed

lemma token_here:
  assumes "bytes \<noteq> []"
  shows "token_at (user_prefix @ hex_encode bytes @ [dquote]) = Some (hex_encode bytes)"
proof -
  have d: "\<not> is_hex dquote" by code_simp
  have h: "list_all is_hex (hex_encode bytes)" using hex_encode_hex by (simp add: list_all_iff)
  then have t: "takeWhile is_hex (hex_encode bytes @ [dquote]) = hex_encode bytes"
    using d by (simp add: takeWhile_append2 list_all_iff)
  have "hex_encode bytes \<noteq> []" using assms by (cases bytes) (simp_all add: hex_encode_def)
  with t show ?thesis by (simp add: token_at_def has_prefix_def Let_def)
qed

lemma token_after_plain:
  "dquote \<notin> set s \<Longrightarrow> token_after_blank (s @ CHR '' '' # r) =
     (case token_at r of Some t \<Rightarrow> Some t | None \<Rightarrow> token_after_blank r)"
proof (induction s)
  case (Cons c s)
  then show ?case using no_token_before_blank [of s r] by auto
qed simp

text \<open>
  The tag a cycle puts into the SOCKS user name is found again in Tor's event for a stream of that
  connection, whatever the target is, as long as nothing before it holds a quote; and two
  generations with different random bytes have different tags.
\<close>

theorem token_roundtrip:
  assumes "bytes \<noteq> []" and "dquote \<notin> set s"
  shows "find_token (s @ CHR '' '' # user_prefix @ hex_encode bytes @ [dquote]) = Some (hex_encode bytes) \<and>
    (\<forall>other. hex_encode other = hex_encode bytes \<longrightarrow> other = bytes)"
  using token_after_plain [OF assms(2)] no_token_before_blank [OF assms(2)] token_here [OF assms(1)]
    hex_encode_inj
  by (auto simp: find_token_def)

theorem token_roundtrip_witness:
  "find_token (''STREAM 21 NEW 0 example.com:80'' @ CHR '' '' # user_prefix @ ''0af3'' @ [dquote]) = Some ''0af3''"
proof -
  have "hex_encode [char_of (10::nat), char_of (243::nat)] = ''0af3''" by code_simp
  moreover have "dquote \<notin> set ''STREAM 21 NEW 0 example.com:80''" by code_simp
  ultimately show ?thesis
    using token_roundtrip [of "[char_of (10::nat), char_of (243::nat)]" "''STREAM 21 NEW 0 example.com:80''"] by simp
qed

section \<open>What is offered has been verified\<close>

lemma await_None:
  "fst (await_built c x a rest) = None \<Longrightarrow> \<exists>lines. Inr lines \<in> set (a # rest) \<and> circuit_built c lines"
proof (induction rest arbitrary: a)
  case Nil
  then show ?case by (subst (asm) await_built.simps) (auto simp: Let_def split: sum.splits if_splits)
next
  case (Cons a' rest)
  from Cons.prems Cons.IH [of a'] show ?case
    by (subst (asm) await_built.simps) (fastforce simp: Let_def split: sum.splits if_splits prod.splits)
qed

lemma await_acts: "act \<in> set (snd (await_built c x a rest)) \<Longrightarrow> act = Cy_Command ''GETINFO circuit-status''"
proof (induction rest arbitrary: a)
  case Nil
  then show ?case by (subst (asm) await_built.simps) (auto simp: Let_def split: sum.splits if_splits)
next
  case (Cons a' rest)
  from Cons.prems Cons.IH [of a'] show ?case
    by (subst (asm) await_built.simps) (auto simp: Let_def split: sum.splits if_splits prod.splits)
qed

lemma serve_acts:
  assumes "(if unique then cycle_unique env ip else cycle_reuse env ip) = (r, acts)"
  shows "(Cy_Publish ip' x \<in> set acts \<longrightarrow> ip' = ip \<and> x = ce_publish env) \<and> Cy_Command c \<notin> set acts \<and> Cy_Current y \<notin> set acts"
proof -
  have d: "list_all (\<lambda>act. \<exists>n. act = Cy_Active n) (drain_reuse ticks left)" for ticks left
    by (induction ticks left rule: drain_reuse.induct) auto
  then have d: "Cy_Publish ip' x \<notin> set (drain_reuse ticks left)" "Cy_Command c \<notin> set (drain_reuse ticks left)"
    "Cy_Current y \<notin> set (drain_reuse ticks left)" for ticks left
    unfolding list_all_iff by blast+
  show ?thesis
    using assms
    by (auto simp: cycle_unique_def cycle_reuse_def keeps_failing_def Let_def d
        split: prod.splits option.splits wake.splits if_splits)
qed

text \<open>What a cycle makes current has a circuit that was built, and what it publishes passed the IP check.\<close>

lemma cycle_tags:
  assumes "cycle unique env = (r, acts)"
  shows "Cy_Current (Some (c, tok)) \<in> set acts \<Longrightarrow>
      \<exists>lines status bytes. ce_extend env = Inr lines \<and> c = extended_circuit lines \<and> valid_circuit c \<and>
        Inr status \<in> set (ce_status env # ce_polls env) \<and> circuit_built c status \<and>
        ce_rand env = Inr bytes \<and> tok = hex_encode bytes"
    and "Cy_Publish ip x \<in> set acts \<Longrightarrow> check_ip (ce_check env) = Inr ip \<and> x = ce_publish env \<and>
        (\<exists>c tok. Cy_Current (Some (c, tok)) \<in> set acts)"
proof -
  have "(Cy_Current (Some (c, tok)) \<in> set acts \<longrightarrow>
      (\<exists>lines status bytes. ce_extend env = Inr lines \<and> c = extended_circuit lines \<and> valid_circuit c \<and>
        Inr status \<in> set (ce_status env # ce_polls env) \<and> circuit_built c status \<and>
        ce_rand env = Inr bytes \<and> tok = hex_encode bytes)) \<and>
    (Cy_Publish ip x \<in> set acts \<longrightarrow> check_ip (ce_check env) = Inr ip \<and> x = ce_publish env \<and>
        (\<exists>c tok. Cy_Current (Some (c, tok)) \<in> set acts))"
  proof (cases "\<exists>lines. ce_extend env = Inr lines \<and> valid_circuit (extended_circuit lines)")
    case False
    then have "set acts \<subseteq> {Cy_Command ''EXTENDCIRCUIT 0 purpose=general''}"
      using assms by (auto simp: cycle_def Let_def split: sum.splits if_splits)
    then show ?thesis by auto
  next
    case True
    then obtain lines where lines: "ce_extend env = Inr lines" and ok: "valid_circuit (extended_circuit lines)"
      by blast
    let ?c = "extended_circuit lines"
    obtain w polls where w: "await_built ?c (ce_expiry env) (ce_status env) (ce_polls env) = (w, polls)"
      by (metis surj_pair)
    note polls = await_acts [of _ ?c "ce_expiry env" "ce_status env" "ce_polls env", unfolded w snd_conv]
    obtain r2 acts2 where e: "cycle_endpoint unique env ?c = (r2, acts2)" by (metis surj_pair)
    have no: "Cy_Current y \<notin> set polls" "Cy_Publish ip x \<notin> set polls" for y
      using polls by blast+
    have mem: "Cy_Current y \<in> set acts \<longleftrightarrow> w = None \<and> Cy_Current y \<in> set acts2"
      "Cy_Publish ip x \<in> set acts \<longleftrightarrow> w = None \<and> Cy_Publish ip x \<in> set acts2" for y
      using assms lines ok w e no
      by (auto simp: cycle_def Let_def split: option.splits)
    have e2: "(Cy_Current (Some (c, tok)) \<in> set acts2 \<longrightarrow> c = ?c \<and> (\<exists>bytes. ce_rand env = Inr bytes \<and> tok = hex_encode bytes)) \<and>
        (Cy_Publish ip x \<in> set acts2 \<longrightarrow> check_ip (ce_check env) = Inr ip \<and> x = ce_publish env \<and>
           (\<exists>c tok. Cy_Current (Some (c, tok)) \<in> set acts2))"
      using e
      by (auto simp: cycle_endpoint_def Let_def split: sum.splits option.splits prod.splits
          dest!: serve_acts [where ip' = ip and x = x and y = "Some (c, tok)" and c = tok]) blast
    show ?thesis
    proof (cases "w = None")
      case True
      obtain status where "Inr status \<in> set (ce_status env # ce_polls env)" "circuit_built ?c status"
        using await_None [of ?c "ce_expiry env" "ce_status env" "ce_polls env"] w True by auto
      with True mem e2 lines ok show ?thesis by blast
    next
      case False
      with mem show ?thesis by blast
    qed
  qed
  then show "Cy_Current (Some (c, tok)) \<in> set acts \<Longrightarrow>
      \<exists>lines status bytes. ce_extend env = Inr lines \<and> c = extended_circuit lines \<and> valid_circuit c \<and>
        Inr status \<in> set (ce_status env # ce_polls env) \<and> circuit_built c status \<and>
        ce_rand env = Inr bytes \<and> tok = hex_encode bytes"
    and "Cy_Publish ip x \<in> set acts \<Longrightarrow> check_ip (ce_check env) = Inr ip \<and> x = ce_publish env \<and>
        (\<exists>c tok. Cy_Current (Some (c, tok)) \<in> set acts)"
    by blast+
qed

text \<open>
  Claim C15. Every command of a cycle but the first names the circuit Tor created, or asks for the status of
  circuits; the circuit is closed exactly when it was created, at the very end, on every
  path. An address is offered to the pool only if that circuit has a number other than zero, Tor reported it
  as built, the random tag could be drawn, and the IP check through it gave this address.
\<close>

theorem cycle_verified:
  assumes "cycle unique env = (r, acts)"
  shows "(case ce_extend env of
      Inl e \<Rightarrow> r = Some e \<and> acts = [Cy_Command ''EXTENDCIRCUIT 0 purpose=general'']
    | Inr lines \<Rightarrow>
        if valid_circuit (extended_circuit lines)
        then (\<exists>mid. acts = Cy_Command ''EXTENDCIRCUIT 0 purpose=general'' # mid @
                  [Cy_Command (''CLOSECIRCUIT '' @ extended_circuit lines)] \<and>
                (\<forall>c. Cy_Command c \<in> set mid \<longrightarrow> c = ''GETINFO circuit-status''))
        else r \<noteq> None \<and> acts = [Cy_Command ''EXTENDCIRCUIT 0 purpose=general'']) \<and>
    (\<forall>ip x. Cy_Publish ip x \<in> set acts \<longrightarrow>
      (\<exists>lines status bytes. ce_extend env = Inr lines \<and> valid_circuit (extended_circuit lines) \<and>
         Inr status \<in> set (ce_status env # ce_polls env) \<and> circuit_built (extended_circuit lines) status \<and>
         ce_rand env = Inr bytes \<and> Cy_Current (Some (extended_circuit lines, hex_encode bytes)) \<in> set acts \<and>
         check_ip (ce_check env) = Inr ip \<and> x = ce_publish env))"
proof (cases "ce_extend env")
  case (Inl e)
  with assms show ?thesis by (auto simp: cycle_def Let_def)
next
  case (Inr lines)
  let ?c = "extended_circuit lines"
  obtain w polls where w: "await_built ?c (ce_expiry env) (ce_status env) (ce_polls env) = (w, polls)"
    by (metis surj_pair)
  note polls = await_acts [of _ ?c "ce_expiry env" "ce_status env" "ce_polls env", unfolded w snd_conv]
  obtain r2 acts2 where e: "cycle_endpoint unique env ?c = (r2, acts2)" by (metis surj_pair)
  have e2: "Cy_Command c \<notin> set acts2" for c
    using e
    by (auto simp: cycle_endpoint_def Let_def split: sum.splits option.splits prod.splits dest!: serve_acts [where c = c])
  show ?thesis
  proof (cases "valid_circuit ?c")
    case False
    with assms Inr show ?thesis by (auto simp: cycle_def Let_def)
  next
    case True
    let ?mid = "polls @ (if w = None then acts2 else [])"
    have a: "acts = Cy_Command ''EXTENDCIRCUIT 0 purpose=general'' # ?mid @ [Cy_Command (''CLOSECIRCUIT '' @ ?c)]"
      using assms Inr True w e by (auto simp: cycle_def Let_def split: option.splits)
    have mid: "\<forall>c. Cy_Command c \<in> set ?mid \<longrightarrow> c = ''GETINFO circuit-status''"
      using polls e2 by (auto split: if_splits)
    have pub: "\<exists>lines status bytes. ce_extend env = Inr lines \<and> valid_circuit (extended_circuit lines) \<and>
         Inr status \<in> set (ce_status env # ce_polls env) \<and> circuit_built (extended_circuit lines) status \<and>
         ce_rand env = Inr bytes \<and> Cy_Current (Some (extended_circuit lines, hex_encode bytes)) \<in> set acts \<and>
         check_ip (ce_check env) = Inr ip \<and> x = ce_publish env"
      if "Cy_Publish ip x \<in> set acts" for ip x
      using cycle_tags(2) [OF assms that] cycle_tags(1) [OF assms] by metis
    from a mid have "\<exists>mid. acts = Cy_Command ''EXTENDCIRCUIT 0 purpose=general'' # mid @
        [Cy_Command (''CLOSECIRCUIT '' @ ?c)] \<and> (\<forall>c. Cy_Command c \<in> set mid \<longrightarrow> c = ''GETINFO circuit-status'')"
      by blast
    with Inr True pub show ?thesis by simp
  qed
qed

text \<open>A cycle that is told the circuit is pending, then built, and whose lease fails for the third time in a row.\<close>

definition demo_cycle :: cycle_env where
  "demo_cycle = \<lparr>ce_extend = Inr [''EXTENDED 7'', ''OK''], ce_status = Inr [''circuit-status=7 LAUNCHED'', ''OK''],
     ce_polls = [Inr [''circuit-status='' @ newline # ''6 BUILT'' @ newline # ''7 BUILT $A'', ''OK'']],
     ce_expiry = Ctx_DeadlineExceeded, ce_rand = Inr [char_of (171::nat)], ce_socks = None,
     ce_check = demo_answer ''8.8.8.8'', ce_publish = (True, None), ce_wake = Wake_Done,
     ce_last_err = Some (Err_Text ''reset''), ce_fails = 3, ce_ticks = [], ce_left = 0,
     ce_last_err_end = Some (Err_Text ''reset'')\<rparr>"

definition demo_acts :: "cycle_act list" where
  "demo_acts = [Cy_Command ''EXTENDCIRCUIT 0 purpose=general'', Cy_Command ''GETINFO circuit-status'',
     Cy_Command ''GETINFO circuit-status'', Cy_Current (Some (''7'', ''ab'')), Cy_Publish ''8.8.8.8'' (True, None),
     Cy_Wake Wake_Done, Cy_LastErr (Some (Err_Text ''reset'')), Cy_Failures 3, Cy_Withdraw,
     Cy_LastErr (Some (Err_Text ''reset'')), Cy_Current None, Cy_Cancel, Cy_Command ''CLOSECIRCUIT 7'']"

lemma demo_cycle_acts: "cycle True demo_cycle = (Some (serve_failure (Some (Err_Text ''reset''))), demo_acts)"
proof -
  have c: "extended_circuit [''EXTENDED 7'', ''OK''] = ''7''" "valid_circuit ''7''" by code_simp+
  have b: "\<not> circuit_built ''7'' [''circuit-status=7 LAUNCHED'', ''OK'']"
    "circuit_built ''7'' [''circuit-status='' @ newline # ''6 BUILT'' @ newline # ''7 BUILT $A'', ''OK'']"
    by code_simp+
  have i: "check_ip (demo_answer ''8.8.8.8'') = Inr ''8.8.8.8''" by code_simp
  have h: "hex_encode [char_of (171::nat)] = ''ab''" by code_simp
  show ?thesis
    by (simp add: cycle_def demo_cycle_def c b [simplified] await_built.simps cycle_endpoint_def i h cycle_unique_def
        keeps_failing_def max_consecutive_serve_failures_def demo_acts_def Let_def)
qed

theorem cycle_verified_witness:
  "check_ip (ce_check demo_cycle) = Inr ''8.8.8.8'' \<and>
   (\<exists>lines. ce_extend demo_cycle = Inr lines \<and> valid_circuit (extended_circuit lines))"
proof -
  have "Cy_Publish ''8.8.8.8'' (True, None) \<in> set demo_acts" by (simp add: demo_acts_def)
  then show ?thesis using conjunct2 [OF cycle_verified [OF demo_cycle_acts]] by blast
qed

section \<open>What a cycle leaves behind\<close>

text \<open>
  The cycles of one instance, with other goroutines before, between and during them.
\<close>

inductive instance_cycles :: "nat \<Rightarrow> bool \<Rightarrow> cycle_env list \<Rightarrow> pool \<Rightarrow> pool \<Rightarrow> bool" for iid unique where
  ic_idle: "(pool_other iid)\<^sup>*\<^sup>* p q \<Longrightarrow> instance_cycles iid unique [] p q"
| ic_cycle: "instance_cycles iid unique envs p p1 \<Longrightarrow>
    pool_cycle iid (snd (cycle unique env)) p1 q at \<Longrightarrow> instance_cycles iid unique (envs @ [env]) p q"

lemma cycle_leaves:
  assumes "pool_cycle iid (snd (cycle unique env)) p q at" and "pool_wf p" and "pool_clear iid p"
  shows "pool_wf q \<and> pool_clear iid q \<and> (\<forall>a. at = Some a \<longrightarrow> ep_ended a q)"
  using pool_offers.plays_leaves_nothing
    [OF assms(1) [unfolded pool_cycle_def] assms(2) cycle_offers] assms(3) by simp

lemma idle_leaves:
  assumes "(pool_other iid)\<^sup>*\<^sup>* p q" and "pool_wf p" and "pool_clear iid p"
  shows "pool_wf q \<and> pool_clear iid q"
  using assms by (induction rule: rtranclp_induct) (auto intro: other_wf clear_other)

lemma cycles_leave:
  assumes "instance_cycles iid unique envs p q" and "pool_wf p" and "pool_clear iid p"
  shows "pool_wf q \<and> pool_clear iid q"
  using assms
proof (induction rule: instance_cycles.induct)
  case (ic_idle p q)
  then show ?case using idle_leaves by blast
next
  case (ic_cycle envs p p1 env q at)
  then show ?case using cycle_leaves by blast
qed

text \<open>
  Claim C9. However many cycles an instance has run, on whatever paths, and whatever other goroutines did
  to the pool meanwhile: between two cycles the instance has no endpoint in its slot, no address is
  reserved for any endpoint it ever had, and its context has ended, so that no later request can be served by
  a circuit that is closed and no address stays blocked.
\<close>

theorem nothing_left:
  assumes "table_ok t" and "1 \<le> iid" and "iid \<le> TorCount cfg"
    and "instance_cycles iid (UniqueIP cfg) envs (new_pool cfg t now) p"
    and "pool_cycle iid (snd (cycle (UniqueIP cfg) env)) p q at"
  shows "slot_ep (slot_of q iid) = None \<and>
    (\<forall>b < length (p_eps q). ep_id (ep_of q b) = iid \<longrightarrow> (\<forall>ip. p_reserved q ip \<noteq> Some b)) \<and>
    (\<forall>a. at = Some a \<longrightarrow> a < length (p_eps q) \<and> ep_cancelled (ep_of q a))"
proof -
  have "pool_clear iid (new_pool cfg t now)"
    using assms(2,3) by (auto simp: pool_clear_def new_pool_def slot_in_def slot_of_def)
  then have p: "pool_wf p \<and> pool_clear iid p"
    using cycles_leave [OF assms(4)] wf_new_pool [OF assms(1)] by blast
  then show ?thesis
    using cycle_leaves [OF assms(5)] by (auto simp: pool_clear_def ep_ended_def)
qed

text \<open>A cycle whose circuit dies while its address is offered.\<close>

definition demo_dying :: cycle_env where
  "demo_dying = demo_cycle\<lparr>ce_wake := Wake_Circuit\<rparr>"

lemma demo_dying_acts:
  "snd (cycle True demo_dying) = take 5 demo_acts @ [Cy_Wake Wake_Circuit, Cy_Withdraw] @ drop 10 demo_acts"
proof -
  have c: "extended_circuit [''EXTENDED 7'', ''OK''] = ''7''" "valid_circuit ''7''" by code_simp+
  have b: "\<not> circuit_built ''7'' [''circuit-status=7 LAUNCHED'', ''OK'']"
    "circuit_built ''7'' [''circuit-status='' @ newline # ''6 BUILT'' @ newline # ''7 BUILT $A'', ''OK'']"
    by code_simp+
  have i: "check_ip (demo_answer ''8.8.8.8'') = Inr ''8.8.8.8''" by code_simp
  have h: "hex_encode [char_of (171::nat)] = ''ab''" by code_simp
  show ?thesis
    by (simp add: cycle_def demo_dying_def demo_cycle_def c b [simplified] await_built.simps cycle_endpoint_def i h
        cycle_unique_def demo_acts_def Let_def)
qed

theorem nothing_left_witness:
  "\<exists>q. pool_cycle 1 (snd (cycle True demo_dying)) (demo_pool True []) q (Some 0) \<and>
     slot_ep (slot_of q 1) = None \<and> ep_cancelled (ep_of q 0)"
proof -
  let ?p = "demo_pool True []"
  let ?e = "new_endpoint 1 ''8.8.8.8'' ''7'' ''ab'' False"
  have e: "length (p_eps ?p) = 0" "slot_in ?p 1" "UniqueIP (demo_cfg True)" "TorCount (demo_cfg True) = 2"
    by code_simp+
  have p: "?p = new_pool (demo_cfg True) [] (At 0)" by (simp add: demo_pool_def)
  have "map_option fst (publish sql_ok (At 3) 0 (add_endpoint ?e ?p)) = Some (True, None)" by code_simp
  then obtain p1 where p1: "publish sql_ok (At 3) 0 (add_endpoint ?e ?p) = Some ((True, None), p1)" by auto
  have o: "pool_offer 1 ''8.8.8.8'' (True, None) 0 ?p p1"
    unfolding pool_offer_def using p1 e(1,2)
    by (intro exI [of _ "''7''"] exI [of _ "''ab''"] exI [of _ False] exI [of _ sql_ok] exI [of _ "At 3"]) simp
  have w0: "pool_wf ?p" unfolding p by (rule wf_new_pool) (simp add: table_ok_def)
  have c0: "pool_clear 1 ?p" unfolding pool_clear_def using e by simp code_simp
  have h1: "pool_holds 1 0 p1" by (rule holds_offer [OF w0 c0 o])
  let ?p2 = "cancel_ep 0 p1"
  have l1: "0 < length (p_eps p1)" using h1 by (simp add: pool_holds_def)
  have o2: "pool_other 1 p1 ?p2"
    unfolding pool_other_def using l1 by (intro exI [of _ "Op_Cancel 0"]) simp
  have w2: "pool_wf ?p2" using offer_parts [OF w0 o] wf_cancel by metis
  have h2: "pool_holds 1 0 ?p2" using holds_other [OF _ h1 o2] offer_parts [OF w0 o] by metis
  have "0 < length (p_eps ?p2)" using h2 unfolding pool_holds_def by blast
  from withdraw_total [OF w2 this] obtain p3 where p3: "withdraw 0 ?p2 = Some p3" by blast
  have k: "pool_sees 0 (Cy_Wake Wake_Circuit) ?p2"
    using l1 by (simp add: cancel_ep_def upd_ep_def ep_of_def)
  have x: "pool_cycle 1 (snd (cycle True demo_dying)) ?p (cancel_ep 0 p3) (Some 0)"
    unfolding pool_cycle_def demo_dying_acts demo_acts_def
    apply simp
    apply (rule cp_plain, simp, simp)+
    apply (rule cp_publish [where offer = "pool_offer (Suc 0)"], rule o [simplified])
    apply (rule cp_other [where other = "pool_other (Suc 0)"], rule o2 [simplified])
    apply (rule cp_plain, simp, simp add: k [simplified])
    apply (rule cp_withdraw [where retract = pool_retract], simp add: pool_retract_def p3)
    apply (rule cp_plain, simp, simp)
    apply (rule cp_cancel)
    apply (rule cp_plain, simp, simp)
    apply (rule cp_end)
    done
  have i: "instance_cycles 1 (UniqueIP (demo_cfg True)) [] (new_pool (demo_cfg True) [] (At 0)) ?p"
    unfolding p by (rule ic_idle) simp
  have x': "pool_cycle 1 (snd (cycle (UniqueIP (demo_cfg True)) demo_dying)) ?p (cancel_ep 0 p3) (Some 0)"
    using x e(3) by simp
  from nothing_left [OF _ _ _ i x'] x e(4) show ?thesis
    by (intro exI [of _ "cancel_ep 0 p3"]) (simp add: table_ok_def)
qed

end
