(* ===== verification/ReuseDrain.thy ===== *)
theory ReuseDrain
  imports CycleProps
begin

text \<open>
  Reuse mode: when a failed request has asked for another circuit, the circuit is kept until no request uses it. The
  slot no longer offers it then, so that the number the worker waits on cannot grow again.
\<close>

section \<open>An endpoint that is taken from its slot\<close>

definition offers_at :: "nat \<Rightarrow> nat \<Rightarrow> pool \<Rightarrow> bool" where
  "offers_at iid a p \<longleftrightarrow> slot_ep (slot_of p iid) = Some a"

text \<open>The state of a pool in reuse mode, and an endpoint of instance \<open>iid\<close> in it.\<close>

definition reuse_state :: "nat \<Rightarrow> pool \<Rightarrow> bool" where
  "reuse_state iid p \<longleftrightarrow> pool_wf p \<and> count_ok p \<and> \<not> p_unique p \<and> slot_in p iid"

definition has_ep :: "nat \<Rightarrow> nat \<Rightarrow> pool \<Rightarrow> bool" where
  "has_ep iid a p \<longleftrightarrow> a < length (p_eps p) \<and> ep_id (ep_of p a) = iid"

lemma reuse_state_step: "pool_step p q \<Longrightarrow> reuse_state iid p \<Longrightarrow> reuse_state iid q"
  using wf_step [of p q] count_step [of p q] mode_step [of p q] size_step [of p q]
  by (auto simp: reuse_state_def slot_in_def)

lemma has_ep_step: "pool_step p q \<Longrightarrow> has_ep iid a p \<Longrightarrow> has_ep iid a q"
  using eps_kept_step [of p q] by (auto simp: eps_kept_def has_ep_def)

lemma other_step: "pool_other iid p q \<Longrightarrow> pool_step p q"
  using pool_exec_step by (auto simp: pool_other_def)

lemma other_away:
  assumes "pool_other iid p q" and "reuse_state iid p" and "\<not> offers_at iid a p"
  shows "\<not> offers_at iid a q"
  using other_offers [OF assms(1)] assms(2,3) by (auto simp: reuse_state_def offers_at_def)

section \<open>A closed channel means that the slot was taken\<close>

lemma grant_onces: "ep_onces ((if u then grant_unique else grant_reuse) now i a p) = ep_onces p"
  by (auto simp: grant_proj ep_onces_def map_update_same)

lemma acquire_onces: "acquire_locked acq p = (r, q) \<Longrightarrow> ep_onces q = ep_onces p"
  by (erule acquire_rule [where P = "\<lambda>q. ep_onces q = ep_onces p"]) (simp_all add: frame_simps grant_onces)

lemma once_nth: "a < length (p_eps p) \<Longrightarrow> ep_once (ep_of p a) = ep_onces p ! a"
  by (simp add: ep_onces_def ep_of_def)

lemma close_done_frames:
  assumes "close_done_once b p = Some q"
  shows "slot_eps q = slot_eps p" "ep_onces q = ep_onces p \<or> ep_onces q = (ep_onces p)[b := True]"
  using assms by (auto simp: close_done_once_def frame_simps ep_onces_set split: if_splits)

lemma finish_takes_slot:
  assumes "finish_reuse b err now p = Some q" and "slot_in p (ep_id (ep_of p b))"
  shows "ep_onces q = ep_onces p \<or>
    (ep_onces q = (ep_onces p)[b := True] \<and> slot_eps q ! (ep_id (ep_of p b) - 1) \<noteq> Some b)"
proof -
  let ?iid = "ep_id (ep_of p b)"
  let ?p1 = "count_result ?iid err (upd_ep b (\<lambda>e. if ep_active e > 0 then e\<lparr>ep_active := ep_active e - 1\<rparr> else e) p)"
  have o1: "ep_onces ?p1 = ep_onces p" and s1: "slot_eps ?p1 = slot_eps p"
    and l1: "length (p_slots ?p1) = length (p_slots p)"
    by (simp_all add: frame_simps ep_onces_upd)
  show ?thesis
  proof (cases err)
    case None
    with assms(1) o1 show ?thesis by (auto simp: finish_reuse_def Let_def split: if_splits)
  next
    case (Some e)
    let ?p3 = "upd_ep b (\<lambda>x. x\<lparr>ep_last_err := Some e\<rparr>) ?p1"
    let ?p4 = "if slot_ep (slot_of ?p3 ?iid) = Some b
               then event_locked ?iid ''Request finished; rotating'' now
                     (upd_view ?iid (\<lambda>v. v\<lparr>view_state := S_Rotating, view_last_error := error_text e\<rparr>)
                       (upd_slot ?iid (\<lambda>s. s\<lparr>slot_ep := None\<rparr>) ?p3))
               else ?p3"
    have in3: "slot_in ?p3 ?iid" using assms(2) l1 by (simp add: slot_in_def frame_simps)
    have i: "?iid - 1 < length (slot_eps p)" using assms(2) by (auto simp: slot_in_def slot_eps_def)
    have "ep_onces ?p4 = ep_onces p" using o1 by (simp add: frame_simps ep_onces_upd)
    moreover have "slot_eps ?p4 ! (?iid - 1) \<noteq> Some b"
      using slot_ep_eps [OF in3] i s1 by (simp add: frame_simps)
    moreover have "close_done_once b ?p4 = Some q"
      using assms Some by (simp add: finish_reuse_def Let_def split: if_splits)
    ultimately show ?thesis using close_done_frames [of b ?p4 q] by auto
  qed
qed

text \<open>The invariant while the worker waits: a closed \<open>done\<close> means that the slot no longer offers the endpoint.\<close>

definition done_taken :: "nat \<Rightarrow> nat \<Rightarrow> pool \<Rightarrow> bool" where
  "done_taken iid a p \<longleftrightarrow> (ep_once (ep_of p a) \<longrightarrow> \<not> offers_at iid a p)"

lemma other_onces:
  assumes "pool_other iid p q" and "reuse_state iid p" and "has_ep iid a p"
  shows "ep_onces q ! a = ep_onces p ! a \<or> \<not> offers_at iid a q"
proof -
  obtain op where op: "pool_exec op p = Some q" using assms(1) by (auto simp: pool_other_def)
  have a: "a < length (ep_onces p)" "a < length (p_eps p)" "ep_id (ep_of p a) = iid"
    and m: "\<not> p_unique p" and s: "slot_in p iid" and w: "pool_wf p"
    using assms(2,3) by (simp_all add: has_ep_def reuse_state_def ep_onces_def)
  have sq: "slot_in q iid" using reuse_state_step [OF pool_exec_step [OF op] assms(2)] by (simp add: reuse_state_def)
  show ?thesis
  proof (cases op)
    case (Op_New i ip circuit token c)
    with op a show ?thesis by (auto simp: add_endpoint_def ep_onces_def nth_append split: if_splits)
  next
    case (Op_State i st progress problem now)
    with op show ?thesis by (auto simp: pool_state_frame ep_onces_def split: if_splits)
  next
    case (Op_Publish env now b)
    with op show ?thesis by (auto simp: ep_onces_def publish_frame split: if_splits)
  next
    case (Op_Acquire acq)
    then obtain r where "acquire_locked acq p = (r, q)" using op by (cases "acquire_locked acq p") auto
    then show ?thesis using acquire_onces by simp
  next
    case Op_Reject
    with op show ?thesis by (auto simp: count_rejected_def ep_onces_def)
  next
    case (Op_Withdraw b)
    then show ?thesis using op withdraw_proj(3) by (auto split: if_splits)
  next
    case (Op_Cancel b)
    with op show ?thesis by (auto simp: frame_simps split: if_splits)
  next
    case (Op_Finish l err now)
    let ?b = "lease_ep (p_leases p ! l)"
    let ?p = "p\<lparr>p_leases := (p_leases p)[l := (p_leases p ! l)\<lparr>lease_once := True\<rparr>]\<rparr>"
    from Op_Finish have l: "l < length (p_leases p)" and f: "finish_lease l err now p = Some q"
      using op by (auto split: if_splits)
    have b: "?b < length (p_eps p)" using w l by (auto simp: pool_wf_def leases_ok_def)
    then have "slot_in p (ep_id (ep_of p ?b))" by (rule ep_id_in [OF w])
    then have sb: "slot_in ?p (ep_id (ep_of ?p ?b))" by (simp add: slot_in_def ep_of_def)
    have fields: "ep_onces ?p = ep_onces p" "ep_of ?p = ep_of p" by (simp_all add: ep_onces_def ep_of_def fun_eq_iff)
    consider "q = p" | "finish_reuse ?b err now ?p = Some q"
    proof (cases "lease_once (p_leases p ! l)")
      case True
      then show thesis using f m that(1) by (simp add: finish_lease_def)
    next
      case False
      then show thesis using f m that(2) by (simp add: finish_lease_def Let_def)
    qed
    then show ?thesis
    proof cases
      case 2
      note t = finish_takes_slot [OF this sb, unfolded fields]
      have "slot_eps q ! (iid - 1) \<noteq> Some a \<Longrightarrow> \<not> offers_at iid a q"
        using slot_ep_eps [OF sq] by (simp add: offers_at_def)
      then show ?thesis using t a(3) by (cases "a = ?b") (metis, metis nth_list_update_neq)
    qed simp
  qed
qed

lemma other_done:
  assumes "pool_other iid p q" and "reuse_state iid p" and "has_ep iid a p" and "done_taken iid a p"
  shows "done_taken iid a q"
proof -
  have "has_ep iid a q" by (rule has_ep_step [OF other_step [OF assms(1)] assms(3)])
  then show ?thesis
    using other_onces [OF assms(1-3)] other_away [OF assms(1,2)] assms(3,4) once_nth [of a p] once_nth [of a q]
    by (auto simp: done_taken_def has_ep_def)
qed

section \<open>The number of its requests does not grow\<close>

lemma offered_here:
  assumes "pool_wf p" and "has_ep iid a p" and "i < length (p_slots p)" and "slot_eps p ! i = Some a"
    and "slot_in p iid"
  shows "offers_at iid a p"
proof -
  have "slot_ep (p_slots p ! i) = Some a" using assms(3,4) by (simp add: slot_eps_def)
  then have "ep_id (p_eps p ! a) = i + 1"
    using assms(1,3) by (auto simp: pool_wf_def slots_ok_def slot_ok_def)
  then have "iid = i + 1" using assms(2) by (simp add: has_ep_def ep_of_def)
  then show ?thesis using assms(4,5) slot_ep_eps [of p iid] by (simp add: offers_at_def)
qed

lemma acquire_actives:
  assumes "acquire_locked acq p = (r, q)" and "reuse_state iid p" and "has_ep iid a p" and "\<not> offers_at iid a p"
  shows "ep_actives q ! a = ep_actives p ! a"
proof -
  let ?P = "\<lambda>s. slot_eps s = slot_eps p \<and> ep_actives s ! a = ep_actives p ! a"
  have m: "\<not> p_unique p" and w: "pool_wf p" and sl: "slot_in p iid" using assms(2) by (simp_all add: reuse_state_def)
  have "?P q"
  proof (rule acquire_rule [where P = ?P, OF assms(1)])
    fix s b i env t
    assume s: "?P s" and i: "i < length (p_slots s)" and sv: "servable s (p_slots s ! i) = Some b"
    have "slot_eps s ! i = Some b" using sv i by (auto simp: servable_Some slot_eps_def)
    moreover have "i < length (p_slots p)" using i s by (metis length_map slot_eps_def)
    ultimately have "b \<noteq> a" using s offered_here [OF w assms(3) _ _ sl] assms(4) by auto
    then have "ep_actives (grant_reuse (acq_now acq) i b (s\<lparr>p_store := t\<rparr>)) ! a = ep_actives s ! a"
      by (simp add: ep_actives_def grant_proj map_update)
    then show "?P ((if p_unique p then grant_unique else grant_reuse) (acq_now acq) i b (s\<lparr>p_store := t\<rparr>))"
      using s m by (simp add: grant_frames frame_simps)
  next
    fix s b
    assume "?P s"
    then show "?P (cancel_ep b s)" by (simp add: frame_simps)
  qed (simp_all add: slot_eps_def ep_actives_def)
  then show ?thesis by simp
qed

lemma withdraw_actives: "withdraw a p = Some q \<Longrightarrow> ep_actives q = ep_actives p"
  by (auto simp: withdraw_def Let_def frame_simps split: if_splits)

lemma other_active:
  assumes "pool_other iid p q" and "reuse_state iid p" and "has_ep iid a p" and "\<not> offers_at iid a p"
  shows "ep_actives q ! a \<le> ep_actives p ! a"
proof -
  obtain op where op: "pool_exec op p = Some q" using assms(1) by (auto simp: pool_other_def)
  have a: "a < length (ep_actives p)" "a < length (p_eps p)" and m: "\<not> p_unique p"
    using assms(2,3) by (simp_all add: has_ep_def reuse_state_def ep_actives_def)
  show ?thesis
  proof (cases op)
    case (Op_New i ip circuit token c)
    with op a show ?thesis by (auto simp: add_endpoint_def ep_actives_def nth_append split: if_splits)
  next
    case (Op_State i st progress problem now)
    with op show ?thesis by (auto simp: pool_state_frame ep_actives_def split: if_splits)
  next
    case (Op_Publish env now b)
    with op show ?thesis by (auto simp: ep_actives_def publish_frame split: if_splits)
  next
    case (Op_Acquire acq)
    then obtain r where "acquire_locked acq p = (r, q)" using op by (cases "acquire_locked acq p") auto
    then show ?thesis using acquire_actives assms(2-4) by simp
  next
    case Op_Reject
    with op show ?thesis by (auto simp: count_rejected_def ep_actives_def)
  next
    case (Op_Withdraw b)
    then show ?thesis using op withdraw_actives by (auto split: if_splits)
  next
    case (Op_Cancel b)
    with op show ?thesis by (auto simp: frame_simps split: if_splits)
  next
    case (Op_Finish l err now)
    let ?b = "lease_ep (p_leases p ! l)"
    let ?p = "p\<lparr>p_leases := (p_leases p)[l := (p_leases p ! l)\<lparr>lease_once := True\<rparr>]\<rparr>"
    from Op_Finish have f: "finish_lease l err now p = Some q" using op by (auto split: if_splits)
    have e: "ep_actives ?p = ep_actives p" by (simp add: ep_actives_def)
    show ?thesis
    proof (cases "lease_once (p_leases p ! l)")
      case True
      then show ?thesis using f m by (simp add: finish_lease_def)
    next
      case False
      then have "finish_reuse ?b err now ?p = Some q" using f m by (simp add: finish_lease_def Let_def)
      from finish_reuse_proj(4) [OF this, unfolded e] show ?thesis using a by (cases "a = ?b") simp_all
    qed
  qed
qed

section \<open>The stages of a cycle\<close>

text \<open>
  1: the endpoint is offered; 2: the slot was taken from it; 3: and no request uses it any more. An endpoint that the pool refused is in
  stage 3 at once.
\<close>

fun stage :: "nat \<Rightarrow> cycle_act list \<Rightarrow> nat" where
  "stage k [] = k"
| "stage k (act # acts) =
     stage (case act of
              Cy_Publish ip r \<Rightarrow> if r = (True, None) then 1 else 3
            | Cy_Wake w \<Rightarrow> if w = Wake_Done \<and> k = 1 then 2 else k
            | Cy_Active n \<Rightarrow> if n = 0 \<and> k = 2 then 3 else k
            | _ \<Rightarrow> k) acts"

lemma stage_append [simp]: "stage k (xs @ ys) = stage (stage k xs) ys"
  by (induction k xs rule: stage.induct) simp_all

definition stage_ok :: "nat \<Rightarrow> nat \<Rightarrow> nat option \<Rightarrow> pool \<Rightarrow> bool" where
  "stage_ok iid k at p \<longleftrightarrow> reuse_state iid p \<and>
     (case at of None \<Rightarrow> k = 0
      | Some a \<Rightarrow> has_ep iid a p \<and> 0 < k \<and> done_taken iid a p \<and> (2 \<le> k \<longrightarrow> \<not> offers_at iid a p) \<and>
          (3 \<le> k \<longrightarrow> ep_actives p ! a = 0))"

lemma stage_other: "pool_other iid p q \<Longrightarrow> stage_ok iid k at p \<Longrightarrow> stage_ok iid k at q"
  using other_done [of iid p q] other_away [of iid p q] other_active [of iid p q]
    reuse_state_step [OF other_step] has_ep_step [OF other_step]
  by (fastforce simp: stage_ok_def split: option.splits)

lemma stage_publish:
  assumes "pool_offer iid ip r a p q" and "reuse_state iid p"
  shows "stage_ok iid (if r = (True, None) then 1 else 3) (Some a) q"
proof -
  obtain circuit token dead env now where i: "slot_in p iid" "a = length (p_eps p)"
    and pub: "publish env now a (add_endpoint (new_endpoint iid ip circuit token dead) p) = Some (r, q)"
    using assms(1) by (auto simp: pool_offer_def)
  let ?e = "new_endpoint iid ip circuit token dead"
  let ?p1 = "add_endpoint ?e p"
  have s1: "pool_step p ?p1" using i by (intro step_new)
  have l: "a < length (p_eps ?p1)" and e: "ep_of ?p1 a = ?e" using i by (simp_all add: ep_of_def add_endpoint_def)
  have s2: "pool_step ?p1 q" by (rule step_publish [OF l pub])
  have st: "reuse_state iid q" by (rule reuse_state_step [OF s2 reuse_state_step [OF s1 assms(2)]])
  have eq: "p_eps q = p_eps ?p1" by (rule publish_frame [OF pub])
  have ep: "ep_of q a = ?e" using e eq by (simp add: ep_of_def)
  have h: "has_ep iid a q" using l eq ep by (simp add: has_ep_def new_endpoint_def)
  have d: "done_taken iid a q" using ep by (simp add: done_taken_def new_endpoint_def)
  have act: "ep_actives q ! a = 0" using ep l eq by (simp add: ep_actives_def ep_of_def new_endpoint_def)
  have "\<not> offers_at iid a q" if "r \<noteq> (True, None)"
  proof -
    have sl: "slot_eps q = slot_eps p"
      using publish_slots [OF pub] that by (simp add: add_endpoint_def slot_eps_def)
    have "slot_in q iid" using st by (simp add: reuse_state_def)
    moreover have "slot_ep (slot_of p iid) \<noteq> Some a"
    proof
      assume "slot_ep (slot_of p iid) = Some a"
      moreover have "slot_ok (p_eps p) (iid - 1) (p_slots p ! (iid - 1))" "iid - 1 < length (p_slots p)"
        using assms(2) i(1) by (auto simp: reuse_state_def pool_wf_def slots_ok_def slot_in_def)
      ultimately show False using i(2) by (simp add: slot_ok_def slot_of_def)
    qed
    ultimately show ?thesis using sl slot_ep_eps [of q iid] slot_ep_eps [OF i(1)] by (simp add: offers_at_def)
  qed
  with st h d act show ?thesis by (simp add: stage_ok_def)
qed

lemma stage_withdraw:
  assumes "pool_retract a p q" and "stage_ok iid k (Some a) p"
  shows "stage_ok iid k (Some a) q"
proof -
  have w: "withdraw a p = Some q" using assms(1) by (simp add: pool_retract_def)
  have p: "reuse_state iid p" "has_ep iid a p" "done_taken iid a p" using assms(2) by (simp_all add: stage_ok_def)
  then have s: "pool_step p q" by (intro step_withdraw [OF _ w]) (simp add: has_ep_def)
  have q: "reuse_state iid q" "has_ep iid a q"
    by (rule reuse_state_step [OF s p(1)], rule has_ep_step [OF s p(2)])
  have sl: "slot_in p iid" "slot_in q iid" using p(1) q(1) by (simp_all add: reuse_state_def)
  then have "iid - 1 < length (slot_eps p)" by (auto simp: slot_in_def slot_eps_def)
  then have away: "\<not> offers_at iid a q"
    using withdraw_proj(1) [OF w] slot_ep_eps [OF sl(1)] slot_ep_eps [OF sl(2)] p(2)
    by (auto simp: offers_at_def has_ep_def)
  with assms(2) q withdraw_actives [OF w] show ?thesis
    by (simp add: stage_ok_def done_taken_def)
qed

lemma stage_sees:
  assumes "stage_ok iid k at p" and "plain_act act" and "\<forall>a. at = Some a \<longrightarrow> pool_sees a act p"
  shows "stage_ok iid (stage k [act]) at p"
proof (cases at)
  case None
  with assms show ?thesis by (cases act) (auto simp: stage_ok_def)
next
  case (Some a)
  have h: "reuse_state iid p" "has_ep iid a p" using assms(1) Some by (simp_all add: stage_ok_def)
  then have once: "ep_done (ep_of p a) = ep_once (ep_of p a)"
    by (auto simp: reuse_state_def pool_wf_def eps_ok_def has_ep_def ep_of_def)
  have act: "reuse_active a p = ep_actives p ! a"
    using h by (simp add: reuse_active_def ep_actives_def ep_of_def has_ep_def)
  show ?thesis
    using assms Some once act by (cases act) (auto simp: stage_ok_def done_taken_def)
qed

lemma plays_stage:
  assumes "cycle_plays (pool_other iid) (pool_offer iid) pool_retract cancel_ep pool_sees at acts p q at'"
    and "stage_ok iid k at p" and "Cy_Cancel \<notin> set acts"
  shows "stage_ok iid (stage k acts) at' q"
  using assms
proof (induction arbitrary: k rule: cycle_plays.induct)
  case (cp_other s s1 at acts s2 at')
  then show ?case using stage_other by blast
next
  case (cp_publish ip r a s s1 acts s2 at')
  then have "reuse_state iid s" by (simp add: stage_ok_def)
  from stage_publish [OF cp_publish.hyps(1) this] cp_publish.IH [of "if r = (True, None) then 1 else 3"]
    cp_publish.prems(2) show ?case by (simp split: if_splits)
next
  case (cp_withdraw a s s1 acts s2 at')
  then show ?case using stage_withdraw [of a s s1 iid k] by simp
next
  case (cp_plain act at s acts s2 at')
  from stage_sees [OF cp_plain.prems(1) cp_plain.hyps(1,2)] cp_plain.IH [of "stage k [act]"] cp_plain.prems(2)
  show ?case by simp
qed simp_all

section \<open>A cycle in reuse mode\<close>

lemma plain_stage: "list_all plain_act xs \<Longrightarrow> stage 0 xs = 0"
proof (induction xs)
  case (Cons x xs)
  then show ?case by (cases x) auto
qed simp

lemma drain_stage: "last (drain_reuse ticks left) = Cy_Active 0 \<Longrightarrow> stage 2 (drain_reuse ticks left) = 3"
proof (induction ticks left rule: drain_reuse.induct)
  case (2 n ticks left)
  have "drain_reuse ticks left \<noteq> []" by (cases ticks) simp_all
  with 2 show ?case by (cases "n = 0") simp_all
qed simp

text \<open>
  The part of a cycle before its worker ends the context of the endpoint: \<open>withdraw\<close> does (pool.go), and the
  deferred \<open>epCancel\<close> where it comes first.
\<close>

fun ends_context :: "cycle_act \<Rightarrow> bool" where
  "ends_context Cy_Withdraw \<longleftrightarrow> True"
| "ends_context Cy_Cancel \<longleftrightarrow> True"
| "ends_context _ \<longleftrightarrow> False"

definition before_end :: "cycle_act list \<Rightarrow> cycle_act list" where
  "before_end acts = takeWhile (\<lambda>act. \<not> ends_context act) acts"

lemma before_end_simps [simp]:
  "before_end [] = []" "ends_context x \<Longrightarrow> before_end (x # xs) = []"
  "\<not> ends_context x \<Longrightarrow> before_end (x # xs) = x # before_end xs"
  by (simp_all add: before_end_def)

lemma before_end_append [simp]: "list_all plain_act xs \<Longrightarrow> before_end (xs @ ys) = xs @ before_end ys"
proof (induction xs)
  case (Cons x xs)
  then show ?case by (cases x) simp_all
qed simp

lemma before_end_no_cancel: "Cy_Cancel \<notin> set (before_end acts)"
  by (auto simp: before_end_def dest: set_takeWhileD)

lemma reuse_stage:
  assumes "cycle_reuse env ip = (r, acts)" and "ce_wake env = Wake_Done"
    and "last (drain_reuse (ce_ticks env) (ce_left env)) = Cy_Active 0"
  shows "stage k (before_end (acts @ Cy_Current None # Cy_Cancel # rest)) = 3"
proof -
  obtain failing reads where reads: "keeps_failing env = (failing, reads)" by (metis surj_pair)
  have plain: "list_all plain_act reads" using keeps_plain [of env] reads by simp
  have two: "stage 2 reads = 2" using reads by (auto simp: keeps_failing_def split: if_splits)
  obtain ready e where pub: "ce_publish env = (ready, e)" by (metis surj_pair)
  consider (failed) "e \<noteq> None \<or> \<not> ready" | (offered) "e = None" "ready" by blast
  then show ?thesis
  proof cases
    case failed
    with assms(1) pub show ?thesis by (auto simp: cycle_reuse_def split: option.splits)
  next
    case offered
    then have "acts = Cy_Publish ip (True, None) # Cy_Wake Wake_Done # reads @ drain_reuse (ce_ticks env) (ce_left env) @
        [Cy_Withdraw, Cy_LastErr (ce_last_err_end env)]"
      using assms(1,2) pub reads by (auto simp: cycle_reuse_def Let_def)
    then show ?thesis using plain two drain_plain drain_stage [OF assms(3)] by simp
  qed
qed

lemma endpoint_stage:
  assumes "cycle_endpoint False env circuit = (r, acts)" and "ce_wake env = Wake_Done"
    and "last (drain_reuse (ce_ticks env) (ce_left env)) = Cy_Active 0"
  shows "stage 0 (before_end (acts @ rest)) \<in> {0, 3}"
  using assms(1) reuse_stage [OF _ assms(2,3)]
  by (auto simp: cycle_endpoint_def Let_def split: sum.splits option.splits prod.splits)

lemma cycle_stage:
  assumes "ce_wake env = Wake_Done" and "last (drain_reuse (ce_ticks env) (ce_left env)) = Cy_Active 0"
  shows "stage 0 (before_end (snd (cycle False env))) \<in> {0, 3}"
proof -
  have polls: "list_all plain_act polls" "stage 0 polls = 0" if "await_built c x s ps = (e, polls)" for c x s ps e polls
    using await_plain [of c x s ps] that plain_stage by simp_all
  show ?thesis
    using endpoint_stage [OF _ assms] polls
    by (auto simp: cycle_def Let_def split: sum.splits option.splits prod.splits)
qed

text \<open>
  Claim C10. In reuse mode a circuit is ended for a failed request only when no request uses it: when the last
  number \<open>drainReuse\<close> sees is zero, then right before the worker ends the context of the endpoint for the first time (in \<open>withdraw\<close>, or
  in the deferred \<open>epCancel\<close>), whatever other goroutines have
  done to the pool since, no lease of the endpoint is unfinished, and its slot does not offer it.
\<close>

theorem reuse_drained:
  assumes "pool_reachable cfg t p" and "\<not> UniqueIP cfg" and "slot_in p iid"
    and "ce_wake env = Wake_Done" and "last (drain_reuse (ce_ticks env) (ce_left env)) = Cy_Active 0"
    and "pool_cycle iid (before_end (snd (cycle False env))) p q (Some a)"
  shows "in_flight_on q a = 0 \<and> slot_ep (slot_of q iid) \<noteq> Some a"
proof -
  let ?acts = "before_end (snd (cycle False env))"
  have "pool_wf p" using assms(1) wf_steps wf_new_pool by (auto simp: pool_reachable_def)
  then have p: "stage_ok iid 0 None p"
    using count_reachable [OF assms(1)] assms(2,3) by (simp add: stage_ok_def reuse_state_def)
  from plays_stage [OF assms(6) [unfolded pool_cycle_def] p before_end_no_cancel]
  have q: "stage_ok iid (stage 0 ?acts) (Some a) q" .
  then have "stage 0 ?acts = 3" using cycle_stage [OF assms(4,5)] by (auto simp: stage_ok_def)
  with q have h: "has_ep iid a q" "reuse_state iid q" "\<not> offers_at iid a q" "ep_actives q ! a = 0"
    by (simp_all add: stage_ok_def)
  then have "in_flight_on q a = ep_actives q ! a"
    by (auto simp: reuse_state_def count_ok_def active_ok_def has_ep_def ep_actives_def)
  with h show ?thesis by (simp add: offers_at_def)
qed

text \<open>
  Two requests share the circuit; the first one fails, so that the worker wakes up and waits, and the second one ends while
  it waits.
\<close>

definition demo_reuse :: cycle_env where
  "demo_reuse = demo_cycle\<lparr>ce_fails := 1, ce_ticks := [1], ce_left := 0\<rparr>"

definition shared_ops :: "pool_op list" where
  "shared_ops = [Op_New 1 ''8.8.8.8'' ''7'' ''ab'' False, Op_Publish sql_ok (At 3) 0, Op_Acquire (acq_ok (At 5)),
     Op_Acquire (acq_ok (At 6)), Op_Finish 0 (Some (Err_Text ''reset'')) (At 7), Op_Finish 1 None (At 8)]"

abbreviation shared :: "nat \<Rightarrow> pool" where
  "shared n \<equiv> demo_pool False (take n shared_ops)"

lemma demo_reuse_acts:
  "before_end (snd (cycle False demo_reuse)) =
     [Cy_Command ''EXTENDCIRCUIT 0 purpose=general'', Cy_Command ''GETINFO circuit-status'',
      Cy_Command ''GETINFO circuit-status'', Cy_Current (Some (''7'', ''ab'')), Cy_Publish ''8.8.8.8'' (True, None),
      Cy_Wake Wake_Done, Cy_LastErr (Some (Err_Text ''reset'')), Cy_Failures 1, Cy_Active 1, Cy_Active 0]"
proof -
  have c: "extended_circuit [''EXTENDED 7'', ''OK''] = ''7''" "valid_circuit ''7''" by code_simp+
  have b: "\<not> circuit_built ''7'' [''circuit-status=7 LAUNCHED'', ''OK'']"
    "circuit_built ''7'' [''circuit-status='' @ newline # ''6 BUILT'' @ newline # ''7 BUILT $A'', ''OK'']"
    by code_simp+
  have i: "check_ip (demo_answer ''8.8.8.8'') = Inr ''8.8.8.8''" by code_simp
  have h: "hex_encode [char_of (171::nat)] = ''ab''" by code_simp
  show ?thesis
    by (simp add: cycle_def demo_reuse_def demo_cycle_def c b [simplified] await_built.simps cycle_endpoint_def i h
        cycle_reuse_def keeps_failing_def max_consecutive_serve_failures_def Let_def)
qed

lemma shared_other:
  assumes "pool_run (take (Suc n) shared_ops) (new_pool (demo_cfg False) [] (At 0)) \<noteq> None" and "n < 6"
    and "case shared_ops ! n of Op_Publish env now b \<Rightarrow> False | _ \<Rightarrow> True"
  shows "pool_other (Suc 0) (shared n) (shared (Suc n))"
proof -
  have "length shared_ops = 6" by (simp add: shared_ops_def)
  then have t: "take (Suc n) shared_ops = take n shared_ops @ [shared_ops ! n]"
    using assms(2) by (simp add: take_Suc_conv_app_nth)
  then obtain p q where p: "pool_run (take n shared_ops) (new_pool (demo_cfg False) [] (At 0)) = Some p"
    and q: "pool_exec (shared_ops ! n) p = Some q" and s: "shared (Suc n) = q"
    using assms(1) by (auto simp: pool_run_append demo_pool_def Option.bind_eq_Some_conv split: option.splits)
  then show ?thesis
    using assms(3) unfolding pool_other_def
    by (intro exI [of _ "shared_ops ! n"]) (auto simp: demo_pool_def)
qed

lemma shared_offer: "pool_offer (Suc 0) ''8.8.8.8'' (True, None) 0 (shared 0) (shared 2)"
proof -
  let ?p1 = "add_endpoint (new_endpoint 1 ''8.8.8.8'' ''7'' ''ab'' False) (shared 0)"
  have p: "map_option fst (publish sql_ok (At 3) 0 ?p1) = Some (True, None)"
    "slot_in (shared 0) 1" "length (p_eps (shared 0)) = 0" "length (p_eps ?p1) = 1"
    by code_simp+
  then obtain q where q: "publish sql_ok (At 3) 0 ?p1 = Some ((True, None), q)" by auto
  have "shared 0 = new_pool (demo_cfg False) [] (At 0)" by (simp add: demo_pool_def)
  then have "shared 2 = q" using p q by (simp add: demo_pool_def shared_ops_def)
  with p q show ?thesis
    unfolding pool_offer_def
    by (intro exI [of _ "''7''"] exI [of _ "''ab''"] exI [of _ False] exI [of _ sql_ok] exI [of _ "At 3"]) simp
qed

lemma shared_others:
  "pool_other (Suc 0) (shared 2) (shared 3)" "pool_other (Suc 0) (shared 3) (shared 4)"
  "pool_other (Suc 0) (shared 4) (shared 5)" "pool_other (Suc 0) (shared 5) (shared 6)"
proof -
  have r: "pool_run (take 3 shared_ops) (new_pool (demo_cfg False) [] (At 0)) \<noteq> None"
    "pool_run (take 4 shared_ops) (new_pool (demo_cfg False) [] (At 0)) \<noteq> None"
    "pool_run (take 5 shared_ops) (new_pool (demo_cfg False) [] (At 0)) \<noteq> None"
    "pool_run (take 6 shared_ops) (new_pool (demo_cfg False) [] (At 0)) \<noteq> None"
    by code_simp+
  show "pool_other (Suc 0) (shared 2) (shared 3)" "pool_other (Suc 0) (shared 3) (shared 4)"
    "pool_other (Suc 0) (shared 4) (shared 5)" "pool_other (Suc 0) (shared 5) (shared 6)"
    using shared_other [of 2] shared_other [of 3] shared_other [of 4] shared_other [of 5] r
    by (simp_all add: shared_ops_def)
qed

lemma shared_sees:
  "pool_sees 0 (Cy_Wake Wake_Done) (shared 5)" "pool_sees 0 (Cy_LastErr (Some (Err_Text ''reset''))) (shared 5)"
  "pool_sees 0 (Cy_Failures 1) (shared 5)" "pool_sees 0 (Cy_Active 1) (shared 5)" "pool_sees 0 (Cy_Active 0) (shared 6)"
  by code_simp+

lemma shared_cycle: "pool_cycle 1 (before_end (snd (cycle False demo_reuse))) (shared 0) (shared 6) (Some 0)"
  unfolding pool_cycle_def demo_reuse_acts
  apply (simp only: One_nat_def)
  apply (rule cp_plain, simp, simp)+
  apply (rule cp_publish [where offer = "pool_offer (Suc 0)"], rule shared_offer)
  apply (rule cp_other [where other = "pool_other (Suc 0)"], rule shared_others(1))
  apply (rule cp_other [where other = "pool_other (Suc 0)"], rule shared_others(2))
  apply (rule cp_other [where other = "pool_other (Suc 0)"], rule shared_others(3))
  apply (rule cp_plain, simp, use shared_sees(1) in simp)
  apply (rule cp_plain, simp, use shared_sees(2) in simp)
  apply (rule cp_plain, simp, use shared_sees(3) in simp)
  apply (rule cp_plain, simp, use shared_sees(4) in simp)
  apply (rule cp_other [where other = "pool_other (Suc 0)"], rule shared_others(4))
  apply (rule cp_plain, simp, use shared_sees(5) in simp)
  apply (rule cp_end)
  done

theorem reuse_drained_witness:
  "pool_cycle 1 (before_end (snd (cycle False demo_reuse))) (shared 0) (shared 6) (Some 0) \<and>
     length (p_leases (shared 6)) = 2 \<and> in_flight_on (shared 6) 0 = 0"
proof -
  have p: "pool_reachable (demo_cfg False) [] (shared 0)" by (rule demo_reachable) simp
  have c: "\<not> UniqueIP (demo_cfg False)" "slot_in (shared 0) 1" "length (p_leases (shared 6)) = 2" by code_simp+
  have d: "ce_wake demo_reuse = Wake_Done" "last (drain_reuse (ce_ticks demo_reuse) (ce_left demo_reuse)) = Cy_Active 0"
    by (simp_all add: demo_reuse_def demo_cycle_def)
  from reuse_drained [OF p c(1,2) d shared_cycle] shared_cycle c(3)
  show ?thesis by blast
qed

end
