(* ===== verification/Worker.thy ===== *)
theory Worker
  imports Cycle Paths
begin

text \<open>
  The worker of one instance in \<open>internal/app/tor.go\<close>: \<open>superviseTor\<close>, \<open>runTor\<close> and the
  goroutine of \<open>RunWorkers\<close>, with the decisions they take. What files, processes, the control
  connection and the waits answer are records; the calls are lists of actions.
\<close>

section \<open>Durations\<close>

definition millisecond :: duration where "millisecond = 1000000"

definition second :: duration where "second = 1000000000"

text \<open>\<open>jitter\<close>; \<open>r\<close> is the answer of \<open>rand.IntN(1000)\<close>.\<close>

definition jitter :: "nat \<Rightarrow> duration \<Rightarrow> duration" where
  "jitter r d = d + int r * millisecond"

definition initial_backoff :: duration where
  "initial_backoff = 10 * second"

definition next_backoff :: "duration \<Rightarrow> duration" where
  "next_backoff b = min (60 * second) (b * 2)"

section \<open>Decisions\<close>

definition progress_key :: string where "progress_key = ''PROGRESS=''"

definition bootstrap_progress :: "string \<Rightarrow> int" where
  "bootstrap_progress line =
     (case find (\<lambda>f. has_prefix f progress_key) (go_fields line) of
        Some f \<Rightarrow> max 0 (min (fst (atoi (trim_prefix f progress_key))) 100)
      | None \<Rightarrow> 0)"

text \<open>The answer and the new value of \<open>*streak\<close>.\<close>

definition should_restart_for_used_ip :: "config \<Rightarrow> int \<Rightarrow> gerr option \<Rightarrow> bool \<times> int" where
  "should_restart_for_used_ip cfg streak err =
     (let streak = (if UniqueIP cfg \<and> err_is err Err_UsedIP then streak + 1 else 0)
      in (UniqueIP cfg \<and> streak \<ge> MaxUsedIPRetries cfg, streak))"

definition needs_fresh_restart :: "gerr option \<Rightarrow> bool" where
  "needs_fresh_restart err \<longleftrightarrow>
     err_is err Err_FreshRestart \<or> err_is err Err_BootstrapStuck \<or> err_is err Err_ServeFailures"

section \<open>Actions\<close>

datatype worker_act =
    W_State inst_state int "gerr option"
  | W_Pause duration
  | W_Command string
  | W_Cycle "cycle_act list"
  | W_Mkdir string
  | W_Remove string
  | W_Write string string
  | W_Start string
  | W_Signal            \<comment> \<open>SIGTERM\<close>
  | W_Kill
  | W_Events
  | W_Close             \<comment> \<open>\<open>ctrl.Close()\<close>\<close>
  | W_Reset string      \<comment> \<open>\<open>os.RemoveAll\<close>\<close>

section \<open>superviseTor: the bootstrap\<close>

text \<open>A dial of the control socket that failed: the process has exited, the time is up, or it is tried again.\<close>

datatype dial_fail = Df_Exited "gerr option" | Df_Expired | Df_Retry

definition stuck :: "string \<Rightarrow> gerr" where
  "stuck what = Err_Wrap (what @ '': '' @ error_text Err_BootstrapStuck) Err_BootstrapStuck"

definition show_err :: "gerr option \<Rightarrow> string" where
  "show_err e = (case e of None \<Rightarrow> ''<nil>'' | Some x \<Rightarrow> error_text x)"

fun dial_control :: "dial_fail list \<Rightarrow> gerr option \<times> worker_act list" where
  "dial_control [] = (None, [])"
| "dial_control (Df_Exited e # rest) = (Some (stuck (''Tor exited during bootstrap: '' @ show_err e)), [])"
| "dial_control (Df_Expired # rest) =
     (Some (stuck ''waiting for Tor control socket''), [W_Pause (200 * millisecond)])"
| "dial_control (Df_Retry # rest) =
     (case dial_control rest of (r, acts) \<Rightarrow> (r, W_Pause (200 * millisecond) # acts))"

text \<open>
  The answers during the bootstrap. The pauses between the phases succeed, the one after the last does not;
  \<open>be_budget\<close> is the configured time as it is printed.
\<close>

record boot_env =
  be_dials :: "dial_fail list"
  be_auth :: "gerr option"
  be_setevents :: "gerr option"
  be_phase :: "gerr + string list"
  be_phases :: "(gerr + string list) list"
  be_budget :: string

fun await_bootstrap :: "string \<Rightarrow> gerr + string list \<Rightarrow> (gerr + string list) list \<Rightarrow> gerr option \<times> worker_act list" where
  "await_bootstrap budget answer rest =
     (let cmd = W_Command ''GETINFO status/bootstrap-phase'' in
      case answer of
        Inl e \<Rightarrow> (Some (stuck ''bootstrap''), [cmd])
      | Inr lines \<Rightarrow>
          let progress = bootstrap_progress (join_with '' '' lines);
              acts = [cmd, W_State S_Bootstrapping progress None] in
          if progress = 100 then (None, acts)
          else (case rest of
                  [] \<Rightarrow> (Some (stuck (''bootstrap did not reach 100% within '' @ budget)), acts @ [W_Pause second])
                | answer' # rest' \<Rightarrow>
                    (case await_bootstrap budget answer' rest' of
                       (r, more_acts) \<Rightarrow> (r, acts @ W_Pause second # more_acts))))"

declare await_bootstrap.simps [simp del]

text \<open>From the connection to a working Tor; \<open>W_Events\<close> starts the goroutine of \<open>torSession.events\<close>.\<close>

definition bootstrap :: "boot_env \<Rightarrow> gerr option \<times> worker_act list" where
  "bootstrap env =
     (let auth = [W_Command ''AUTHENTICATE''] in
      if be_auth env \<noteq> None then (Some (stuck ''authenticate control connection''), auth)
      else
        let sub = auth @ [W_Command ''SETEVENTS STREAM CIRC''] in
        if be_setevents env \<noteq> None then (Some (stuck ''subscribe to control events''), sub)
        else (case await_bootstrap (be_budget env) (be_phase env) (be_phases env) of
                (r, acts) \<Rightarrow> (r, sub @ W_Events # acts)))"

section \<open>superviseTor: the cycles\<close>

text \<open>
  One turn of the loop: the cycle, whether the context has ended after it, whether the control connection is
  closed, the random part of the pause, how the pause ended, and what \<open>SIGNAL NEWNYM\<close> answered.
\<close>

record turn_env =
  te_cycle :: cycle_env
  te_ctx :: "gerr option"
  te_closed :: bool
  te_rand :: nat
  te_pause :: "gerr option"
  te_newnym :: "gerr option"

text \<open>\<open>ctx_err\<close> is \<open>ctx.Err()\<close> when the context has ended at the head of the loop.\<close>

fun supervise_loop :: "config \<Rightarrow> gerr \<Rightarrow> turn_env list \<Rightarrow> duration \<Rightarrow> int \<Rightarrow> gerr \<times> worker_act list" where
  "supervise_loop cfg ctx_err [] backoff streak = (ctx_err, [])"
| "supervise_loop cfg ctx_err (t # turns) backoff streak =
     (case cycle (UniqueIP cfg) (te_cycle t) of
        (err, cycle_acts) \<Rightarrow>
          let head = [W_State S_Checking 100 None, W_Cycle cycle_acts] in
          case te_ctx t of Some e \<Rightarrow> (e, head)
          | None \<Rightarrow>
          if te_closed t then (Err_ControlClosed, head)
          else (case should_restart_for_used_ip cfg streak err of
            (True, streak) \<Rightarrow> (Err_FreshRestart, head)
          | (False, streak) \<Rightarrow>
              let backoff = (if err \<noteq> None then next_backoff backoff else initial_backoff);
                  acts = head @ [if err \<noteq> None then W_State S_Retrying (-1) err else W_State S_Rotating (-1) None,
                    W_Pause (jitter (te_rand t) backoff)] in
              case te_pause t of Some e \<Rightarrow> (e, acts)
              | None \<Rightarrow>
                  let acts = acts @ [W_Command ''SIGNAL NEWNYM''] in
                  case te_newnym t of Some e \<Rightarrow> (e, acts)
                  | None \<Rightarrow>
                      (case supervise_loop cfg ctx_err turns backoff streak of
                         (r, rest) \<Rightarrow> (r, acts @ rest))))"

declare supervise_loop.simps [simp del]

text \<open>\<open>ctrl.Close()\<close> is deferred as soon as the control connection exists.\<close>

definition supervise_tor :: "config \<Rightarrow> boot_env \<Rightarrow> gerr \<Rightarrow> turn_env list \<Rightarrow> gerr \<times> worker_act list" where
  "supervise_tor cfg boot ctx_err turns =
     (let start = W_State S_Bootstrapping 0 None in
      case dial_control (be_dials boot) of
        (Some e, dials) \<Rightarrow> (e, start # dials)
      | (None, dials) \<Rightarrow>
          (case bootstrap boot of
             (Some e, acts) \<Rightarrow> (e, start # dials @ acts @ [W_Close])
           | (None, acts) \<Rightarrow>
               (case supervise_loop cfg ctx_err turns initial_backoff 0 of
                  (r, rest) \<Rightarrow> (r, start # dials @ acts @ rest @ [W_Close]))))"

section \<open>runTor\<close>

text \<open>
  The configuration of the process; \<open>quote\<close> is \<open>strconv.Quote\<close>, whose tables of printable runes are not
  modelled.
\<close>

definition tor_lines :: "(string \<Rightarrow> string) \<Rightarrow> string \<Rightarrow> string \<Rightarrow> string \<Rightarrow> string list" where
  "tor_lines quote data_dir control_path socks_path =
     [''DataDirectory '' @ quote data_dir,
      ''SocksPort unix:'' @ socks_path @ '' NoIPv6Traffic NoOnionTraffic'',
      ''ControlSocket '' @ quote control_path,
      ''CookieAuthentication 0'', ''ClientOnly 1'', ''RunAsDaemon 0'', ''AvoidDiskWrites 1'',
      ''GeoIPFile /dev/null'', ''GeoIPv6File /dev/null'', ''__LeaveStreamsUnattached 1'', ''Log notice stdout'']"

definition tor_configuration :: "(string \<Rightarrow> string) \<Rightarrow> string \<Rightarrow> string \<Rightarrow> string \<Rightarrow> string" where
  "tor_configuration quote data_dir control_path socks_path =
     concat (map (\<lambda>l. l @ [char_of (10::nat)]) (tor_lines quote data_dir control_path socks_path))"

text \<open>
  The answers of the file system and of the process. \<open>rn_removes\<close> tells for each socket the error of removing
  it and whether that is \<open>os.ErrNotExist\<close>.
\<close>

record run_env =
  rn_mkdirs :: "gerr option \<times> gerr option"
  rn_removes :: "(gerr \<times> bool) option \<times> (gerr \<times> bool) option"
  rn_write :: "gerr option"
  rn_start :: "gerr option"
  rn_boot :: boot_env
  rn_turns :: "turn_env list"
  rn_ctx_err :: gerr
  rn_exited :: bool     \<comment> \<open>the process has already ended when \<open>superviseTor\<close> returns\<close>
  rn_graceful :: bool   \<comment> \<open>it ends within five seconds of the signal\<close>

definition remove_error :: "(gerr \<times> bool) option \<Rightarrow> gerr option" where
  "remove_error r = (case r of Some (e, False) \<Rightarrow> Some e | _ \<Rightarrow> None)"

definition stop_process :: "run_env \<Rightarrow> worker_act list" where
  "stop_process env =
     (if rn_exited env then [] else if rn_graceful env then [W_Signal] else [W_Signal, W_Kill])"

definition run_tor ::
  "(string \<Rightarrow> string) \<Rightarrow> config \<Rightarrow> string \<Rightarrow> nat \<Rightarrow> run_env \<Rightarrow> gerr \<times> worker_act list" where
  "run_tor quote cfg runtime_dir iid env =
     (let data_dir = path_join [DataDir cfg, ''tor'', itoa iid];
          socket_dir = path_join [runtime_dir, itoa iid];
          control_path = path_join [socket_dir, ''control''];
          socks_path = path_join [socket_dir, ''socks''];
          config_path = path_join [socket_dir, ''torrc''] in
      case fst (rn_mkdirs env) of Some e \<Rightarrow> (e, [W_Mkdir data_dir])
      | None \<Rightarrow>
      case snd (rn_mkdirs env) of Some e \<Rightarrow> (e, [W_Mkdir data_dir, W_Mkdir socket_dir])
      | None \<Rightarrow>
      let dirs = [W_Mkdir data_dir, W_Mkdir socket_dir] in
      case remove_error (fst (rn_removes env)) of Some e \<Rightarrow> (e, dirs @ [W_Remove control_path])
      | None \<Rightarrow>
      let files = dirs @ [W_Remove control_path, W_Remove socks_path] in
      case remove_error (snd (rn_removes env)) of Some e \<Rightarrow> (e, files)
      | None \<Rightarrow>
      let files = files @ [W_Write config_path (tor_configuration quote data_dir control_path socks_path)] in
      case rn_write env of Some e \<Rightarrow> (e, files)
      | None \<Rightarrow>
      case rn_start env of
        Some e \<Rightarrow> (Err_Wrap (''start Tor: '' @ error_text e) e, files @ [W_Start config_path])
      | None \<Rightarrow>
          (case supervise_tor cfg (rn_boot env) (rn_ctx_err env) (rn_turns env) of
             (r, acts) \<Rightarrow> (r, files @ [W_Start config_path] @ acts @ stop_process env)))"

section \<open>RunWorkers\<close>

text \<open>
  One run of the process by the worker: whether the context has ended after it, what the reset found (the working
  directory and the answer of \<open>os.RemoveAll\<close>), the random part of the pause and whether it was cut short.
\<close>

record life_env =
  le_run :: run_env
  le_ctx_done :: bool
  le_wd :: "gerr + string"
  le_rm :: "gerr option"
  le_rand :: nat
  le_pause_ok :: bool

text \<open>\<open>Stopped\<close> is the last thing a worker reports, unless the reset of its state fails.\<close>

fun worker_loop ::
  "(string \<Rightarrow> string) \<Rightarrow> config \<Rightarrow> string \<Rightarrow> nat \<Rightarrow> life_env list \<Rightarrow> duration \<Rightarrow> worker_act list" where
  "worker_loop quote cfg runtime_dir iid [] backoff = [W_State S_Stopped (-1) None]"
| "worker_loop quote cfg runtime_dir iid (l # lives) backoff =
     (case run_tor quote cfg runtime_dir iid (le_run l) of
        (err, acts) \<Rightarrow>
          if le_ctx_done l then acts @ [W_State S_Stopped (-1) None]
          else if needs_fresh_restart (Some err)
          then
            let acts = acts @ [W_State S_Restarting 0 (Some err)] in
            (case reset_instance_data (le_wd l) (le_rm l) (DataDir cfg) (int iid) of
               (target, reset_err) \<Rightarrow>
                 let acts = acts @ (case target of None \<Rightarrow> [] | Some d \<Rightarrow> [W_Reset d]) in
                 case reset_err of
                   Some e \<Rightarrow> acts @ [W_State S_Error 0 (Some e)]
                 | None \<Rightarrow>
                     acts @ W_Pause (jitter (le_rand l) initial_backoff) #
                       (if le_pause_ok l then worker_loop quote cfg runtime_dir iid lives initial_backoff
                        else [W_State S_Stopped (-1) None]))
          else
            acts @ [W_State S_Error 0 (Some err), W_Pause (jitter (le_rand l) backoff)] @
              (if le_pause_ok l then worker_loop quote cfg runtime_dir iid lives (next_backoff backoff)
               else [W_State S_Stopped (-1) None]))"

text \<open>
  The goroutine of instance \<open>iid\<close>: \<open>start\<close> is the answer of \<open>rand.IntN(2000)\<close>. A worker whose first pause
  is cut short ends without a word.
\<close>

definition worker ::
  "(string \<Rightarrow> string) \<Rightarrow> config \<Rightarrow> string \<Rightarrow> nat \<Rightarrow> nat \<Rightarrow> bool \<Rightarrow> life_env list \<Rightarrow> worker_act list" where
  "worker quote cfg runtime_dir iid start started lives =
     W_Pause (int start * millisecond) #
       (if started then worker_loop quote cfg runtime_dir iid lives initial_backoff else [])"

text \<open>\<open>RunWorkers\<close>: one worker for each instance number.\<close>

definition run_workers ::
  "(string \<Rightarrow> string) \<Rightarrow> config \<Rightarrow> string \<Rightarrow> (nat \<Rightarrow> nat \<times> bool \<times> life_env list) \<Rightarrow> (nat \<times> worker_act list) list" where
  "run_workers quote cfg runtime_dir envs =
     map (\<lambda>iid. case envs iid of (start, started, lives) \<Rightarrow>
            (iid, worker quote cfg runtime_dir iid start started lives)) [1..<TorCount cfg + 1]"

end
