(* ===== verification/WorkerProps.thy ===== *)
theory WorkerProps
  imports Worker CycleProps
begin

text \<open>
  The properties of the worker: when it restarts an instance from scratch and when it does not, how long
  it waits, what it reports and which files it removes.
\<close>

section \<open>Used addresses\<close>

text \<open>The specification: the number of cycles in a row, up to the last one, that ended with a used address.\<close>

definition used_run :: "bool \<Rightarrow> gerr option list \<Rightarrow> nat" where
  "used_run unique errs = (if unique then length (takeWhile (\<lambda>e. err_is e Err_UsedIP) (rev errs)) else 0)"

lemma used_run_snoc:
  "used_run unique (errs @ [e]) = (if unique \<and> err_is e Err_UsedIP then Suc (used_run unique errs) else 0)"
  by (simp add: used_run_def)

lemma restart_used_run:
  "should_restart_for_used_ip cfg (int (used_run (UniqueIP cfg) errs)) e =
     (UniqueIP cfg \<and> MaxUsedIPRetries cfg \<le> int (used_run (UniqueIP cfg) (errs @ [e])),
      int (used_run (UniqueIP cfg) (errs @ [e])))"
  by (auto simp: should_restart_for_used_ip_def Let_def used_run_snoc add.commute)

text \<open>Whether the cycle with number \<open>k\<close> completes a run that is long enough.\<close>

definition restart_due :: "config \<Rightarrow> gerr option list \<Rightarrow> nat \<Rightarrow> bool" where
  "restart_due cfg errs k \<longleftrightarrow>
     UniqueIP cfg \<and> MaxUsedIPRetries cfg \<le> int (used_run (UniqueIP cfg) (take k errs))"

definition turn_err :: "config \<Rightarrow> turn_env \<Rightarrow> gerr option" where
  "turn_err cfg t = fst (cycle (UniqueIP cfg) (te_cycle t))"

definition quiet :: "turn_env \<Rightarrow> bool" where
  "quiet t \<longleftrightarrow> te_ctx t = None \<and> \<not> te_closed t \<and> te_pause t = None \<and> te_newnym t = None"

fun is_cycle :: "worker_act \<Rightarrow> bool" where
  "is_cycle (W_Cycle c) \<longleftrightarrow> True"
| "is_cycle _ \<longleftrightarrow> False"

definition cycles :: "worker_act list \<Rightarrow> nat" where
  "cycles acts = length (filter is_cycle acts)"

lemma loop_quiet:
  assumes "quiet t"
  shows "supervise_loop cfg ctx_err (t # turns) b s =
    (let err = turn_err cfg t; head = [W_State S_Checking 100 None, W_Cycle (snd (cycle (UniqueIP cfg) (te_cycle t)))];
         x = should_restart_for_used_ip cfg s err; b' = (if err \<noteq> None then next_backoff b else initial_backoff) in
     if fst x then (Err_FreshRestart, head)
     else (case supervise_loop cfg ctx_err turns b' (snd x) of (r, rest) \<Rightarrow>
       (r, head @ [if err \<noteq> None then W_State S_Retrying (-1) err else W_State S_Rotating (-1) None,
          W_Pause (jitter (te_rand t) b'), W_Command ''SIGNAL NEWNYM''] @ rest)))"
  using assms
  by (auto simp: supervise_loop.simps quiet_def turn_err_def Let_def split: prod.splits bool.splits)

lemma restart_induct:
  assumes "list_all quiet turns"
    and "supervise_loop cfg ctx_err turns b (int (used_run (UniqueIP cfg) prev)) = (r, acts)"
  shows "let due = (\<lambda>k. UniqueIP cfg \<and> MaxUsedIPRetries cfg \<le>
      int (used_run (UniqueIP cfg) (prev @ map (turn_err cfg) (take k turns)))) in
    (\<forall>k. 1 \<le> k \<and> k < cycles acts \<longrightarrow> \<not> due k) \<and> cycles acts \<le> length turns \<and>
    (if 1 \<le> cycles acts \<and> due (cycles acts) then r = Err_FreshRestart
     else cycles acts = length turns \<and> r = ctx_err)"
  using assms
proof (induction turns arbitrary: b prev acts)
  case Nil
  then show ?case by (simp add: cycles_def supervise_loop.simps)
next
  case (Cons t turns)
  have q: "quiet t" "list_all quiet turns" using Cons.prems(1) by simp_all
  let ?e = "turn_err cfg t"
  define due where "due = (\<lambda>k. UniqueIP cfg \<and> MaxUsedIPRetries cfg \<le>
      int (used_run (UniqueIP cfg) (prev @ map (turn_err cfg) (take k (t # turns)))))"
  have one: "should_restart_for_used_ip cfg (int (used_run (UniqueIP cfg) prev)) ?e =
      (due 1, int (used_run (UniqueIP cfg) (prev @ [?e])))"
    by (simp add: restart_used_run due_def)
  have cyc: "is_cycle (W_State st n e) = False" "is_cycle (W_Pause d) = False" "is_cycle (W_Command c) = False"
    for st n e d c by simp_all
  show ?case
  proof (cases "due 1")
    case True
    then have "r = Err_FreshRestart" "cycles acts = 1"
      using Cons.prems(2) unfolding loop_quiet [OF q(1)] Let_def one by (auto simp: cycles_def)
    with True show ?thesis unfolding due_def [symmetric] Let_def by simp
  next
    case False
    define b' where "b' = (if ?e \<noteq> None then next_backoff b else initial_backoff)"
    obtain r' rest where l: "supervise_loop cfg ctx_err turns b' (int (used_run (UniqueIP cfg) (prev @ [?e]))) = (r', rest)"
      by (metis surj_pair)
    have r: "r' = r" and n: "cycles acts = Suc (cycles rest)"
      using Cons.prems(2) False l
      unfolding loop_quiet [OF q(1)] Let_def one b'_def [symmetric] by (auto simp: cycles_def)
    define due' where "due' = (\<lambda>k. UniqueIP cfg \<and> MaxUsedIPRetries cfg \<le>
      int (used_run (UniqueIP cfg) ((prev @ [?e]) @ map (turn_err cfg) (take k turns))))"
    have d: "due (Suc k) = due' k" for k by (simp add: due_def due'_def)
    note ih = Cons.IH [OF q(2) l [unfolded r], unfolded Let_def due'_def [symmetric]]
    have "\<not> due k" if k: "1 \<le> k" "k < cycles acts" for k
    proof (cases "k = 1")
      case True
      with False show ?thesis by simp
    next
      case neq: False
      then obtain j where j: "k = Suc j" "1 \<le> j" using k(1) by (cases k) auto
      with k(2) n ih show ?thesis by (simp add: d)
    qed
    moreover have "if 1 \<le> cycles acts \<and> due (cycles acts) then r = Err_FreshRestart
       else cycles acts = length (t # turns) \<and> r = ctx_err"
    proof (cases "cycles rest = 0")
      case True
      then have "\<not> due (cycles acts)" using False n by simp
      with ih True r n show ?thesis by auto
    next
      case neq: False
      then have "1 \<le> cycles rest" by simp
      with ih r n show ?thesis by (auto simp: d)
    qed
    ultimately show ?thesis using ih n unfolding due_def [symmetric] Let_def by auto
  qed
qed

text \<open>
  Claim C19. As long as nothing else ends the supervision, an instance is rebuilt from scratch after exactly
  the first cycle that completes a run of \<open>MAX_USED_IP_RETRIES\<close> used addresses in a row, and only in
  unique mode; a success or any other error starts the count again. Otherwise every cycle is run and the loop
  ends with the context.
\<close>

theorem used_ip_restart:
  assumes "list_all quiet turns" and "supervise_loop cfg ctx_err turns initial_backoff 0 = (r, acts)"
    and "errs = map (turn_err cfg) turns"
  shows "(\<forall>k. 1 \<le> k \<and> k < cycles acts \<longrightarrow> \<not> restart_due cfg errs k) \<and> cycles acts \<le> length turns \<and>
    (if 1 \<le> cycles acts \<and> restart_due cfg errs (cycles acts) then r = Err_FreshRestart
     else cycles acts = length turns \<and> r = ctx_err)"
proof -
  have "supervise_loop cfg ctx_err turns initial_backoff (int (used_run (UniqueIP cfg) [])) = (r, acts)"
    using assms(2) by (simp add: used_run_def)
  from restart_induct [OF assms(1) this, unfolded Let_def append_Nil] show ?thesis
    unfolding restart_due_def assms(3) take_map .
qed

text \<open>Four cycles whose address is used, with a limit of three.\<close>

definition demo_used :: turn_env where
  "demo_used = \<lparr>te_cycle = demo_cycle\<lparr>ce_publish := (False, Some (used_ip_error ''8.8.8.8''))\<rparr>, te_ctx = None,
     te_closed = False, te_rand = 0, te_pause = None, te_newnym = None\<rparr>"

lemma demo_used_err: "turn_err (demo_cfg True) demo_used = Some (used_ip_error ''8.8.8.8'')"
proof -
  have c: "extended_circuit [''EXTENDED 7'', ''OK''] = ''7''" "valid_circuit ''7''" by code_simp+
  have b: "\<not> circuit_built ''7'' [''circuit-status=7 LAUNCHED'', ''OK'']"
    "circuit_built ''7'' [''circuit-status='' @ newline # ''6 BUILT'' @ newline # ''7 BUILT $A'', ''OK'']"
    by code_simp+
  have i: "check_ip (demo_answer ''8.8.8.8'') = Inr ''8.8.8.8''" by code_simp
  show ?thesis
    by (simp add: turn_err_def cycle_def demo_used_def demo_cfg_def demo_cycle_def c b [simplified]
        await_built.simps cycle_endpoint_def i cycle_unique_def Let_def)
qed

theorem used_ip_restart_witness:
  "\<exists>acts. supervise_loop (demo_cfg True) Ctx_Canceled (replicate 4 demo_used) initial_backoff 0
     = (Err_FreshRestart, acts) \<and> cycles acts = 3"
proof -
  let ?errs = "replicate 4 (Some (used_ip_error ''8.8.8.8''))"
  obtain r acts where l: "supervise_loop (demo_cfg True) Ctx_Canceled (replicate 4 demo_used) initial_backoff 0
     = (r, acts)" by (metis surj_pair)
  have q: "list_all quiet (replicate 4 demo_used)" by (simp add: quiet_def demo_used_def list_all_iff)
  have e: "?errs = map (turn_err (demo_cfg True)) (replicate 4 demo_used)" by (simp add: demo_used_err)
  have d: "\<not> restart_due (demo_cfg True) ?errs 1" "\<not> restart_due (demo_cfg True) ?errs 2"
    "restart_due (demo_cfg True) ?errs 3" "restart_due (demo_cfg True) ?errs 4" by code_simp+
  note u = used_ip_restart [OF q l e]
  have "cycles acts \<le> 4" using u by simp
  then consider "cycles acts = 0" | "cycles acts = 1" | "cycles acts = 2" | "cycles acts = 3" | "cycles acts = 4"
    by linarith
  then have "cycles acts = 3 \<and> r = Err_FreshRestart"
  proof cases
    case 5
    have "\<not> restart_due (demo_cfg True) ?errs 3" using conjunct1 [OF u] 5 by simp
    with d show ?thesis by simp
  qed (use u d in simp_all)
  with l show ?thesis by auto
qed

section \<open>What makes a worker start from scratch\<close>

text \<open>Errors of the environment: none of them is one of the worker's own.\<close>

definition foreign_err :: "gerr \<Rightarrow> bool" where
  "foreign_err e \<longleftrightarrow> \<not> errors_is e Err_FreshRestart \<and> \<not> errors_is e Err_BootstrapStuck \<and> \<not> errors_is e Err_ServeFailures"

definition foreign_turn :: "turn_env \<Rightarrow> bool" where
  "foreign_turn t \<longleftrightarrow> (\<forall>e \<in> set_option (te_ctx t) \<union> set_option (te_pause t) \<union> set_option (te_newnym t). foreign_err e)"

lemma stuck_is [simp]: "errors_is (stuck what) Err_BootstrapStuck" "errors_is (stuck what) e \<longleftrightarrow> e = stuck what \<or> e = Err_BootstrapStuck"
  by (auto simp: stuck_def)

lemma loop_errors:
  assumes "foreign_err ctx_err" and "list_all foreign_turn turns"
    and "supervise_loop cfg ctx_err turns b s = (r, acts)"
  shows "r = Err_FreshRestart \<and> UniqueIP cfg \<or> foreign_err r"
  using assms
proof (induction turns arbitrary: b s r acts)
  case Nil
  then show ?case by (simp add: supervise_loop.simps)
next
  case (Cons t turns)
  have closed: "foreign_err Err_ControlClosed" by (simp add: foreign_err_def)
  have u: "UniqueIP cfg" if "should_restart_for_used_ip cfg s e = (True, s')" for s e s'
    using that by (auto simp: should_restart_for_used_ip_def Let_def split: if_splits)
  show ?case
    using Cons.prems Cons.IH [OF Cons.prems(1)] closed u
    by (auto simp: supervise_loop.simps foreign_turn_def Let_def
        split: prod.splits option.splits if_splits bool.splits)
qed

lemma dial_stuck: "dial_control ds = (Some e, acts) \<Longrightarrow> \<exists>what. e = stuck what"
  by (induction ds arbitrary: e acts rule: dial_control.induct) (auto split: prod.splits)

lemma phases_stuck: "await_bootstrap budget a rest = (Some e, acts) \<Longrightarrow> \<exists>what. e = stuck what"
proof (induction rest arbitrary: a acts)
  case Nil
  then show ?case by (subst (asm) await_bootstrap.simps) (auto simp: Let_def split: sum.splits if_splits)
next
  case (Cons a' rest)
  from Cons.prems Cons.IH [of a'] show ?case
    by (subst (asm) await_bootstrap.simps) (auto simp: Let_def split: sum.splits if_splits prod.splits)
qed

lemma bootstrap_stuck: "bootstrap env = (Some e, acts) \<Longrightarrow> \<exists>what. e = stuck what"
  using phases_stuck by (auto simp: bootstrap_def Let_def split: if_splits prod.splits)

text \<open>
  Where the code departs from its comments: they name a third reason to rebuild an instance, three serving failures in
  a row, and \<open>needsFreshRestart\<close> tests for it. But the error that a cycle reports for them never leaves \<open>superviseTor\<close>, which
  retries with another circuit of the same process; what is left is a bootstrap that did not finish, at any of
  its steps, and, in unique mode, the run of used addresses.
\<close>

theorem restart_causes:
  assumes "foreign_err ctx_err" and "list_all foreign_turn turns"
    and "supervise_tor cfg boot ctx_err turns = (r, acts)"
  shows "(needs_fresh_restart (Some r) \<longleftrightarrow>
      fst (dial_control (be_dials boot)) \<noteq> None \<or> fst (bootstrap boot) \<noteq> None \<or> r = Err_FreshRestart) \<and>
    (r = Err_FreshRestart \<longrightarrow> UniqueIP cfg) \<and> \<not> errors_is r Err_ServeFailures"
proof (cases "dial_control (be_dials boot)")
  case d: (Pair de dials)
  show ?thesis
  proof (cases de)
    case (Some e)
    then have "r = e" using assms(3) d by (simp add: supervise_tor_def Let_def)
    moreover obtain what where "e = stuck what" using dial_stuck d Some by blast
    ultimately show ?thesis using d Some by (simp add: needs_fresh_restart_def stuck_def)
  next
    case None
    obtain be bacts where b: "bootstrap boot = (be, bacts)" by (metis surj_pair)
    show ?thesis
    proof (cases be)
      case (Some e)
      then have "r = e" using assms(3) d None b by (simp add: supervise_tor_def Let_def)
      moreover obtain what where "e = stuck what" using bootstrap_stuck b Some by blast
      ultimately show ?thesis using b Some by (simp add: needs_fresh_restart_def stuck_def)
    next
      case be: None
      obtain rest where l: "supervise_loop cfg ctx_err turns initial_backoff 0 = (r, rest)"
        using assms(3) d None b be by (auto simp: supervise_tor_def Let_def split: prod.splits)
      from loop_errors [OF assms(1,2) l] d None b be show ?thesis
        by (auto simp: needs_fresh_restart_def foreign_err_def)
    qed
  qed
qed

definition demo_boot :: boot_env where
  "demo_boot = \<lparr>be_dials = [Df_Retry], be_auth = None, be_setevents = None,
     be_phase = Inr [''status/bootstrap-phase=NOTICE BOOTSTRAP PROGRESS=100 TAG=done'', ''OK''], be_phases = [],
     be_budget = ''5m0s''\<rparr>"

text \<open>
  The cycle that reports three serving failures, then the end of the context: the worker has retried, and would not start
  from scratch.
\<close>

definition demo_failing :: turn_env where
  "demo_failing = demo_used\<lparr>te_cycle := demo_cycle\<rparr>"

theorem restart_causes_witness:
  "\<exists>e acts. err_is (fst (cycle True (te_cycle demo_failing))) Err_ServeFailures \<and>
     supervise_tor (demo_cfg True) demo_boot Ctx_Canceled [demo_failing] = (e, acts) \<and> \<not> needs_fresh_restart (Some e)"
proof -
  obtain r acts where s: "supervise_tor (demo_cfg True) demo_boot Ctx_Canceled [demo_failing] = (r, acts)"
    by (metis surj_pair)
  have f: "foreign_err Ctx_Canceled" "list_all foreign_turn [demo_failing]"
    by (simp_all add: foreign_err_def foreign_turn_def demo_failing_def demo_used_def)
  have b: "fst (dial_control (be_dials demo_boot)) = None" "fst (bootstrap demo_boot) = None" by code_simp+
  have c: "cycle True (te_cycle demo_failing) = (Some (serve_failure (Some (Err_Text ''reset''))), demo_acts)"
    by (simp add: demo_failing_def demo_cycle_acts)
  have u: "UniqueIP (demo_cfg True)" by code_simp
  have "r = Ctx_Canceled"
  proof -
    have "fst (supervise_loop (demo_cfg True) Ctx_Canceled [demo_failing] initial_backoff 0) = Ctx_Canceled"
      using u c by (simp add: supervise_loop.simps demo_failing_def demo_used_def should_restart_for_used_ip_def
          serve_failure_def Let_def demo_cfg_def)
    then show ?thesis using s b by (auto simp: supervise_tor_def Let_def split: prod.splits)
  qed
  then have "\<not> needs_fresh_restart (Some r)" using restart_causes [OF f s] b by auto
  moreover have "err_is (fst (cycle True (te_cycle demo_failing))) Err_ServeFailures"
    unfolding c by (simp add: serve_failure_def)
  ultimately show ?thesis using s by blast
qed

end
