(* ===== verification/WorkerTraces.thy ===== *)
theory WorkerTraces
  imports WorkerProps
begin

text \<open>
  What the actions of a worker have in common: the pauses it makes, the states it reports and the files
  of its instance that it removes.
\<close>

section \<open>The actions of one run of the process\<close>

definition backoff_ok :: "duration \<Rightarrow> bool" where
  "backoff_ok b \<longleftrightarrow> initial_backoff \<le> b \<and> b \<le> 60 * second"

lemma backoff_simps [simp]: "backoff_ok initial_backoff" "backoff_ok b \<Longrightarrow> backoff_ok (next_backoff b)"
  by (auto simp: backoff_ok_def initial_backoff_def second_def next_backoff_def)

lemma jitter_range:
  "backoff_ok b \<Longrightarrow> r < 1000 \<Longrightarrow> 10 * second \<le> jitter r b \<and> jitter r b < 61 * second"
  "r < 1000 \<Longrightarrow> 10 * second \<le> jitter r initial_backoff \<and> jitter r initial_backoff < 11 * second"
  by (auto simp: backoff_ok_def jitter_def initial_backoff_def second_def millisecond_def)

text \<open>The two sockets of an instance, which \<open>runTor\<close> removes before it starts the process.\<close>

definition sockets :: "string \<Rightarrow> nat \<Rightarrow> string set" where
  "sockets runtime_dir iid =
     {path_join [path_join [runtime_dir, itoa iid], ''control''], path_join [path_join [runtime_dir, itoa iid], ''socks'']}"

text \<open>The actions a run can consist of; \<open>removes\<close> are the files it may remove.\<close>

fun run_act :: "string set \<Rightarrow> worker_act \<Rightarrow> bool" where
  "run_act removes (W_State st n e) \<longleftrightarrow> st \<notin> {S_Ready, S_Busy, S_Stopped} \<and> -1 \<le> n \<and> n \<le> 100"
| "run_act removes (W_Remove f) \<longleftrightarrow> f \<in> removes"
| "run_act removes (W_Reset d) \<longleftrightarrow> False"
| "run_act removes _ \<longleftrightarrow> True"

definition turns_ok :: "turn_env list \<Rightarrow> bool" where
  "turns_ok turns \<longleftrightarrow> list_all (\<lambda>t. te_rand t < 1000) turns"

lemma progress_range: "0 \<le> bootstrap_progress line \<and> bootstrap_progress line \<le> 100"
  by (auto simp: bootstrap_progress_def split: option.splits)

lemma progress_reports [simp]: "bootstrap_progress line \<le> 100" "-1 \<le> bootstrap_progress line"
  using progress_range [of line] by linarith+

lemma loop_acts: "list_all (run_act removes) (snd (supervise_loop cfg ctx_err turns b s))"
proof (induction turns arbitrary: b s)
  case Nil
  then show ?case by (simp add: supervise_loop.simps)
next
  case (Cons t turns)
  then show ?case
    by (auto simp: supervise_loop.simps Let_def split: prod.splits option.splits bool.splits) (metis snd_conv)+
qed

lemma dial_acts: "list_all (run_act removes) (snd (dial_control ds))"
  by (induction ds rule: dial_control.induct) (auto split: prod.splits)

lemma phases_acts: "list_all (run_act removes) (snd (await_bootstrap budget a rest))"
proof (induction rest arbitrary: a)
  case Nil
  then show ?case by (subst await_bootstrap.simps) (auto simp: Let_def split: sum.splits)
next
  case (Cons a' rest)
  from Cons.IH [of a'] show ?case
    by (subst await_bootstrap.simps) (auto simp: Let_def split: sum.splits prod.splits)
qed

lemma run_acts: "list_all (run_act (sockets runtime_dir iid)) (snd (run_tor quote cfg runtime_dir iid env))"
proof -
  let ?ok = "list_all (run_act (sockets runtime_dir iid))"
  have b: "?ok (snd (bootstrap boot))" for boot
    using phases_acts [of "sockets runtime_dir iid" "be_budget boot" "be_phase boot" "be_phases boot"]
    by (auto simp: bootstrap_def Let_def split: prod.splits)
  have "?ok (snd (supervise_tor cfg (rn_boot env) (rn_ctx_err env) (rn_turns env)))"
    using b [of "rn_boot env"] dial_acts [of "sockets runtime_dir iid" "be_dials (rn_boot env)"]
      loop_acts [of "sockets runtime_dir iid" cfg "rn_ctx_err env" "rn_turns env" initial_backoff 0]
    by (auto simp: supervise_tor_def Let_def split: prod.splits option.splits)
  then show ?thesis
    by (auto simp: run_tor_def stop_process_def sockets_def Let_def split: prod.splits option.splits)
qed

text \<open>A worker whose process cannot be started, for the witnesses.\<close>

definition demo_life :: life_env where
  "demo_life = \<lparr>le_run = \<lparr>rn_mkdirs = (None, None), rn_removes = (None, Some (Err_Text ''missing'', True)),
       rn_write = None, rn_start = Some (Err_Text ''no tor''), rn_boot = demo_boot, rn_turns = [],
       rn_ctx_err = Ctx_Canceled, rn_exited = True, rn_graceful = True\<rparr>,
     le_ctx_done = False, le_wd = Inr ''/'', le_rm = None, le_rand = 7, le_pause_ok = False\<rparr>"

lemma demo_worker:
  "worker_loop quote cfg dir 1 [demo_life] initial_backoff =
     snd (run_tor quote cfg dir 1 (le_run demo_life)) @
       [W_State S_Error 0 (Some (Err_Wrap ''start Tor: no tor'' (Err_Text ''no tor''))),
        W_Pause (jitter 7 initial_backoff), W_State S_Stopped (-1) None]"
  by (simp add: demo_life_def run_tor_def remove_error_def needs_fresh_restart_def Let_def)

section \<open>Pauses\<close>

definition rands_ok :: "life_env \<Rightarrow> bool" where
  "rands_ok l \<longleftrightarrow> le_rand l < 1000 \<and> turns_ok (rn_turns (le_run l))"

text \<open>
  The pause that may follow an action: the one at the start of a worker, the polls for the control
  socket and for the progress of the bootstrap, and the waits between two attempts.
\<close>

definition pause_ok :: "worker_act option \<Rightarrow> duration \<Rightarrow> bool" where
  "pause_ok prev d \<longleftrightarrow>
     (case prev of
        None \<Rightarrow> 0 \<le> d \<and> d < 2 * second
      | Some (W_State st n e) \<Rightarrow>
          if st = S_Bootstrapping then n = 0 \<and> d = 200 * millisecond \<or> n < 100 \<and> d = second
          else if st = S_Rotating then 10 * second \<le> d \<and> d < 11 * second
          else st \<in> {S_Retrying, S_Error} \<and> 10 * second \<le> d \<and> d < 61 * second
      | Some (W_Pause poll) \<Rightarrow> poll = 200 * millisecond \<and> d = 200 * millisecond
      | Some (W_Reset dir) \<Rightarrow> 10 * second \<le> d \<and> d < 11 * second
      | Some _ \<Rightarrow> False)"

fun pauses_ok :: "worker_act option \<Rightarrow> worker_act list \<Rightarrow> bool" where
  "pauses_ok prev [] \<longleftrightarrow> True"
| "pauses_ok prev (W_Pause d # acts) \<longleftrightarrow> pause_ok prev d \<and> pauses_ok (Some (W_Pause d)) acts"
| "pauses_ok prev (act # acts) \<longleftrightarrow> pauses_ok (Some act) acts"

lemma pauses_append: "pauses_ok prev xs \<Longrightarrow> (\<And>p. pauses_ok p ys) \<Longrightarrow> pauses_ok prev (xs @ ys)"
  by (induction prev xs rule: pauses_ok.induct) auto

lemma pauses_again: "pauses_ok prev xs \<Longrightarrow> (\<And>p. pauses_ok p (y # ys)) \<Longrightarrow> pauses_ok prev (xs @ y # ys)"
  by (rule pauses_append)

lemma dial_pauses:
  "pause_ok prev (200 * millisecond) \<Longrightarrow> pauses_ok prev (snd (dial_control ds))"
  by (induction ds arbitrary: prev rule: dial_control.induct) (auto simp: pause_ok_def split: prod.splits)

lemma phases_pauses: "pauses_ok prev (snd (await_bootstrap budget a rest))"
proof (induction rest arbitrary: prev a)
  case Nil
  have "bootstrap_progress line \<noteq> 100 \<Longrightarrow> bootstrap_progress line < 100" for line
    using progress_range [of line] by linarith
  then show ?case by (subst await_bootstrap.simps) (auto simp: Let_def pause_ok_def split: sum.splits)
next
  case (Cons a' rest)
  have "bootstrap_progress line \<noteq> 100 \<Longrightarrow> bootstrap_progress line < 100" for line
    using progress_range [of line] by linarith
  moreover obtain r more where "await_bootstrap budget a' rest = (r, more)" by (metis surj_pair)
  moreover from this have "pauses_ok p more" for p using Cons.IH [of p a'] by simp
  ultimately show ?case
    by (subst await_bootstrap.simps) (auto simp: Let_def pause_ok_def split: sum.splits)
qed

lemma loop_pauses:
  "turns_ok turns \<Longrightarrow> backoff_ok b \<Longrightarrow> pauses_ok prev (snd (supervise_loop cfg ctx_err turns b s))"
proof (induction turns arbitrary: prev b s)
  case Nil
  then show ?case by (simp add: supervise_loop.simps)
next
  case (Cons t turns)
  have r: "te_rand t < 1000" "turns_ok turns" using Cons.prems(1) by (auto simp: turns_ok_def)
  have ih: "pauses_ok p (snd (supervise_loop cfg ctx_err turns b' s'))" if "backoff_ok b'" for p b' s'
    by (rule Cons.IH [OF r(2) that])
  have again: "pauses_ok p rest" if "supervise_loop cfg ctx_err turns b' s' = (x, rest)" "backoff_ok b'" for p b' s' x rest
    using ih [of b' p s'] that by simp
  have nb: "backoff_ok (next_backoff b)" using Cons.prems(2) by simp
  note j = jitter_range(1) [OF nb r(1)] jitter_range(2) [OF r(1)]
  show ?case
    using j again [OF _ nb] again [OF _ backoff_simps(1)]
    by (simp add: supervise_loop.simps Let_def pause_ok_def split: prod.split option.split bool.split)
qed

lemma run_pauses:
  assumes "turns_ok (rn_turns env)"
  shows "pauses_ok prev (snd (run_tor quote cfg runtime_dir iid env))"
proof -
  let ?boot = "rn_boot env"
  obtain de dials where d: "dial_control (be_dials ?boot) = (de, dials)" by (metis surj_pair)
  have dials: "pauses_ok (Some (W_State S_Bootstrapping 0 None)) dials"
    using dial_pauses [of "Some (W_State S_Bootstrapping 0 None)" "be_dials ?boot"] d by (simp add: pause_ok_def)
  have close: "pauses_ok p [W_Close]" for p by simp
  have boot: "pauses_ok p (snd (bootstrap ?boot))" for p
    using phases_pauses [of "Some W_Events" "be_budget ?boot" "be_phase ?boot" "be_phases ?boot"]
    by (auto simp: bootstrap_def Let_def split: prod.splits)
  have loop: "pauses_ok p (snd (supervise_loop cfg (rn_ctx_err env) (rn_turns env) initial_backoff 0))" for p
    by (rule loop_pauses [OF assms]) simp
  have "pauses_ok p (snd (supervise_tor cfg ?boot (rn_ctx_err env) (rn_turns env)))" for p
    using d dials boot loop
    by (auto simp: supervise_tor_def Let_def split: prod.splits option.splits
        intro!: pauses_append [OF dials] pauses_append [OF _ close] pauses_append)
  moreover have "pauses_ok p (stop_process env)" for p by (simp add: stop_process_def)
  ultimately show ?thesis
    by (auto simp: run_tor_def Let_def split: prod.splits option.splits intro!: pauses_append)
qed

lemma reset_told: "reset_instance_data wd rm d n = (None, e) \<Longrightarrow> e \<noteq> None"
  by (auto simp: reset_instance_data_def Let_def split: if_splits sum.splits)

lemma worker_pauses:
  "list_all rands_ok lives \<Longrightarrow> backoff_ok b \<Longrightarrow> pauses_ok prev (worker_loop quote cfg runtime_dir iid lives b)"
proof (induction lives arbitrary: prev b)
  case (Cons l lives)
  have j: "le_rand l < 1000" and t: "turns_ok (rn_turns (le_run l))" using Cons.prems(1) by (simp_all add: rands_ok_def)
  obtain err acts where r: "run_tor quote cfg runtime_dir iid (le_run l) = (err, acts)" by (metis surj_pair)
  have acts: "pauses_ok prev acts" using run_pauses [OF t, of prev quote cfg runtime_dir iid] r by simp
  obtain target re where x: "reset_instance_data (le_wd l) (le_rm l) (DataDir cfg) (int iid) = (target, re)"
    by (metis surj_pair)
  have ih: "pauses_ok p (worker_loop quote cfg runtime_dir iid lives b')" if "backoff_ok b'" for p b'
    using Cons.IH [OF _ that] Cons.prems(1) by simp
  note again = ih [OF backoff_simps(1)] ih [OF backoff_simps(2) [OF Cons.prems(2)]]
  note range = jitter_range(1) [OF Cons.prems(2) j] jitter_range(2) [OF j]
  show ?case
    using reset_told [of "le_wd l" "le_rm l" "DataDir cfg" "int iid" re] again range
    by (cases target; cases re)
      (auto simp: r x Let_def pause_ok_def intro!: pauses_append [OF acts])
qed simp



section \<open>States\<close>

abbreviation acts_report :: "worker_act list \<Rightarrow> bool" where
  "acts_report \<equiv> list_all (\<lambda>act. \<forall>st n e. act = W_State st n e \<longrightarrow> st \<notin> {S_Ready, S_Busy, S_Stopped} \<and> -1 \<le> n \<and> n \<le> 100)"

lemma run_reports: "acts_report (snd (run_tor quote cfg runtime_dir iid env))"
  using run_acts [of runtime_dir iid quote cfg env] by (rule list.pred_mono_strong) auto

text \<open>
  Claim C39. A worker never reports an instance as ready or busy, that is left to the pool; the progress it
  reports is a percentage, or the mark that keeps the last one. The last report of a worker is \<open>Stopped\<close>, and it is its
  only one, unless the state of the instance could not be reset: then the last report is that error, and
  the instance is given up.
\<close>

theorem worker_reports:
  shows "\<exists>acts final. worker_loop quote cfg runtime_dir iid lives b = acts @ [final] \<and>
    (\<forall>st n e. W_State st n e \<in> set acts \<longrightarrow> st \<notin> {S_Ready, S_Busy, S_Stopped} \<and> -1 \<le> n \<and> n \<le> 100) \<and>
    (final = W_State S_Stopped (-1) None \<or>
     (\<exists>e. final = W_State S_Error 0 (Some e) \<and>
        (\<exists>l \<in> set lives. snd (reset_instance_data (le_wd l) (le_rm l) (DataDir cfg) (int iid)) = Some e)))"
proof -
  have "\<exists>acts final. worker_loop quote cfg runtime_dir iid lives b = acts @ [final] \<and> acts_report acts \<and>
    (final = W_State S_Stopped (-1) None \<or>
     (\<exists>e. final = W_State S_Error 0 (Some e) \<and>
        (\<exists>l \<in> set lives. snd (reset_instance_data (le_wd l) (le_rm l) (DataDir cfg) (int iid)) = Some e)))"
  proof (induction lives arbitrary: b)
    case Nil
    show ?case by (intro exI [of _ "[]"]) simp
  next
    case (Cons l lives)
    define ends where "ends = (\<lambda>trace (ls :: life_env list). \<exists>acts final. trace = acts @ [final] \<and> acts_report acts \<and>
      (final = W_State S_Stopped (-1) None \<or>
       (\<exists>e. final = W_State S_Error 0 (Some e) \<and>
          (\<exists>l \<in> set ls. snd (reset_instance_data (le_wd l) (le_rm l) (DataDir cfg) (int iid)) = Some e))))"
    have stop: "acts_report xs \<Longrightarrow> ends (xs @ [W_State S_Stopped (-1) None]) (l # lives)" for xs
      unfolding ends_def by blast
    have go: "ends (xs @ ys) (l # lives)" if xs: "acts_report xs" and ys: "ends ys lives" for xs ys
    proof -
      obtain acts final where a: "ys = acts @ [final]" "acts_report acts"
        and f: "final = W_State S_Stopped (-1) None \<or> (\<exists>e. final = W_State S_Error 0 (Some e) \<and>
          (\<exists>l \<in> set lives. snd (reset_instance_data (le_wd l) (le_rm l) (DataDir cfg) (int iid)) = Some e))"
        using ys unfolding ends_def by blast
      from f have "final = W_State S_Stopped (-1) None \<or> (\<exists>e. final = W_State S_Error 0 (Some e) \<and>
          (\<exists>l \<in> set (l # lives). snd (reset_instance_data (le_wd l) (le_rm l) (DataDir cfg) (int iid)) = Some e))"
        unfolding list.set by blast
      with a xs show ?thesis
        unfolding ends_def by (intro exI [of _ "xs @ acts"] exI [of _ final]) simp
    qed
    obtain err acts where r: "run_tor quote cfg runtime_dir iid (le_run l) = (err, acts)" by (metis surj_pair)
    have a: "acts_report acts" using run_reports [of quote cfg runtime_dir iid "le_run l"] r by simp
    obtain target re where x: "reset_instance_data (le_wd l) (le_rm l) (DataDir cfg) (int iid) = (target, re)"
      by (metis surj_pair)
    let ?reset = "acts @ W_State S_Restarting 0 (Some err) # (case target of None \<Rightarrow> [] | Some d \<Rightarrow> [W_Reset d])"
    let ?fresh = "?reset @ [W_Pause (jitter (le_rand l) initial_backoff)]"
      and ?again = "acts @ [W_State S_Error 0 (Some err), W_Pause (jitter (le_rand l) b)]"
    have rep: "acts_report ?reset" "acts_report ?fresh" "acts_report ?again"
      using a by (auto split: option.splits)
    have ih: "ends (worker_loop quote cfg runtime_dir iid lives b') lives" for b'
      unfolding ends_def by (rule Cons.IH)
    have fail: "ends (?reset @ [W_State S_Error 0 (Some e)]) (l # lives)" if "re = Some e" for e
      unfolding ends_def using rep(1) x that by (intro exI [of _ ?reset] exI) auto
    have "ends (worker_loop quote cfg runtime_dir iid (l # lives) b) (l # lives)"
      using stop [OF a] stop [OF rep(2)] stop [OF rep(3)] go [OF rep(2) ih [of initial_backoff]]
        go [OF rep(3) ih [of "next_backoff b"]] fail
      by (cases re) (simp_all add: r x Let_def)
    then show ?case unfolding ends_def .
  qed
  then obtain acts final where acts: "acts_report acts"
    and *: "worker_loop quote cfg runtime_dir iid lives b = acts @ [final]"
      "final = W_State S_Stopped (-1) None \<or> (\<exists>e. final = W_State S_Error 0 (Some e) \<and>
        (\<exists>l \<in> set lives. snd (reset_instance_data (le_wd l) (le_rm l) (DataDir cfg) (int iid)) = Some e))"
    by blast
  have "\<forall>st n e. W_State st n e \<in> set acts \<longrightarrow> st \<notin> {S_Ready, S_Busy, S_Stopped} \<and> -1 \<le> n \<and> n \<le> 100"
    using acts unfolding list_all_iff by blast
  with * show ?thesis by blast
qed

theorem worker_reports_witness:
  "\<exists>acts final. worker_loop (\<lambda>s. s) (demo_cfg True) ''/run'' 1 [demo_life] initial_backoff = acts @ [final] \<and>
     final = W_State S_Stopped (-1) None"
proof -
  obtain acts final where *: "worker_loop (\<lambda>s. s) (demo_cfg True) ''/run'' 1 [demo_life] initial_backoff = acts @ [final]"
    using worker_reports [of "\<lambda>s. s" "demo_cfg True" "''/run''" 1 "[demo_life]" initial_backoff] by blast
  then have "last (worker_loop (\<lambda>s. s) (demo_cfg True) ''/run'' 1 [demo_life] initial_backoff) = final" by simp
  then have "final = W_State S_Stopped (-1) None" unfolding demo_worker by simp
  with * show ?thesis by blast
qed

section \<open>Files\<close>

lemma clean_abs_snoc:
  assumes "is_abs d" and "\<forall>c \<in> set ws. plain c" and "ws \<noteq> []"
  shows "clean (d @ slash # join_with [slash] ws) =
    rooted_path (foldl (clean_step True) [] (split_on slash d) @ ws)"
proof -
  have s: "split_on slash (d @ slash # join_with [slash] ws) = split_on slash d @ ws" if "\<forall>c \<in> set ws. slash \<notin> set c" "ws \<noteq> []" for ws
    using that
  proof (induction ws rule: rev_induct)
    case (snoc w ws)
    then show ?case
      by (cases "ws = []")
        (simp_all add: split_on_snoc join_with_snoc split_on_snoc [of slash w "d @ slash # join_with [slash] ws", simplified])
  qed simp
  have "foldl (clean_step True) [] (split_on slash d @ ws) = foldl (clean_step True) [] (split_on slash d) @ ws"
    using foldl_plain [OF assms(2)] by simp
  moreover have "is_abs (d @ slash # join_with [slash] ws)" using assms(1) by (auto simp: is_abs_def)
  ultimately show ?thesis
    using s [OF _ assms(3)] assms(2) by (simp add: clean_def Let_def rooted_path_def plain_def)
qed

lemma tor_plain: "plain ''tor''"
  by (simp add: plain_def slash_def)

text \<open>With an absolute data directory, the reset removes the very directory Tor was given.\<close>

lemma reset_target:
  assumes "is_abs d" and "1 \<le> iid"
  shows "reset_instance_data wd rm d (int iid) = (Some (path_join [d, ''tor'', itoa iid]), rm)"
proof -
  let ?cs = "foldl (clean_step True) [] (split_on slash d)"
  have ne: "d \<noteq> []" using assms(1) by (auto simp: is_abs_def)
  have cs: "\<forall>c \<in> set ?cs. plain c" by (rule foldl_kept_plain) (simp_all add: split_on_no_sep)
  have j: "path_join [d, ''tor''] = rooted_path (?cs @ [''tor''])"
    "path_join [d, ''tor'', itoa iid] = rooted_path (?cs @ [''tor'', itoa iid])"
    using ne clean_abs_snoc [OF assms(1), of "[''tor'']"] clean_abs_snoc [OF assms(1), of "[''tor'', itoa iid]"]
      tor_plain itoa_plain by (simp_all add: path_join_def)
  have root: "path_abs wd (path_join [d, ''tor'']) = Inr (rooted_path (?cs @ [''tor'']))"
    using cs tor_plain by (simp add: j path_abs_def clean_rooted_fix)
  have p: "\<forall>c \<in> set (?cs @ [''tor'']). plain c" using cs tor_plain by simp
  have "path_join [rooted_path (?cs @ [''tor'']), itoa iid] = rooted_path (?cs @ [''tor'', itoa iid])"
    using join_rooted [OF p itoa_plain] by simp
  moreover have "path_dir (rooted_path (?cs @ [''tor'', itoa iid])) = rooted_path (?cs @ [''tor''])"
    using dir_rooted [OF p itoa_plain] by simp
  moreover have "rooted_path (?cs @ [''tor'', itoa iid]) \<noteq> rooted_path (?cs @ [''tor''])"
    using rooted_snoc_neq [OF p itoa_plain] by simp
  ultimately show ?thesis using assms(2) root by (simp add: reset_instance_data_def Let_def j(2))
qed

fun file_ok :: "string \<Rightarrow> string set \<Rightarrow> worker_act \<Rightarrow> bool" where
  "file_ok d removes (W_Reset x) \<longleftrightarrow> x = d"
| "file_ok d removes (W_Remove f) \<longleftrightarrow> f \<in> removes"
| "file_ok d removes _ \<longleftrightarrow> True"

lemma run_files: "list_all (file_ok d (sockets runtime_dir iid)) (snd (run_tor quote cfg runtime_dir iid env))"
proof -
  have "file_ok d removes act" if "run_act removes act" for removes act
    using that by (cases act) simp_all
  with run_acts [of runtime_dir iid quote cfg env] show ?thesis by (auto elim: list.pred_mono_strong)
qed

lemma worker_files:
  assumes "is_abs (DataDir cfg)" and "1 \<le> iid"
  shows "list_all (file_ok (path_join [DataDir cfg, ''tor'', itoa iid]) (sockets runtime_dir iid))
    (worker_loop quote cfg runtime_dir iid lives b)"
proof (induction lives arbitrary: b)
  case (Cons l lives)
  show ?case
    using run_files [of "path_join [DataDir cfg, ''tor'', itoa iid]" runtime_dir iid quote cfg "le_run l"]
      Cons.IH reset_target [OF assms, of "le_wd l" "le_rm l"]
    by (auto simp: Let_def split: prod.splits option.splits)
qed simp

lemma worker_begins:
  "set (snd (run_tor quote cfg runtime_dir iid (le_run l))) \<subseteq> set (worker_loop quote cfg runtime_dir iid (l # lives) b)"
proof -
  obtain err acts where "run_tor quote cfg runtime_dir iid (le_run l) = (err, acts)" by (metis surj_pair)
  moreover obtain target re where "reset_instance_data (le_wd l) (le_rm l) (DataDir cfg) (int iid) = (target, re)"
    by (metis surj_pair)
  ultimately show ?thesis by (cases re) (auto simp: Let_def)
qed

text \<open>The directories of the instances, as clean paths.\<close>

lemma instance_dir_rooted:
  assumes "is_abs d"
  shows "\<exists>cs. (\<forall>c \<in> set cs. plain c) \<and> path_join [d, ''tor''] = rooted_path (cs @ [''tor'']) \<and>
    (\<forall>i. path_join [d, ''tor'', itoa i] = rooted_path (cs @ [''tor'', itoa i]))"
proof -
  let ?cs = "foldl (clean_step True) [] (split_on slash d)"
  have "d \<noteq> []" using assms by (auto simp: is_abs_def)
  moreover have "\<forall>c \<in> set ?cs. plain c" by (rule foldl_kept_plain) (simp_all add: split_on_no_sep)
  ultimately show ?thesis
    using clean_abs_snoc [OF assms, of "[''tor'']"] clean_abs_snoc [OF assms, of "[''tor'', itoa i]" for i]
      tor_plain itoa_plain by (intro exI [of _ ?cs]) (simp add: path_join_def)
qed

text \<open>The sockets of two instances are different files.\<close>

lemma sockets_own:
  assumes "is_abs runtime_dir" and "f \<in> sockets runtime_dir i" and "f \<in> sockets runtime_dir j"
  shows "i = j"
proof -
  let ?cs = "foldl (clean_step True) [] (split_on slash runtime_dir)"
  have ne: "runtime_dir \<noteq> []" using assms(1) by (auto simp: is_abs_def)
  have cs: "\<forall>c \<in> set ?cs. plain c" by (rule foldl_kept_plain) (simp_all add: split_on_no_sep)
  have dir: "path_join [runtime_dir, itoa k] = rooted_path (?cs @ [itoa k])" for k
    using ne clean_abs_snoc [OF assms(1), of "[itoa k]"] itoa_plain by (simp add: path_join_def)
  have p: "\<forall>c \<in> set (?cs @ [itoa k]). plain c" for k using cs itoa_plain by simp
  have two: "plain ''control''" "plain ''socks''" by (simp_all add: plain_def slash_def)
  have s: "sockets runtime_dir k = {rooted_path (?cs @ [itoa k, ''control'']), rooted_path (?cs @ [itoa k, ''socks''])}" for k
    using join_rooted [OF p two(1)] join_rooted [OF p two(2)] by (simp add: sockets_def dir)
  have q: "\<forall>c \<in> set (?cs @ [itoa k, w]). plain c" if "plain w" for k w using cs itoa_plain that by simp
  from assms(2) obtain w where w: "w \<in> {''control'', ''socks''}" "f = rooted_path (?cs @ [itoa i, w])"
    unfolding s by blast
  from assms(3) obtain v where v: "v \<in> {''control'', ''socks''}" "f = rooted_path (?cs @ [itoa j, v])"
    unfolding s by blast
  have "rooted_path (?cs @ [itoa i, w]) = rooted_path (?cs @ [itoa j, v])" using w(2) v(2) by simp
  from rooted_inj [OF q q this] w(1) v(1) two show ?thesis by (auto simp: itoa_inj)
qed

text \<open>
  Claim C33. A worker deletes only what is its own. Of the data it deletes, with an absolute data directory, as \<open>LoadConfig\<close> makes
  it, nothing but the data directory of its own instance, the one its Tor process was given: a direct child of the Tor
  directory, and a different one for every instance. Of other files it removes only the two sockets of its own instance,
  which, with an absolute runtime directory, no other instance shares.
\<close>

theorem own_files:
  assumes "is_abs (DataDir cfg)" and "is_abs runtime_dir" and "(i, acts) \<in> set (run_workers quote cfg runtime_dir envs)"
  shows "1 \<le> i \<and> i \<le> TorCount cfg \<and>
    (\<forall>d. W_Reset d \<in> set acts \<longrightarrow> d = path_join [DataDir cfg, ''tor'', itoa i] \<and>
       path_dir d = path_join [DataDir cfg, ''tor''] \<and>
       (\<forall>j. d = path_join [DataDir cfg, ''tor'', itoa j] \<longrightarrow> j = i)) \<and>
    (\<forall>f. W_Remove f \<in> set acts \<longrightarrow> f \<in> sockets runtime_dir i \<and> (\<forall>j. f \<in> sockets runtime_dir j \<longrightarrow> j = i))"
proof -
  have i: "1 \<le> i" "i \<le> TorCount cfg" using assms(3) by (auto simp: run_workers_def split: prod.splits)
  obtain start started lives where a: "acts = worker quote cfg runtime_dir i start started lives"
    using assms(3) by (auto simp: run_workers_def split: prod.splits)
  let ?d = "path_join [DataDir cfg, ''tor'', itoa i]"
  have ok: "list_all (file_ok ?d (sockets runtime_dir i)) acts"
    using worker_files [OF assms(1) i(1)] by (simp add: a worker_def)
  have reset: "d = ?d" if "W_Reset d \<in> set acts" for d
    using ok that unfolding list_all_iff by fastforce
  have remove: "f \<in> sockets runtime_dir i" if "W_Remove f \<in> set acts" for f
    using ok that unfolding list_all_iff by fastforce
  obtain cs where cs: "\<forall>c \<in> set cs. plain c" "path_join [DataDir cfg, ''tor''] = rooted_path (cs @ [''tor''])"
    "\<And>i. path_join [DataDir cfg, ''tor'', itoa i] = rooted_path (cs @ [''tor'', itoa i])"
    using instance_dir_rooted [OF assms(1)] by blast
  have p: "\<forall>c \<in> set (cs @ [''tor'']). plain c" using cs(1) tor_plain by simp
  have pi: "\<forall>c \<in> set (cs @ [''tor'', itoa k]). plain c" for k using cs(1) tor_plain itoa_plain by simp
  have dir: "path_dir ?d = path_join [DataDir cfg, ''tor'']"
    using dir_rooted [OF p itoa_plain] by (simp add: cs)
  have own: "j = i" if "?d = path_join [DataDir cfg, ''tor'', itoa j]" for j
    using rooted_inj [OF pi pi] that by (simp add: cs itoa_inj)
  have "d = ?d \<and> path_dir d = path_join [DataDir cfg, ''tor''] \<and>
      (\<forall>j. d = path_join [DataDir cfg, ''tor'', itoa j] \<longrightarrow> j = i)" if "W_Reset d \<in> set acts" for d
    using reset [OF that] dir own by simp
  moreover have "f \<in> sockets runtime_dir i \<and> (\<forall>j. f \<in> sockets runtime_dir j \<longrightarrow> j = i)" if "W_Remove f \<in> set acts" for f
    using remove [OF that] sockets_own [OF assms(2)] by simp
  ultimately show ?thesis using i by (intro conjI allI impI) blast+
qed

text \<open>A worker whose bootstrap is stuck at the first dial.\<close>

definition demo_stuck :: life_env where
  "demo_stuck = demo_life\<lparr>le_run := (le_run demo_life)\<lparr>rn_start := None,
     rn_boot := demo_boot\<lparr>be_dials := [Df_Expired]\<rparr>\<rparr>\<rparr>"

lemma demo_stuck_worker:
  "W_Reset ''/data/tor/1'' \<in> set (worker_loop quote (demo_cfg True) dir 1 [demo_stuck] initial_backoff)"
proof -
  have abs: "is_abs (DataDir (demo_cfg True))" by code_simp
  have t: "path_join [DataDir (demo_cfg True), ''tor'', itoa (Suc 0)] = ''/data/tor/1''"
  proof -
    have "itoa (Suc 0) = ''1''" by (subst itoa.simps) (simp add: digit_char_def char_of_def bit_Suc_0_iff)
    then show ?thesis
      by (simp add: demo_cfg_def path_join_def clean_def is_abs_def slash_def clean_step_def Let_def)
  qed
  have r: "reset_instance_data wd rm (DataDir (demo_cfg True)) 1 = (Some ''/data/tor/1'', rm)" for wd rm
    using reset_target [OF abs, of 1 wd rm] t by simp
  have "needs_fresh_restart (Some (stuck what))" for what by (simp add: needs_fresh_restart_def)
  then show ?thesis
    by (simp add: demo_stuck_def demo_life_def run_tor_def remove_error_def supervise_tor_def Let_def r demo_boot_def)
qed

theorem own_files_witness:
  "path_dir ''/data/tor/1'' = path_join [''/data'', ''tor''] \<and> sockets ''/run'' 1 \<inter> sockets ''/run'' 2 = {}"
proof -
  let ?w = "run_workers (\<lambda>s. s) (demo_cfg True) ''/run'' (\<lambda>_. (5, True, [demo_stuck]))"
  let ?acts = "worker (\<lambda>s. s) (demo_cfg True) ''/run'' 1 5 True [demo_stuck]"
  have abs: "is_abs (DataDir (demo_cfg True))" "is_abs ''/run''" by code_simp+
  have in_w: "(1, ?acts) \<in> set ?w" by (auto simp: run_workers_def demo_cfg_def image_iff)
  have reset: "W_Reset ''/data/tor/1'' \<in> set ?acts"
    using demo_stuck_worker [of "\<lambda>s. s" "''/run''"] by (simp add: worker_def)
  have data: "DataDir (demo_cfg True) = ''/data''" by (simp add: demo_cfg_def)
  have removes: "sockets ''/run'' 1 \<subseteq> {f. W_Remove f \<in> set ?acts}"
  proof -
    have "W_Remove f \<in> set (snd (run_tor (\<lambda>s. s) (demo_cfg True) ''/run'' 1 (le_run demo_stuck)))"
      if "f \<in> sockets ''/run'' 1" for f
      using that by (auto simp: sockets_def demo_stuck_def demo_life_def run_tor_def remove_error_def Let_def
          split: prod.split)
    moreover have "set (snd (run_tor (\<lambda>s. s) (demo_cfg True) ''/run'' 1 (le_run demo_stuck))) \<subseteq>
        set (worker_loop (\<lambda>s. s) (demo_cfg True) ''/run'' 1 [demo_stuck] initial_backoff)"
      by (rule worker_begins)
    ultimately have "W_Remove f \<in> set (worker_loop (\<lambda>s. s) (demo_cfg True) ''/run'' 1 [demo_stuck] initial_backoff)"
      if "f \<in> sockets ''/run'' 1" for f using that by blast
    then show ?thesis unfolding worker_def by (intro subsetI CollectI) (simp only: if_True list.set insert_iff simp_thms)
  qed
  note own = own_files [OF abs in_w]
  have "path_dir ''/data/tor/1'' = path_join [''/data'', ''tor'']" using own reset data by metis
  moreover have "(2::nat) = 1" if "f \<in> sockets ''/run'' 1" "f \<in> sockets ''/run'' 2" for f
    using own removes that by blast
  ultimately show ?thesis by auto
qed

section \<open>Bootstrap\<close>

lemma dial_no_cycle: "W_Cycle c \<notin> set (snd (dial_control ds))"
  by (induction ds rule: dial_control.induct) (auto split: prod.splits)

lemma phases_no_cycle: "W_Cycle c \<notin> set (snd (await_bootstrap budget a rest))"
proof (induction rest arbitrary: a)
  case Nil
  then show ?case by (subst await_bootstrap.simps) (auto simp: Let_def split: sum.splits)
next
  case (Cons a' rest)
  from Cons.IH [of a'] show ?case
    by (subst await_bootstrap.simps) (auto simp: Let_def split: sum.splits prod.splits)
qed

lemma phases_complete:
  "fst (await_bootstrap budget a rest) = None \<Longrightarrow>
     \<exists>lines. Inr lines \<in> set (a # rest) \<and> bootstrap_progress (join_with '' '' lines) = 100"
proof (induction rest arbitrary: a)
  case Nil
  then show ?case by (subst (asm) await_bootstrap.simps) (auto simp: Let_def split: sum.splits if_splits)
next
  case (Cons a' rest)
  from Cons.prems Cons.IH [of a'] show ?case
    by (subst (asm) await_bootstrap.simps) (fastforce simp: Let_def split: sum.splits if_splits prod.splits)
qed

lemma dial_complete: "fst (dial_control ds) = None \<Longrightarrow> list_all (\<lambda>d. d = Df_Retry) ds"
  by (induction ds rule: dial_control.induct) (auto split: prod.splits)

lemma phases_end:
  "fst (await_bootstrap budget a rest) = None \<Longrightarrow> \<exists>more. snd (await_bootstrap budget a rest) =
     more @ [W_Command ''GETINFO status/bootstrap-phase'', W_State S_Bootstrapping 100 None]"
proof (induction rest arbitrary: a)
  case Nil
  then show ?case by (subst (asm) await_bootstrap.simps, subst await_bootstrap.simps)
      (auto simp: Let_def split: sum.splits if_splits)
next
  case (Cons a' rest)
  obtain r more where m: "await_bootstrap budget a' rest = (r, more)" by (metis surj_pair)
  show ?case
  proof (cases "\<exists>lines. a = Inr lines \<and> bootstrap_progress (join_with '' '' lines) = 100")
    case True
    then show ?thesis by (subst await_bootstrap.simps) (auto simp: Let_def)
  next
    case False
    then obtain lines where a: "a = Inr lines" "bootstrap_progress (join_with '' '' lines) \<noteq> 100"
      using Cons.prems by (cases a) (auto simp: await_bootstrap.simps Let_def)
    then have "r = None" using Cons.prems m by (simp add: await_bootstrap.simps [of _ _ "a' # rest"] Let_def)
    with Cons.IH [of a'] m obtain x where
      "more = x @ [W_Command ''GETINFO status/bootstrap-phase'', W_State S_Bootstrapping 100 None]" by auto
    with a m show ?thesis by (subst await_bootstrap.simps) (simp add: Let_def)
  qed
qed

text \<open>
  The process was started and then failed to become a working Tor; and a bootstrap that succeeded, in the answers and in
  the trace.
\<close>

definition tor_started :: "run_env \<Rightarrow> bool" where
  "tor_started env \<longleftrightarrow> rn_mkdirs env = (None, None) \<and> remove_error (fst (rn_removes env)) = None \<and>
     remove_error (snd (rn_removes env)) = None \<and> rn_write env = None \<and> rn_start env = None"

definition boot_fails :: "boot_env \<Rightarrow> bool" where
  "boot_fails boot \<longleftrightarrow> fst (dial_control (be_dials boot)) \<noteq> None \<or> fst (bootstrap boot) \<noteq> None"

definition boot_done :: "boot_env \<Rightarrow> bool" where
  "boot_done boot \<longleftrightarrow> list_all (\<lambda>d. d = Df_Retry) (be_dials boot) \<and> be_auth boot = None \<and> be_setevents boot = None \<and>
     (\<exists>lines. Inr lines \<in> set (be_phase boot # be_phases boot) \<and> bootstrap_progress (join_with '' '' lines) = 100)"

definition boot_trace :: "worker_act list \<Rightarrow> bool" where
  "boot_trace acts \<longleftrightarrow> (\<exists>xs ys zs. acts = xs @
     [W_Command ''AUTHENTICATE'', W_Command ''SETEVENTS STREAM CIRC'', W_Events] @ ys @
     [W_Command ''GETINFO status/bootstrap-phase'', W_State S_Bootstrapping 100 None] @ zs)"

lemma boot_trace_inside:
  assumes "boot_trace as"
  shows "boot_trace (before @ as @ later)"
proof -
  obtain xs ys zs where "as = xs @
     [W_Command ''AUTHENTICATE'', W_Command ''SETEVENTS STREAM CIRC'', W_Events] @ ys @
     [W_Command ''GETINFO status/bootstrap-phase'', W_State S_Bootstrapping 100 None] @ zs"
    using assms unfolding boot_trace_def by blast
  then show ?thesis
    unfolding boot_trace_def by (intro exI [of _ "before @ xs"] exI [of _ ys] exI [of _ "zs @ later"]) simp
qed

lemma split_before:
  assumes "xs @ ys = us @ v # vs" and "v \<notin> set xs"
  shows "\<exists>ws. us = xs @ ws"
  using assms by (auto simp: append_eq_append_conv2 append_eq_Cons_conv)

lemma supervise_boot:
  assumes "supervise_tor cfg boot ctx_err turns = (r, acts)"
  shows "(boot_fails boot \<longrightarrow> (\<exists>what. r = stuck what) \<and> (\<forall>c. W_Cycle c \<notin> set acts)) \<and>
    (\<not> boot_fails boot \<longrightarrow> boot_done boot \<and>
       (\<exists>pre rest. acts = pre @ rest \<and> boot_trace pre \<and> (\<forall>c. W_Cycle c \<notin> set pre)))"
proof -
  obtain de dials where d: "dial_control (be_dials boot) = (de, dials)" by (metis surj_pair)
  obtain be bacts where b: "bootstrap boot = (be, bacts)" by (metis surj_pair)
  have dc: "W_Cycle c \<notin> set dials" for c using dial_no_cycle [of c "be_dials boot"] d by simp
  have bc: "W_Cycle c \<notin> set bacts" for c
    using b phases_no_cycle [of c "be_budget boot" "be_phase boot" "be_phases boot"]
    by (auto simp: bootstrap_def Let_def split: if_splits prod.splits)
  show ?thesis
  proof (cases "de = None \<and> be = None")
    case True
    have auth: "be_auth boot = None" "be_setevents boot = None"
      and ph: "fst (await_bootstrap (be_budget boot) (be_phase boot) (be_phases boot)) = None"
      using b True by (auto simp: bootstrap_def Let_def split: if_splits prod.splits)
    obtain more where m: "bacts = W_Command ''AUTHENTICATE'' # W_Command ''SETEVENTS STREAM CIRC'' # W_Events #
        more @ [W_Command ''GETINFO status/bootstrap-phase'', W_State S_Bootstrapping 100 None]"
      using phases_end [OF ph] b True auth by (auto simp: bootstrap_def Let_def split: prod.splits)
    obtain rest where a: "acts = W_State S_Bootstrapping 0 None # dials @ bacts @ rest @ [W_Close]"
      using assms d b True by (auto simp: supervise_tor_def Let_def split: prod.splits)
    let ?pre = "W_State S_Bootstrapping 0 None # dials @ bacts"
    have "boot_trace ?pre"
      unfolding boot_trace_def
      by (rule exI [of _ "W_State S_Bootstrapping 0 None # dials"], rule exI [of _ more], rule exI [of _ "[]"]) (simp add: m)
    then have "\<exists>pre rest. acts = pre @ rest \<and> boot_trace pre \<and> (\<forall>c. W_Cycle c \<notin> set pre)"
      using dc bc by (intro exI [of _ ?pre] exI [of _ "rest @ [W_Close]"]) (simp add: a)
    moreover have "boot_done boot"
      using True auth phases_complete [OF ph] dial_complete [of "be_dials boot"] d by (simp add: boot_done_def)
    ultimately show ?thesis using True d b by (simp add: boot_fails_def)
  next
    case False
    have "(\<exists>what. r = stuck what) \<and> (\<forall>c. W_Cycle c \<notin> set acts)"
    proof (cases de)
      case (Some e)
      then obtain what where "e = stuck what" using d dial_stuck by blast
      with Some d assms dc show ?thesis by (auto simp: supervise_tor_def Let_def)
    next
      case None
      then obtain e where e: "be = Some e" using False by auto
      then obtain what where "e = stuck what" using b bootstrap_stuck by blast
      with None e d b assms dc bc show ?thesis by (auto simp: supervise_tor_def Let_def)
    qed
    with False d b show ?thesis by (auto simp: boot_fails_def)
  qed
qed

lemma run_boot:
  assumes "run_tor quote cfg runtime_dir iid env = (r, acts)"
  shows "tor_started env \<and> boot_fails (rn_boot env) \<longrightarrow> (\<exists>what. r = stuck what) \<and> (\<forall>c. W_Cycle c \<notin> set acts)"
    and "acts = before @ W_Cycle c # later \<Longrightarrow> boot_done (rn_boot env) \<and> boot_trace before"
proof -
  obtain r0 acts0 where s: "supervise_tor cfg (rn_boot env) (rn_ctx_err env) (rn_turns env) = (r0, acts0)" by (metis surj_pair)
  note sb = supervise_boot [OF s]
  have stop: "W_Cycle c \<notin> set (stop_process env)" for c by (simp add: stop_process_def)
  have started: "\<exists>files. acts = files @ acts0 @ stop_process env \<and> (\<forall>c. W_Cycle c \<notin> set files) \<and> r = r0" if "tor_started env"
    using assms s that by (auto simp: run_tor_def tor_started_def Let_def)
  have early: "W_Cycle c \<notin> set acts" if "\<not> tor_started env" for c
    using assms that by (cases "rn_mkdirs env")
      (auto simp: run_tor_def tor_started_def Let_def split: option.splits prod.splits)
  show "tor_started env \<and> boot_fails (rn_boot env) \<longrightarrow> (\<exists>what. r = stuck what) \<and> (\<forall>c. W_Cycle c \<notin> set acts)"
    using started sb stop by auto
  assume split: "acts = before @ W_Cycle c # later"
  then have st: "tor_started env" using early [of c] by auto
  from started [OF st] obtain files where f: "acts = files @ acts0 @ stop_process env" "\<forall>c. W_Cycle c \<notin> set files" by blast
  have "W_Cycle c \<in> set acts" using split by simp
  then have "W_Cycle c \<in> set acts0" using f stop by simp
  then have ok: "\<not> boot_fails (rn_boot env)" using sb by blast
  with sb obtain pre rest where p: "acts0 = pre @ rest" "boot_trace pre" "\<forall>c. W_Cycle c \<notin> set pre" "boot_done (rn_boot env)"
    by blast
  have eq: "(files @ pre) @ (rest @ stop_process env) = before @ W_Cycle c # later" using f(1) p(1) split by simp
  have none: "W_Cycle c \<notin> set (files @ pre)" using f(2) p(3) by simp
  obtain ws where "before = (files @ pre) @ ws" using split_before [OF eq none] by (rule exE)
  then show "boot_done (rn_boot env) \<and> boot_trace before"
    using boot_trace_inside [OF p(2), of files ws] p(4) by simp
qed

text \<open>
  Claim C23. No circuit is built before the instance is up: ahead of every cycle, the trace of a worker's run has the
  authentication, the subscription to the events its streams need, the start of their goroutine, and then a report of 100 percent, in
  this order, and Tor's answers were the ones for it. A bootstrap that fails anywhere is followed by no cycle: unless the program ends, the worker
  deletes the data directory of its instance and, when that succeeds, starts over after a pause, with a new process and the first delay.
\<close>

theorem bootstrap_first:
  assumes "is_abs (DataDir cfg)" and "1 \<le> iid" and "run_tor quote cfg runtime_dir iid (le_run l) = (r, acts)"
  shows "(\<forall>before c later. acts = before @ W_Cycle c # later \<longrightarrow> boot_done (rn_boot (le_run l)) \<and> boot_trace before) \<and>
    (tor_started (le_run l) \<and> boot_fails (rn_boot (le_run l)) \<and> \<not> le_ctx_done l \<longrightarrow>
      (\<forall>c. W_Cycle c \<notin> set acts) \<and>
      worker_loop quote cfg runtime_dir iid (l # lives) b =
        acts @ W_State S_Restarting 0 (Some r) # W_Reset (path_join [DataDir cfg, ''tor'', itoa iid]) #
        (case le_rm l of
           Some e \<Rightarrow> [W_State S_Error 0 (Some e)]
         | None \<Rightarrow> W_Pause (jitter (le_rand l) initial_backoff) #
             (if le_pause_ok l then worker_loop quote cfg runtime_dir iid lives initial_backoff
              else [W_State S_Stopped (-1) None])))"
proof -
  note boot = run_boot [OF assms(3)]
  have rebuilt: "worker_loop quote cfg runtime_dir iid (l # lives) b =
      acts @ W_State S_Restarting 0 (Some r) # W_Reset (path_join [DataDir cfg, ''tor'', itoa iid]) #
        (case le_rm l of
           Some e \<Rightarrow> [W_State S_Error 0 (Some e)]
         | None \<Rightarrow> W_Pause (jitter (le_rand l) initial_backoff) #
             (if le_pause_ok l then worker_loop quote cfg runtime_dir iid lives initial_backoff
              else [W_State S_Stopped (-1) None]))"
    if "\<exists>what. r = stuck what" "\<not> le_ctx_done l"
  proof -
    have "needs_fresh_restart (Some r)" using that(1) by (auto simp: needs_fresh_restart_def stuck_def)
    then show ?thesis
      using that(2) assms(3) reset_target [OF assms(1,2), of "le_wd l" "le_rm l"]
      by (cases "le_rm l") (simp_all add: Let_def)
  qed
  show ?thesis
  proof (intro conjI allI impI, goal_cases)
    case (1 before c later)
    then show ?case using boot(2) by blast
  next
    case (2 before c later)
    then show ?case using boot(2) by blast
  next
    case (3 c)
    then show ?case using boot(1) by blast
  next
    case 4
    then show ?case using boot(1) rebuilt by blast
  qed
qed

theorem bootstrap_first_witness:
  "W_Reset ''/data/tor/1'' \<in> set (worker_loop (\<lambda>s. s) (demo_cfg True) ''/run'' 1 [demo_stuck] initial_backoff) \<and>
   (\<forall>c. W_Cycle c \<notin> set (snd (run_tor (\<lambda>s. s) (demo_cfg True) ''/run'' 1 (le_run demo_stuck))))"
proof -
  obtain r acts where r: "run_tor (\<lambda>s. s) (demo_cfg True) ''/run'' 1 (le_run demo_stuck) = (r, acts)" by (metis surj_pair)
  have abs: "is_abs (DataDir (demo_cfg True))" by code_simp
  have "tor_started (le_run demo_stuck)" "boot_fails (rn_boot (le_run demo_stuck))" "\<not> le_ctx_done demo_stuck"
    by (simp_all add: demo_stuck_def demo_life_def tor_started_def boot_fails_def remove_error_def)
  with bootstrap_first [OF abs _ r] r demo_stuck_worker [of "\<lambda>s. s" "''/run''"] show ?thesis by simp
qed

end
