(* ===== verification/LoadConfig.thy ===== *)
theory LoadConfig
  imports Config GoNet Paths
begin

text \<open>
  \<open>internal/app/config.go\<close>: \<open>LoadConfig\<close> with its helpers, on an environment given as a map. Go's
  \<open>time.ParseDuration\<close> is modelled with its integer arithmetic; the product of floating-point numbers that rounds
  a decimal fraction is the argument \<open>frac\<close>. \<open>url.Parse\<close> and \<open>strconv.Quote\<close> are the arguments
  \<open>parse_url\<close> and \<open>quote\<close>.
\<close>

section \<open>time.ParseDuration\<close>

definition max_duration :: int where "max_duration = 9223372036854775807"

definition two_63 :: int where "two_63 = 9223372036854775808"

text \<open>\<open>leadingInt\<close>: \<open>None\<close> when the number exceeds 2 to the 63rd.\<close>

fun leading_int :: "int \<Rightarrow> string \<Rightarrow> (int \<times> string) option" where
  "leading_int x [] = Some (x, [])"
| "leading_int x (c # s) =
     (if \<not> is_digit c then Some (x, c # s)
      else if x > two_63 div 10 then None
      else let x = x * 10 + int (digit_value c) in if x > two_63 then None else leading_int x s)"

text \<open>\<open>leadingFraction\<close>: digits after an overflow are skipped.\<close>

fun leading_fraction :: "bool \<Rightarrow> int \<Rightarrow> int \<Rightarrow> string \<Rightarrow> int \<times> int \<times> string" where
  "leading_fraction over x scale [] = (x, scale, [])"
| "leading_fraction over x scale (c # s) =
     (if \<not> is_digit c then (x, scale, c # s)
      else if over then leading_fraction True x scale s
      else if x > max_duration div 10 then leading_fraction True x scale s
      else
        let y = x * 10 + int (digit_value c) in
        if y > two_63 then leading_fraction True x scale s
        else leading_fraction False y (scale * 10) s)"

text \<open>The units, the micro sign in both of its encodings.\<close>

definition unit_map :: "(string \<times> int) list" where
  "unit_map =
     [(''ns'', 1), (''us'', 1000),
      ([char_of (194::nat), char_of (181::nat), CHR ''s''], 1000),
      ([char_of (206::nat), char_of (188::nat), CHR ''s''], 1000),
      (''ms'', 1000000), (''s'', 1000000000), (''m'', 60000000000), (''h'', 3600000000000)]"

definition unit_of :: "string \<Rightarrow> int option" where
  "unit_of u = map_of unit_map u"

definition number_start :: "char \<Rightarrow> bool" where
  "number_start c \<longleftrightarrow> c = CHR ''.'' \<or> is_digit c"

text \<open>One number with its unit: its value in nanoseconds and what is left; \<open>None\<close> is an error.\<close>

definition duration_part :: "(int \<Rightarrow> int \<Rightarrow> int \<Rightarrow> nat) \<Rightarrow> string \<Rightarrow> (int \<times> string) option" where
  "duration_part frac s =
     (if s = [] \<or> \<not> number_start (hd s) then None
      else (case leading_int 0 s of
        None \<Rightarrow> None
      | Some (v, s1) \<Rightarrow>
          let pre = (length s1 \<noteq> length s);
              dotted = (s1 \<noteq> [] \<and> hd s1 = CHR ''.'');
              (f, scale, s2) = (if dotted then leading_fraction False 0 1 (tl s1) else (0, 1, s1));
              post = (dotted \<and> length s2 \<noteq> length (tl s1)) in
          if \<not> pre \<and> \<not> post then None
          else
            let u = takeWhile (\<lambda>c. \<not> number_start c) s2; s3 = dropWhile (\<lambda>c. \<not> number_start c) s2 in
            if u = [] then None
            else (case unit_of u of
              None \<Rightarrow> None
            | Some unit \<Rightarrow>
                if v > two_63 div unit then None
                else
                  let v = v * unit; v = (if f > 0 then v + int (frac f unit scale) else v) in
                  if f > 0 \<and> v > two_63 then None else Some (v, s3))))"

lemma leading_int_length: "leading_int x s = Some (v, r) \<Longrightarrow> length r \<le> length s"
  by (induction x s rule: leading_int.induct) (auto simp: Let_def split: if_splits)

lemma leading_fraction_length: "leading_fraction over x scale s = (f, sc, r) \<Longrightarrow> length r \<le> length s"
  by (induction over x scale s rule: leading_fraction.induct) (auto simp: Let_def split: if_splits)

lemma duration_part_length: "duration_part frac s = Some (v, r) \<Longrightarrow> length r < length s"
proof -
  assume d: "duration_part frac s = Some (v, r)"
  have w: "length (dropWhile P xs) < length xs" if "takeWhile P xs \<noteq> []" for P and xs :: string
    using that takeWhile_dropWhile_id [of P xs] by (metis length_append length_greater_0_conv less_add_same_cancel2)
  show ?thesis
    using d w leading_int_length leading_fraction_length
    by (fastforce simp: duration_part_def Let_def split: if_splits option.splits prod.splits
        dest!: leading_int_length leading_fraction_length)
qed

text \<open>
  \<open>d += v\<close> on \<open>uint64\<close> and the test for an overflow after it: a sum of two to the 64th is zero and passes.
\<close>

definition two_64 :: int where "two_64 = 18446744073709551616"

function duration_sum :: "(int \<Rightarrow> int \<Rightarrow> int \<Rightarrow> nat) \<Rightarrow> int \<Rightarrow> string \<Rightarrow> int option" where
  "duration_sum frac d s =
     (if s = [] then Some d
      else (case duration_part frac s of
              None \<Rightarrow> None
            | Some (v, rest) \<Rightarrow>
                if (d + v) mod two_64 > two_63 then None else duration_sum frac ((d + v) mod two_64) rest))"
  by pat_completeness auto
termination
  by (relation "measure (\<lambda>(frac, d, s). length s)") (auto dest: duration_part_length)

declare duration_sum.simps [simp del]

definition parse_duration :: "(int \<Rightarrow> int \<Rightarrow> int \<Rightarrow> nat) \<Rightarrow> string \<Rightarrow> duration option" where
  "parse_duration frac s =
     (let neg = (s \<noteq> [] \<and> hd s = CHR ''-'');
          body = (if s \<noteq> [] \<and> (hd s = CHR ''-'' \<or> hd s = CHR ''+'') then tl s else s) in
      if body = ''0'' then Some 0
      else if body = [] then None
      else (case duration_sum frac 0 body of
              None \<Rightarrow> None
            | Some d \<Rightarrow> if neg then Some (- d) else if d > max_duration then None else Some d))"

section \<open>The environment\<close>

text \<open>What \<open>url.Parse\<close> answers, of which the sources read the scheme, the host, the user and the fragment.\<close>

record go_url =
  url_scheme :: string
  url_host :: string
  url_has_user :: bool
  url_fragment :: string

record go_env =
  lib_frac :: "int \<Rightarrow> int \<Rightarrow> int \<Rightarrow> nat"
  lib_url :: "string \<Rightarrow> go_url option"
  lib_quote :: "string \<Rightarrow> string"
  lib_wd :: "gerr + string"
  os_env :: "string \<rightharpoonup> string"

definition lookup_env :: "go_env \<Rightarrow> string \<Rightarrow> string \<Rightarrow> string" where
  "lookup_env g key fallback = (case os_env g key of Some v \<Rightarrow> v | None \<Rightarrow> fallback)"

definition positive_int :: "go_env \<Rightarrow> string \<Rightarrow> nat \<Rightarrow> gerr + int" where
  "positive_int g key fallback =
     (case atoi (lookup_env g key (itoa fallback)) of
        (n, e) \<Rightarrow> if e \<noteq> None \<or> n \<le> 0 then Inl (Err_Text (key @ '' must be a positive integer'')) else Inr n)"

definition positive_duration :: "go_env \<Rightarrow> string \<Rightarrow> string \<Rightarrow> gerr + duration" where
  "positive_duration g key fallback =
     (case parse_duration (lib_frac g) (lookup_env g key fallback) of
        Some d \<Rightarrow> if d \<le> 0 then Inl (Err_Text (key @ '' must be a positive duration, such as '' @ fallback)) else Inr d
      | None \<Rightarrow> Inl (Err_Text (key @ '' must be a positive duration, such as '' @ fallback)))"

definition http_url :: "go_env \<Rightarrow> string \<Rightarrow> bool" where
  "http_url g s \<longleftrightarrow>
     (case lib_url g s of None \<Rightarrow> False
      | Some u \<Rightarrow> url_hostname (url_host u) \<noteq> [] \<and> (url_scheme u = ''https'' \<or> url_scheme u = ''http'') \<and>
          \<not> url_has_user u \<and> url_fragment u = [])"

definition listen_error :: "go_env \<Rightarrow> string \<Rightarrow> gerr option" where
  "listen_error g address =
     (case split_host_port address of
        Inl e \<Rightarrow> Some (Err_Wrap (''invalid listen address '' @ lib_quote g address @ '': '' @ e) (Err_Text e))
      | Inr (host, port) \<Rightarrow>
          (case atoi port of
             (n, e) \<Rightarrow> if e \<noteq> None \<or> n < 1 \<or> n > 65535
                       then Some (Err_Text (''invalid listen port in '' @ lib_quote g address)) else None))"

section \<open>LoadConfig\<close>

text \<open>An early return with an error, and the next statement otherwise.\<close>

definition and_then :: "gerr + 'a \<Rightarrow> ('a \<Rightarrow> gerr + 'b) \<Rightarrow> gerr + 'b" where
  "and_then x f = (case x of Inl e \<Rightarrow> Inl e | Inr v \<Rightarrow> f v)"

lemma and_then_simps [simp]: "and_then (Inl e) f = Inl e" "and_then (Inr v) f = f v"
  by (simp_all add: and_then_def)

lemma and_then_Inr: "and_then x f = Inr y \<longleftrightarrow> (\<exists>v. x = Inr v \<and> f v = Inr y)"
  by (cases x) auto

definition require :: "gerr option \<Rightarrow> gerr + unit" where
  "require e = (case e of None \<Rightarrow> Inr () | Some x \<Rightarrow> Inl x)"

lemma require_Inr: "require e = Inr v \<longleftrightarrow> e = None"
  by (auto simp: require_def split: option.splits)

definition unique_error :: "string \<Rightarrow> gerr option" where
  "unique_error v =
     (if v \<noteq> ''true'' \<and> v \<noteq> ''false'' then Some (Err_Text ''UNIQUE_IP must be true or false'') else None)"

definition url_error :: "go_env \<Rightarrow> string \<Rightarrow> gerr option" where
  "url_error g s =
     (if \<not> http_url g s
      then Some (Err_Text ''IP_CHECK_URL must be an absolute HTTP(S) URL without credentials or a fragment'') else None)"

text \<open>
  The checks in their order. With an error the program also returns the part of the configuration read
  so far, which its only caller does not use.
\<close>

definition load_config :: "go_env \<Rightarrow> gerr + config" where
  "load_config g =
     (let proxy_addr = lookup_env g ''PROXY_ADDR'' '':3128'';
          web_addr = lookup_env g ''WEB_ADDR'' '':8080'';
          ip_check_url = lookup_env g ''IP_CHECK_URL'' ''https://api.ipify.org'';
          unique = lookup_env g ''UNIQUE_IP'' ''true'' in
      and_then (positive_int g ''TOR_COUNT'' 10) (\<lambda>tor_count.
      and_then (positive_int g ''MAX_USED_IP_RETRIES'' 3) (\<lambda>retries.
      and_then (require (unique_error unique)) (\<lambda>_.
      and_then (positive_int g ''MAX_CONNECTIONS'' 1024) (\<lambda>connections.
      and_then (positive_duration g ''CONNECT_TIMEOUT'' ''30s'') (\<lambda>connect_timeout.
      and_then (positive_duration g ''IDLE_TIMEOUT'' ''120s'') (\<lambda>idle_timeout.
      and_then (positive_duration g ''BOOTSTRAP_TIMEOUT'' ''5m'') (\<lambda>bootstrap_timeout.
      and_then (require (url_error g ip_check_url)) (\<lambda>_.
      and_then (require (listen_error g proxy_addr)) (\<lambda>_.
      and_then (require (listen_error g web_addr)) (\<lambda>_.
      and_then (path_abs (lib_wd g) (lookup_env g ''DATA_DIR'' ''/data'')) (\<lambda>data_dir.
        Inr \<lparr>TorCount = nat tor_count, UniqueIP = (unique = ''true''), MaxUsedIPRetries = retries,
             DataDir = data_dir, ProxyAddr = proxy_addr, WebAddr = web_addr, IPCheckURL = ip_check_url,
             ConnectTimeout = connect_timeout, IdleTimeout = idle_timeout,
             BootstrapTimeout = bootstrap_timeout, MaxConnections = connections\<rparr>))))))))))))"

end
