(* ===== verification/ConfigProps.thy ===== *)
theory ConfigProps
  imports LoadConfig
begin

text \<open>
  The properties of the configuration: which environments are accepted, what an accepted configuration
  guarantees to the components that use it, the defaults, and that a written duration is read back.
\<close>

section \<open>Ranges of what is read\<close>

lemma parse_uint_ge: "parse_uint s = (n, e) \<Longrightarrow> 0 \<le> n"
  using parse_uint_nonneg [of s] by simp

lemma atoi_max: "atoi s = (n, None) \<Longrightarrow> n \<le> max_int64"
  by (auto simp: atoi_def Let_def max_int64_def dest!: parse_uint_ge
      split: list.splits prod.splits option.splits num_error.splits if_splits)

lemma leading_int_ge: "leading_int x s = Some (v, r) \<Longrightarrow> 0 \<le> x \<Longrightarrow> 0 \<le> v"
  by (induction x s rule: leading_int.induct) (auto simp: Let_def split: if_splits)

lemma unit_ok:
  assumes "unit_of u = Some n"
  shows "1 \<le> n \<and> u \<noteq> [] \<and> (\<forall>c \<in> set u. \<not> number_start c)"
proof -
  have "list_all (\<lambda>(k, n). 1 \<le> n \<and> k \<noteq> [] \<and> list_all (\<lambda>c. \<not> number_start c) k) unit_map" by code_simp
  moreover have "(u, n) \<in> set unit_map" using assms by (auto simp: unit_of_def dest: map_of_SomeD)
  ultimately show ?thesis by (auto simp: list_all_iff)
qed

lemma unit_pos: "unit_of u = Some n \<Longrightarrow> 1 \<le> n"
  using unit_ok by blast

lemma duration_part_ge: "duration_part frac s = Some (v, r) \<Longrightarrow> 0 \<le> v"
  by (auto simp: duration_part_def Let_def split: if_splits option.splits prod.splits
      dest!: leading_int_ge unit_pos)

lemma duration_sum_ge: "duration_sum frac d s = Some v \<Longrightarrow> 0 \<le> d \<Longrightarrow> 0 \<le> v"
proof (induction frac d s rule: duration_sum.induct)
  case (1 frac d s)
  show ?case
  proof (cases "s = []")
    case True
    with 1 show ?thesis by (simp add: duration_sum.simps)
  next
    case False
    then obtain w r where p: "duration_part frac s = Some (w, r)" "\<not> (d + w) mod two_64 > two_63"
      and v: "duration_sum frac ((d + w) mod two_64) r = Some v"
      using "1.prems"(1) by (subst (asm) duration_sum.simps) (auto split: option.splits if_splits)
    have "0 \<le> (d + w) mod two_64" by (simp add: two_64_def)
    then show ?thesis using "1.IH" [OF False p(1) refl p(2)] v by blast
  qed
qed

lemma parse_duration_max: "parse_duration frac s = Some d \<Longrightarrow> d \<le> max_duration"
  by (auto simp: parse_duration_def Let_def max_duration_def dest!: duration_sum_ge split: if_splits option.splits)

section \<open>Durations written and read back\<close>

lemma leading_int_append:
  "leading_int x s = Some (v, []) \<Longrightarrow> leading_int x (s @ t) = leading_int v t"
  by (induction x s rule: leading_int.induct) (auto simp: Let_def split: if_splits)

lemma leading_int_itoa: "int n \<le> two_63 \<Longrightarrow> leading_int 0 (itoa n) = Some (int n, [])"
proof (induction n rule: itoa.induct)
  case (1 n)
  show ?case
  proof (cases "n < 10")
    case True
    with "1.prems" show ?thesis by (subst itoa.simps) (simp add: Let_def two_63_def)
  next
    case False
    have le: "int (n div 10) \<le> two_63 div 10" using "1.prems" by (simp add: two_63_def)
    then have "int (n div 10) \<le> two_63" by (simp add: two_63_def)
    with "1.IH" False have "leading_int 0 (itoa (n div 10)) = Some (int (n div 10), [])" by simp
    then have "leading_int 0 (itoa n) = leading_int (int (n div 10)) [digit_char (n mod 10)]"
      using False by (subst itoa.simps) (simp add: leading_int_append)
    also have "\<dots> = Some (int n, [])"
    proof -
      have "int (n div 10) * 10 + int (n mod 10) = int n" by presburger
      with le "1.prems" show ?thesis by (simp add: Let_def)
    qed
    finally show ?thesis .
  qed
qed

lemma leading_int_overflow: "int n > two_63 \<Longrightarrow> leading_int 0 (itoa n @ u) = None"
proof (induction n arbitrary: u rule: itoa.induct)
  case (1 n)
  then have n: "\<not> n < 10" by (simp add: two_63_def)
  let ?d = "digit_char (n mod 10)"
  have s: "itoa n @ u = itoa (n div 10) @ ?d # u" using n by (subst itoa.simps) simp
  show ?case
  proof (cases "int (n div 10) > two_63")
    case True
    with "1.IH" n show ?thesis unfolding s by simp
  next
    case False
    then have l: "leading_int 0 (itoa n @ u) = leading_int (int (n div 10)) (?d # u)"
      unfolding s using leading_int_itoa [of "n div 10"] leading_int_append by simp
    have "int (n div 10) * 10 + int (n mod 10) = int n" by presburger
    with "1.prems" l show ?thesis by (simp add: Let_def)
  qed
qed

lemma leading_int_unit: "u \<noteq> [] \<Longrightarrow> \<not> is_digit (hd u) \<Longrightarrow> leading_int x u = Some (x, u)"
  by (cases u) simp_all

text \<open>
  A whole number followed by a unit is read as that many units, for every unit and up to
  the longest duration, however fractions are rounded; beyond that it is refused.
\<close>

theorem duration_roundtrip:
  assumes "unit_of u = Some n"
  shows "parse_duration frac (itoa k @ u) = (if int k * n \<le> max_duration then Some (int k * n) else None)"
proof -
  have u: "u \<noteq> []" "\<forall>c \<in> set u. \<not> number_start c"
    using unit_ok [OF assms] by simp_all
  then have hu: "\<not> is_digit (hd u)" "hd u \<noteq> CHR ''.''" by (cases u; simp add: number_start_def)+
  have n: "1 \<le> n" by (rule unit_pos [OF assms])
  obtain c r where s: "itoa k = c # r" by (cases "itoa k") auto
  then have c: "is_digit c" using itoa_digits [of c k] by simp
  then have nosign: "c \<noteq> CHR ''-''" "c \<noteq> CHR ''+''" by (auto simp: is_digit_def)
  have ns: "number_start (hd (itoa k @ u))" using c s by (simp add: number_start_def)
  have tw: "takeWhile (\<lambda>c. \<not> number_start c) u = u" "dropWhile (\<lambda>c. \<not> number_start c) u = []"
    using u(2) by simp_all
  have body: "itoa k @ u \<noteq> ''0''" "itoa k @ u \<noteq> []"
  proof -
    have "length (itoa k @ u) \<ge> 2" using s u(1) by (cases u) simp_all
    then have "length (itoa k @ u) \<noteq> length ''0''" "length (itoa k @ u) \<noteq> 0" by simp_all
    then show "itoa k @ u \<noteq> ''0''" "itoa k @ u \<noteq> []" by (metis, simp)
  qed
  have sum: "duration_sum frac 0 (itoa k @ u) = (if int k * n > two_63 then None else Some (int k * n))"
  proof (cases "int k > two_63")
    case True
    then have "leading_int 0 (itoa k @ u) = None" by (rule leading_int_overflow)
    moreover have "int k * n > two_63" using True n
      by (smt (verit) mult_le_cancel_left1 of_nat_0_le_iff two_63_def)
    ultimately show ?thesis
      using body(2) ns by (subst duration_sum.simps) (simp add: duration_part_def)
  next
    case False
    then have l: "leading_int 0 (itoa k @ u) = Some (int k, u)"
      using leading_int_itoa [of k] leading_int_append [of 0 "itoa k" "int k" u] leading_int_unit [OF u(1) hu(1)] by simp
    have q: "int k > two_63 div n \<longleftrightarrow> int k * n > two_63"
    proof
      assume "int k > two_63 div n"
      then have "n * (two_63 div n + 1) \<le> n * int k" using n by simp
      moreover have "two_63 = n * (two_63 div n) + two_63 mod n" "two_63 mod n < n" using n by simp_all
      then have "two_63 < n * (two_63 div n) + n" by linarith
      ultimately show "int k * n > two_63" by (simp add: mult.commute distrib_left)
    next
      assume gt: "int k * n > two_63"
      show "int k > two_63 div n"
      proof (rule ccontr)
        assume "\<not> int k > two_63 div n"
        then have "int k * n \<le> (two_63 div n) * n" using n by simp
        also have "\<dots> \<le> two_63" using n by (simp add: pos_mod_sign minus_mod_eq_div_mult [symmetric])
        finally show False using gt by simp
      qed
    qed
    have "duration_part frac (itoa k @ u) = (if int k > two_63 div n then None else Some (int k * n, []))"
      using ns body(2) u(1) hu(2) assms by (simp add: duration_part_def Let_def l tw)
    moreover have "int k * n mod two_64 = int k * n" if "int k * n \<le> two_63"
      using that n by (intro mod_pos_pos_trivial) (simp_all add: two_63_def two_64_def)
    ultimately show ?thesis using body(2) q by (subst duration_sum.simps) (simp add: duration_sum.simps)
  qed
  have "\<not> (itoa k @ u \<noteq> [] \<and> (hd (itoa k @ u) = CHR ''-'' \<or> hd (itoa k @ u) = CHR ''+''))"
    "hd (itoa k @ u) \<noteq> CHR ''-''" using s nosign by simp_all
  then show ?thesis using body sum by (simp add: parse_duration_def Let_def max_duration_def two_63_def)
qed

theorem duration_roundtrip_witness:
  "parse_duration (\<lambda>_ _ _. 0) (itoa 30 @ ''s'') = Some 30000000000 \<and> parse_duration (\<lambda>_ _ _. 0) (itoa 2562048 @ ''h'') = None"
proof -
  have u: "unit_of ''s'' = Some 1000000000" "unit_of ''h'' = Some 3600000000000" by code_simp+
  show ?thesis
    using duration_roundtrip [OF u(1), of "\<lambda>_ _ _. 0" 30] duration_roundtrip [OF u(2), of "\<lambda>_ _ _. 0" 2562048]
    by (simp add: max_duration_def)
qed

text \<open>
  The sum of the parts wraps around at exactly two to the 64th, so that \<open>ParseDuration\<close> accepts a text whose parts are beyond any
  duration.
\<close>

lemma duration_wraps:
  "parse_duration frac ''9223372036854775808ns9223372036854775808ns30s'' = Some 30000000000"
  "parse_duration frac ''9223372036854775808ns1ns'' = None"
  by code_simp+

section \<open>LoadConfig\<close>

text \<open>The specification: what every variable has to satisfy, defaults included.\<close>

definition positive_text :: "string \<Rightarrow> bool" where
  "positive_text s \<longleftrightarrow> snd (atoi s) = None \<and> 1 \<le> fst (atoi s)"

definition port_text :: "string \<Rightarrow> bool" where
  "port_text s \<longleftrightarrow> snd (atoi s) = None \<and> 1 \<le> fst (atoi s) \<and> fst (atoi s) \<le> 65535"

definition listen_text :: "string \<Rightarrow> bool" where
  "listen_text s \<longleftrightarrow> (\<exists>host port. split_host_port s = Inr (host, port) \<and> port_text port)"

definition duration_text :: "go_env \<Rightarrow> string \<Rightarrow> bool" where
  "duration_text g s \<longleftrightarrow> (\<exists>d. parse_duration (lib_frac g) s = Some d \<and> 1 \<le> d)"

definition env_ok :: "go_env \<Rightarrow> bool" where
  "env_ok g \<longleftrightarrow>
     positive_text (lookup_env g ''TOR_COUNT'' (itoa 10)) \<and>
     positive_text (lookup_env g ''MAX_USED_IP_RETRIES'' (itoa 3)) \<and>
     positive_text (lookup_env g ''MAX_CONNECTIONS'' (itoa 1024)) \<and>
     lookup_env g ''UNIQUE_IP'' ''true'' \<in> {''true'', ''false''} \<and>
     duration_text g (lookup_env g ''CONNECT_TIMEOUT'' ''30s'') \<and>
     duration_text g (lookup_env g ''IDLE_TIMEOUT'' ''120s'') \<and>
     duration_text g (lookup_env g ''BOOTSTRAP_TIMEOUT'' ''5m'') \<and>
     http_url g (lookup_env g ''IP_CHECK_URL'' ''https://api.ipify.org'') \<and>
     listen_text (lookup_env g ''PROXY_ADDR'' '':3128'') \<and>
     listen_text (lookup_env g ''WEB_ADDR'' '':8080'') \<and>
     (is_abs (lookup_env g ''DATA_DIR'' ''/data'') \<or> (\<exists>d. lib_wd g = Inr d))"

lemma positive_int_Inr:
  "positive_int g key k = Inr n \<longleftrightarrow> positive_text (lookup_env g key (itoa k)) \<and> n = fst (atoi (lookup_env g key (itoa k)))"
  by (auto simp: positive_int_def positive_text_def split: prod.splits)

lemma positive_duration_Inr:
  "positive_duration g key s = Inr d \<longleftrightarrow> 1 \<le> d \<and> parse_duration (lib_frac g) (lookup_env g key s) = Some d"
  by (auto simp: positive_duration_def split: option.splits)

lemma listen_error_None: "listen_error g s = None \<longleftrightarrow> listen_text s"
  by (auto simp: listen_error_def listen_text_def port_text_def split: sum.splits prod.splits)

lemma url_error_None: "url_error g s = None \<longleftrightarrow> http_url g s"
  by (simp add: url_error_def)

lemma unique_error_None: "unique_error v = None \<longleftrightarrow> v \<in> {''true'', ''false''}"
  by (auto simp: unique_error_def)

lemma path_abs_Inr: "(\<exists>d. path_abs wd p = Inr d) \<longleftrightarrow> is_abs p \<or> (\<exists>d. wd = Inr d)"
  by (auto simp: path_abs_def split: sum.splits)

lemmas load_config_parts = positive_int_Inr positive_duration_Inr require_Inr listen_error_None url_error_None
  unique_error_None

lemma positive_text_max: "positive_text s \<Longrightarrow> fst (atoi s) \<le> max_int64"
  using atoi_max [of s "fst (atoi s)"] by (simp add: positive_text_def prod_eq_iff)

lemma config_ok_iff: "(\<exists>c. load_config g = Inr c) \<longleftrightarrow> env_ok g"
proof
  assume "\<exists>c. load_config g = Inr c"
  then show "env_ok g"
    using path_abs_Inr [of "lib_wd g" "lookup_env g ''DATA_DIR'' ''/data''"]
    by (auto simp: load_config_def env_ok_def duration_text_def Let_def and_then_Inr load_config_parts)
next
  assume e: "env_ok g"
  then obtain d1 d2 d3 where d: "positive_duration g ''CONNECT_TIMEOUT'' ''30s'' = Inr d1"
    "positive_duration g ''IDLE_TIMEOUT'' ''120s'' = Inr d2"
    "positive_duration g ''BOOTSTRAP_TIMEOUT'' ''5m'' = Inr d3"
    unfolding env_ok_def duration_text_def positive_duration_Inr by blast
  obtain a where a: "path_abs (lib_wd g) (lookup_env g ''DATA_DIR'' ''/data'') = Inr a"
    using e path_abs_Inr unfolding env_ok_def by blast
  have p: "\<exists>n. positive_int g ''TOR_COUNT'' 10 = Inr n" "\<exists>n. positive_int g ''MAX_USED_IP_RETRIES'' 3 = Inr n"
    "\<exists>n. positive_int g ''MAX_CONNECTIONS'' 1024 = Inr n"
    using e by (simp_all add: env_ok_def positive_int_Inr)
  have q: "require (unique_error (lookup_env g ''UNIQUE_IP'' ''true'')) = Inr ()"
    "require (url_error g (lookup_env g ''IP_CHECK_URL'' ''https://api.ipify.org'')) = Inr ()"
    "require (listen_error g (lookup_env g ''PROXY_ADDR'' '':3128'')) = Inr ()"
    "require (listen_error g (lookup_env g ''WEB_ADDR'' '':8080'')) = Inr ()"
    using e by (simp_all only: env_ok_def require_Inr unique_error_None url_error_None listen_error_None)
  show "\<exists>c. load_config g = Inr c"
    using p by (auto simp: load_config_def Let_def d a q)
qed

text \<open>
  Claim C25. The environment is accepted exactly when every variable is in order, whichever the
  order of the checks: positive counts, a boolean, positive durations, an HTTP address without credentials and
  fragment, two listen addresses with a port from 1 to 65535, and a data directory that can be made absolute.
  An accepted configuration is what the other components rely on: no count is zero or beyond a 64-bit number, every
  time-out is positive, and the data directory is absolute.
\<close>

theorem config_accepts:
  shows "((\<exists>c. load_config g = Inr c) \<longleftrightarrow> env_ok g) \<and>
    (\<forall>c. load_config g = Inr c \<longrightarrow>
      1 \<le> TorCount c \<and> int (TorCount c) \<le> max_int64 \<and> 1 \<le> MaxUsedIPRetries c \<and> 1 \<le> MaxConnections c \<and>
      (\<forall>d \<in> {ConnectTimeout c, IdleTimeout c, BootstrapTimeout c}. 1 \<le> d \<and> d \<le> max_duration) \<and>
      listen_text (ProxyAddr c) \<and> listen_text (WebAddr c) \<and> http_url g (IPCheckURL c) \<and>
      ((\<forall>d. lib_wd g = Inr d \<longrightarrow> is_abs d) \<longrightarrow> is_abs (DataDir c) \<and> clean (DataDir c) = DataDir c))"
proof (intro conjI allI impI ballI)
  show "(\<exists>c. load_config g = Inr c) \<longleftrightarrow> env_ok g" by (rule config_ok_iff)
next
  fix c assume "load_config g = Inr c"
  then obtain n1 n2 n3 d1 d2 d3 a where
    n: "positive_int g ''TOR_COUNT'' 10 = Inr n1" "positive_int g ''MAX_USED_IP_RETRIES'' 3 = Inr n2"
      "positive_int g ''MAX_CONNECTIONS'' 1024 = Inr n3"
    and d: "positive_duration g ''CONNECT_TIMEOUT'' ''30s'' = Inr d1"
      "positive_duration g ''IDLE_TIMEOUT'' ''120s'' = Inr d2"
      "positive_duration g ''BOOTSTRAP_TIMEOUT'' ''5m'' = Inr d3"
    and u: "http_url g (lookup_env g ''IP_CHECK_URL'' ''https://api.ipify.org'')"
      "listen_text (lookup_env g ''PROXY_ADDR'' '':3128'')" "listen_text (lookup_env g ''WEB_ADDR'' '':8080'')"
    and a: "path_abs (lib_wd g) (lookup_env g ''DATA_DIR'' ''/data'') = Inr a"
    and c: "c = \<lparr>TorCount = nat n1, UniqueIP = (lookup_env g ''UNIQUE_IP'' ''true'' = ''true''), MaxUsedIPRetries = n2,
             DataDir = a, ProxyAddr = lookup_env g ''PROXY_ADDR'' '':3128'', WebAddr = lookup_env g ''WEB_ADDR'' '':8080'',
             IPCheckURL = lookup_env g ''IP_CHECK_URL'' ''https://api.ipify.org'',
             ConnectTimeout = d1, IdleTimeout = d2, BootstrapTimeout = d3, MaxConnections = n3\<rparr>"
    unfolding load_config_def Let_def and_then_Inr require_Inr listen_error_None url_error_None by blast
  have r: "1 \<le> n1 \<and> n1 \<le> max_int64" "1 \<le> n2" "1 \<le> n3"
    using n positive_text_max unfolding positive_int_Inr positive_text_def by auto
  show "1 \<le> TorCount c" "int (TorCount c) \<le> max_int64" "1 \<le> MaxUsedIPRetries c" "1 \<le> MaxConnections c"
    "listen_text (ProxyAddr c)" "listen_text (WebAddr c)" "http_url g (IPCheckURL c)"
    using r u nat_mono [of 1 n1] by (simp_all add: c)
  show "1 \<le> d" "d \<le> max_duration" if "d \<in> {ConnectTimeout c, IdleTimeout c, BootstrapTimeout c}" for d
    using that d parse_duration_max unfolding positive_duration_Inr by (auto simp: c)
  assume "\<forall>d. lib_wd g = Inr d \<longrightarrow> is_abs d"
  from abs_rooted [OF a this] obtain cs where "a = rooted_path cs" "\<forall>c \<in> set cs. plain c" by blast
  then show "is_abs (DataDir c)" "clean (DataDir c) = DataDir c" by (simp_all add: c clean_rooted_fix)
qed

text \<open>An environment without variables, on a system whose \<open>url.Parse\<close> knows the default address.\<close>

definition demo_env_of :: "(string \<rightharpoonup> string) \<Rightarrow> go_env" where
  "demo_env_of vars = \<lparr>lib_frac = (\<lambda>f u s. nat (f * u div s)),
     lib_url = (\<lambda>s. if s = ''https://api.ipify.org''
       then Some \<lparr>url_scheme = ''https'', url_host = ''api.ipify.org'', url_has_user = False, url_fragment = ''''\<rparr> else None),
     lib_quote = (\<lambda>s. s), lib_wd = Inr ''/'', os_env = vars\<rparr>"

lemma itoa_defaults: "itoa 10 = ''10''" "itoa 3 = ''3''" "itoa 1024 = ''1024''"
  by code_simp+

text \<open>
  With no variable set the program runs with the documented defaults: ten instances, unique addresses
  with three retries, port 3128 for the proxy and 8080 for the dashboard, and time-outs of thirty seconds, two
  minutes and five minutes, on every system whose \<open>url.Parse\<close> splits the default address as it is documented to.
\<close>

theorem config_defaults:
  assumes "os_env g = Map.empty"
    and "lib_url g ''https://api.ipify.org'' =
      Some \<lparr>url_scheme = ''https'', url_host = ''api.ipify.org'', url_has_user = False, url_fragment = ''''\<rparr>"
  shows "load_config g = Inr \<lparr>TorCount = 10, UniqueIP = True, MaxUsedIPRetries = 3, DataDir = ''/data'',
     ProxyAddr = '':3128'', WebAddr = '':8080'', IPCheckURL = ''https://api.ipify.org'',
     ConnectTimeout = 30 * 10 ^ 9, IdleTimeout = 120 * 10 ^ 9, BootstrapTimeout = 5 * 60 * 10 ^ 9,
     MaxConnections = 1024\<rparr>"
proof -
  have l: "lookup_env g k d = d" for k d using assms(1) by (simp add: lookup_env_def)
  have n: "atoi ''10'' = (10, None)" "atoi ''3'' = (3, None)" "atoi ''1024'' = (1024, None)"
    "atoi ''3128'' = (3128, None)" "atoi ''8080'' = (8080, None)" by code_simp+
  have u: "unit_of ''s'' = Some 1000000000" "unit_of ''m'' = Some 60000000000" by code_simp+
  have i: "itoa 30 = ''30''" "itoa 120 = ''120''" "itoa 5 = ''5''" by code_simp+
  have d: "parse_duration (lib_frac g) ''30s'' = Some 30000000000"
    "parse_duration (lib_frac g) ''120s'' = Some 120000000000"
    "parse_duration (lib_frac g) ''5m'' = Some 300000000000"
    using duration_roundtrip [OF u(1), of "lib_frac g" 30] duration_roundtrip [OF u(1), of "lib_frac g" 120]
      duration_roundtrip [OF u(2), of "lib_frac g" 5]
    by (simp_all add: i max_duration_def)
  have s: "split_host_port '':3128'' = Inr ('''', ''3128'')" "split_host_port '':8080'' = Inr ('''', ''8080'')"
    by code_simp+
  have h: "url_hostname ''api.ipify.org'' \<noteq> ''''" by code_simp
  have a: "path_abs (lib_wd g) ''/data'' = Inr ''/data''"
    by (simp add: path_abs_def clean_def is_abs_def slash_def clean_step_def Let_def)
  have hu: "http_url g ''https://api.ipify.org''" using h assms(2) by (simp add: http_url_def)
  have p: "positive_int g k 10 = Inr 10" "positive_int g k 3 = Inr 3" "positive_int g k 1024 = Inr 1024" for k
    by (simp_all add: positive_int_def l itoa_defaults n)
  have dd: "positive_duration g k ''30s'' = Inr 30000000000" "positive_duration g k ''120s'' = Inr 120000000000"
    "positive_duration g k ''5m'' = Inr 300000000000" for k
    by (simp_all add: positive_duration_def l d)
  have le: "listen_error g '':3128'' = None" "listen_error g '':8080'' = None"
    by (simp_all add: listen_error_def s n)
  have ue: "unique_error ''true'' = None" "url_error g ''https://api.ipify.org'' = None"
    using hu by (simp_all add: unique_error_def url_error_def)
  show ?thesis
    by (simp add: load_config_def Let_def l p dd le ue a require_def)
qed

theorem config_defaults_witness:
  "\<exists>c. load_config (demo_env_of Map.empty) = Inr c \<and> TorCount c = 10 \<and> ConnectTimeout c = 30000000000"
  using config_defaults [of "demo_env_of Map.empty"] by (simp add: demo_env_of_def)

theorem config_accepts_witness:
  "\<not> (\<exists>c. load_config (demo_env_of [''TOR_COUNT'' \<mapsto> ''0'']) = Inr c)"
proof -
  have "lookup_env (demo_env_of [''TOR_COUNT'' \<mapsto> ''0'']) ''TOR_COUNT'' (itoa 10) = ''0''"
    by (simp add: lookup_env_def demo_env_of_def)
  moreover have "\<not> positive_text ''0''" by code_simp
  ultimately have "\<not> env_ok (demo_env_of [''TOR_COUNT'' \<mapsto> ''0''])" unfolding env_ok_def by metis
  then show ?thesis using conjunct1 [OF config_accepts] by blast
qed

end
