(* ===== verification/TorLog.thy ===== *)
theory TorLog
  imports Control GoNet Paths
begin

text \<open>
  \<open>torLogWriter\<close> of \<open>internal/app/tor.go\<close>: the output of the Tor process arrives in pieces of any size and is
  passed on line by line.
\<close>

section \<open>The writer\<close>

datatype log_level = L_Warn | L_Debug

definition log_line :: "string \<Rightarrow> log_level \<times> string" where
  "log_line line =
     ((if contains_sub line ''[warn]'' \<or> contains_sub line ''[err]'' then L_Warn else L_Debug), trim_space line)"

text \<open>The loop of \<open>strings.Cut\<close>: the lines that are complete, and the rest.\<close>

lemma index_rest_length: "index_byte c s = Some i \<Longrightarrow> length (drop (Suc i) s) < length s"
  using index_byte_Some by fastforce

function cut_lines :: "string \<Rightarrow> string list \<times> string" where
  "cut_lines buffer =
     (case index_byte newline buffer of
        None \<Rightarrow> ([], buffer)
      | Some i \<Rightarrow> (case cut_lines (drop (Suc i) buffer) of (lines, rest) \<Rightarrow> (take i buffer # lines, rest)))"
  by pat_completeness auto
termination
  by (relation "measure length") (auto dest: index_rest_length)

declare cut_lines.simps [simp del]

definition max_log_line :: nat where "max_log_line = 65536"

text \<open>\<open>Write\<close>: what is logged, and the new buffer. The number of bytes it returns is always \<open>len(data)\<close>.\<close>

definition log_write :: "string \<Rightarrow> string \<Rightarrow> (log_level \<times> string) list \<times> string" where
  "log_write buffer data =
     (case cut_lines (buffer @ data) of
        (lines, rest) \<Rightarrow> (map log_line lines, if length rest > max_log_line then [] else rest))"

fun log_writes :: "string \<Rightarrow> string list \<Rightarrow> (log_level \<times> string) list \<times> string" where
  "log_writes buffer [] = ([], buffer)"
| "log_writes buffer (data # more_data) =
     (case log_write buffer data of
        (out, buffer) \<Rightarrow> (case log_writes buffer more_data of (out', buffer) \<Rightarrow> (out @ out', buffer)))"

section \<open>Lines do not depend on the pieces\<close>

lemma cut_lines_split: "cut_lines s = (butlast (split_on newline s), last (split_on newline s))"
proof (induction s rule: cut_lines.induct)
  case (1 s)
  show ?case
  proof (cases "index_byte newline s")
    case None
    then have "split_on newline s = [s]" by (simp add: split_on_single)
    with None show ?thesis by (subst cut_lines.simps) (simp del: index_byte_None)
  next
    case (Some i)
    note i = index_byte_Some [OF Some]
    have "split_on newline s = take i s # split_on newline (drop (Suc i) s)"
      using split_on_append [of newline "take i s" "drop (Suc i) s"] i
      by (metis id_take_nth_drop)
    then show ?thesis using "1.IH" [OF Some] by (subst cut_lines.simps) (simp add: Some)
  qed
qed

lemma split_on_concat:
  "split_on sep (s @ t) = butlast (split_on sep s) @ split_on sep (last (split_on sep s) @ t)"
proof (induction s)
  case (Cons c s)
  then show ?case by (cases "split_on sep s") (auto split: list.splits)
qed simp

text \<open>No line, nor what follows the last one, is longer than the buffer may be.\<close>

definition short_lines :: "string \<Rightarrow> bool" where
  "short_lines s \<longleftrightarrow> (\<forall>l \<in> set (split_on newline s). length l \<le> max_log_line)"

lemma last_not_newline: "newline \<notin> set (last (split_on newline s))"
  using split_on_no_sep [of "last (split_on newline s)" newline s] by simp

lemma short_parts:
  assumes "short_lines (s @ t)"
  shows "length (last (split_on newline s)) \<le> max_log_line" and "short_lines (last (split_on newline s) @ t)"
proof -
  let ?b = "last (split_on newline s)"
  have sub: "set (split_on newline (?b @ t)) \<subseteq> set (split_on newline (s @ t))"
    by (subst split_on_concat [of newline s t]) simp
  then show l: "short_lines (?b @ t)" using assms by (auto simp: short_lines_def)
  obtain w ws where w: "split_on newline t = w # ws" by (cases "split_on newline t") auto
  have "\<exists>v \<in> set (split_on newline (?b @ t)). prefix ?b v"
  proof (cases "newline \<in> set t")
    case True
    then obtain t1 t2 where t: "t = t1 @ newline # t2" "newline \<notin> set t1" by (meson split_list_first)
    have "newline \<notin> set (?b @ t1)" using last_not_newline t(2) by simp
    then have "split_on newline ((?b @ t1) @ newline # t2) = (?b @ t1) # split_on newline t2" by (rule split_on_append)
    then show ?thesis using t(1) by simp
  next
    case False
    then have "split_on newline (?b @ t) = [?b @ t]" using last_not_newline by (intro split_on_single) simp
    then show ?thesis by simp
  qed
  then show "length ?b \<le> max_log_line"
    using l prefix_length_le unfolding short_lines_def by (meson le_trans)
qed

lemma writes_lines:
  assumes "short_lines (buffer @ concat chunks)" and "newline \<notin> set buffer"
  shows "log_writes buffer chunks =
    (map log_line (butlast (split_on newline (buffer @ concat chunks))),
     last (split_on newline (buffer @ concat chunks)))"
  using assms
proof (induction chunks arbitrary: buffer)
  case Nil
  then have "split_on newline buffer = [buffer]" by (intro split_on_single)
  then show ?case by simp
next
  case (Cons d chunks)
  let ?s = "split_on newline (buffer @ d)"
  have sh: "short_lines ((buffer @ d) @ concat chunks)" using Cons.prems(1) by simp
  note p = short_parts [OF sh]
  have w: "log_write buffer d = (map log_line (butlast ?s), last ?s)"
    using p(1) by (simp add: log_write_def cut_lines_split)
  have ih: "log_writes (last ?s) chunks =
    (map log_line (butlast (split_on newline (last ?s @ concat chunks))), last (split_on newline (last ?s @ concat chunks)))"
    by (rule Cons.IH [OF p(2) last_not_newline])
  have c: "split_on newline (buffer @ d @ concat chunks) =
      butlast ?s @ split_on newline (last ?s @ concat chunks)"
    using split_on_concat [of newline "buffer @ d" "concat chunks"] by simp
  show ?case by (simp add: w ih c butlast_append)
qed

lemma writes_bound: "length buffer \<le> max_log_line \<Longrightarrow> length (snd (log_writes buffer chunks)) \<le> max_log_line"
proof (induction chunks arbitrary: buffer)
  case (Cons d chunks)
  have "length (snd (log_write buffer d)) \<le> max_log_line"
    by (simp add: log_write_def split: prod.splits)
  with Cons.IH show ?case by (auto split: prod.splits) (metis snd_conv)
qed simp

text \<open>
  Claim C36. When no line of the output of Tor is longer than 64 KiB, then, however the output is cut into pieces, every line
  is logged once, in order and as a whole, and the buffer holds what follows the last line break: the same as one write of the
  whole output. (The part of a longer line that came without its end is discarded, so there the pieces matter.) Whatever comes in, the
  buffer never grows beyond 64 KiB.
\<close>

theorem log_lines:
  shows "(short_lines (concat chunks) \<longrightarrow>
      log_writes [] chunks = log_write [] (concat chunks) \<and>
      log_writes [] chunks = (map log_line (butlast (split_on newline (concat chunks))),
        last (split_on newline (concat chunks)))) \<and>
    length (snd (log_writes [] chunks)) \<le> 65536"
proof -
  have "log_write [] (concat chunks) = log_writes [] [concat chunks]"
    by (simp split: prod.splits)
  then show ?thesis
    using writes_lines [of "[]" chunks] writes_lines [of "[]" "[concat chunks]"] writes_bound [of "[]" chunks]
    by (simp add: max_log_line_def)
qed

theorem log_lines_witness:
  "fst (log_writes [] [''Nov 1 [no'', ''tice] Bootstrapped'' @ [newline] @ ''Nov 1 [wa'', ''rn] x'' @ [newline] @ ''rest''])
     = [(L_Debug, ''Nov 1 [notice] Bootstrapped''), (L_Warn, ''Nov 1 [warn] x'')]"
proof -
  let ?c = "[''Nov 1 [no'', ''tice] Bootstrapped'' @ [newline] @ ''Nov 1 [wa'', ''rn] x'' @ [newline] @ ''rest'']"
  have s: "split_on newline (concat ?c) = [''Nov 1 [notice] Bootstrapped'', ''Nov 1 [warn] x'', ''rest'']" by code_simp
  have "short_lines (concat ?c)" unfolding short_lines_def s by (simp add: max_log_line_def)
  with log_lines [of ?c] have l: "log_writes [] ?c = (map log_line (butlast (split_on newline (concat ?c))),
      last (split_on newline (concat ?c)))" by blast
  have "map log_line [''Nov 1 [notice] Bootstrapped'', ''Nov 1 [warn] x'']
     = [(L_Debug, ''Nov 1 [notice] Bootstrapped''), (L_Warn, ''Nov 1 [warn] x'')]" by code_simp
  then show ?thesis unfolding l s by simp
qed

end
