(* ===== verification/LoadTest.thy ===== *)
theory LoadTest
  imports LoadConfig
begin

text \<open>
  The load tester of \<open>internal/app/loadtest.go\<close>. Its operations run under \<open>mu\<close> and are atomic; the
  goroutine of \<open>run\<close> and the goroutines of its requests are step relations over the tester, with the
  channel \<open>slots\<close> as a counter. What a request over the network returns is an argument. The averages, which Go
  computes in floating point, are kept as the total and the number it is divided by.
\<close>

section \<open>Data\<close>

datatype test_state = T_Idle | T_Running | T_Stopping | T_Stopped

record test_options =
  opt_url :: string
  opt_rps :: int

record test_stats =
  ts_state :: test_state
  ts_url :: string
  ts_target_rps :: int
  ts_started :: gotime
  ts_stopped :: gotime
  ts_sent :: uint64
  ts_success :: uint64
  ts_failed :: uint64
  ts_unavailable :: uint64
  ts_canceled :: uint64
  ts_skipped :: uint64
  ts_in_flight :: int
  ts_last_error :: string
  ts_codes :: "int \<Rightarrow> uint64"

record rate_bucket =
  rb_tick :: int
  rb_count :: uint64

text \<open>
  \<open>lt_loop\<close> tells whether the loop of \<open>run\<close> is going, \<open>lt_drain\<close> whether it has ended and waits for the
  requests; \<open>lt_slots\<close> are the elements of the channel \<open>slots\<close>, \<open>lt_recorded\<close> the requests that are counted but still
  hold their slot; \<open>lt_cancelled\<close> is the context of the test, \<open>lt_parent_done\<close> that of the program.
\<close>

record load_tester =
  lt_proxy_url :: string
  lt_timeout :: duration
  lt_stats :: test_stats
  lt_total_time :: duration
  lt_success_time :: duration
  lt_buckets :: "rate_bucket list"
  lt_cancelled :: bool
  lt_parent_done :: bool
  lt_loop :: bool
  lt_drain :: bool
  lt_slots :: nat
  lt_recorded :: nat

section \<open>NewLoadTester\<close>

definition loopback_host :: "string \<Rightarrow> string" where
  "loopback_host host =
     (if host = '''' \<or> host = ''0.0.0.0'' \<or> host = ''::'' then ''127.0.0.1'' else host)"

definition fresh_stats :: "test_state \<Rightarrow> string \<Rightarrow> int \<Rightarrow> gotime \<Rightarrow> test_stats" where
  "fresh_stats st url rps now =
     \<lparr>ts_state = st, ts_url = url, ts_target_rps = rps, ts_started = now, ts_stopped = Zero_Time, ts_sent = 0,
      ts_success = 0, ts_failed = 0, ts_unavailable = 0, ts_canceled = 0, ts_skipped = 0, ts_in_flight = 0,
      ts_last_error = '''', ts_codes = (\<lambda>_. 0)\<rparr>"

definition no_buckets :: "rate_bucket list" where
  "no_buckets = replicate 10 \<lparr>rb_tick = 0, rb_count = 0\<rparr>"

text \<open>The error of \<open>SplitHostPort\<close> is dropped, and host and port are then empty.\<close>

definition new_load_tester :: "config \<Rightarrow> load_tester" where
  "new_load_tester cfg =
     (case (case split_host_port (ProxyAddr cfg) of Inl e \<Rightarrow> ('''', '''') | Inr hp \<Rightarrow> hp) of
        (host, port) \<Rightarrow>
          \<lparr>lt_proxy_url = ''http://'' @ join_host_port (loopback_host host) port, lt_timeout = ConnectTimeout cfg,
           lt_stats = fresh_stats T_Idle (IPCheckURL cfg) 1 Zero_Time, lt_total_time = 0, lt_success_time = 0,
           lt_buckets = no_buckets, lt_cancelled = False, lt_parent_done = False, lt_loop = False, lt_drain = False,
           lt_slots = 0, lt_recorded = 0\<rparr>)"

section \<open>Start, Stop and Snapshot\<close>

definition test_start :: "go_env \<Rightarrow> gotime \<Rightarrow> test_options \<Rightarrow> load_tester \<Rightarrow> gerr option \<times> load_tester" where
  "test_start g now opts t =
     (if \<not> http_url g (opt_url opts)
      then (Some (Err_Text ''url must be an absolute HTTP(S) URL without credentials or a fragment''), t)
      else if opt_rps opts < 1 \<or> opt_rps opts > 1000
      then (Some (Err_Text ''rps must be an integer between 1 and 1000''), t)
      else if lt_parent_done t then (Some (Err_Text ''application is shutting down''), t)
      else if ts_state (lt_stats t) = T_Running \<or> ts_state (lt_stats t) = T_Stopping then (Some Err_TestActive, t)
      else (None, t\<lparr>lt_cancelled := False, lt_stats := fresh_stats T_Running (opt_url opts) (opt_rps opts) now,
              lt_total_time := 0, lt_success_time := 0, lt_buckets := no_buckets,
              lt_loop := True, lt_drain := False\<rparr>))"

definition test_stop :: "load_tester \<Rightarrow> load_tester" where
  "test_stop t =
     (if ts_state (lt_stats t) = T_Running
      then t\<lparr>lt_stats := (lt_stats t)\<lparr>ts_state := T_Stopping\<rparr>, lt_cancelled := True\<rparr> else t)"

text \<open>
  \<open>time.Now().UnixMilli() / 100\<close>: the tick of a time in milliseconds; Go's division rounds towards zero. An index
  \<open>tick % 10\<close> below zero panics in Go: the times are those of a clock set after 1970.
\<close>

definition unix_tick :: "int \<Rightarrow> int" where
  "unix_tick ms = (if ms < 0 then - (- ms div 100) else ms div 100)"

definition rate_at :: "int \<Rightarrow> rate_bucket list \<Rightarrow> nat" where
  "rate_at now buckets =
     sum_list (map (\<lambda>b. if now - rb_tick b \<ge> 0 \<and> now - rb_tick b < 10 then unat (rb_count b) else 0) buckets)"

text \<open>
  The snapshot at \<open>ms\<close>: the counters, the two averages as a total and a divisor (\<open>None\<close> is zero), the rate.
\<close>

definition test_snapshot ::
  "int \<Rightarrow> load_tester \<Rightarrow> test_stats \<times> (duration \<times> uint64) option \<times> (duration \<times> uint64) option \<times> nat" where
  "test_snapshot ms t =
     (let s = lt_stats t; n = ts_success s + ts_failed s in
      (s, if n > 0 then Some (lt_total_time t, n) else None,
       if ts_success s > 0 then Some (lt_success_time t, ts_success s) else None,
       rate_at (unix_tick ms) (lt_buckets t)))"

section \<open>The loop of run\<close>

definition max_slots :: nat where "max_slots = 128"

text \<open>The period of the ticker; \<open>NewTicker\<close> panics when it is not positive.\<close>

definition tick_period :: "int \<Rightarrow> int" where
  "tick_period rps = 1000000000 div rps"

definition ctx_done :: "load_tester \<Rightarrow> bool" where
  "ctx_done t \<longleftrightarrow> lt_cancelled t \<or> lt_parent_done t"

text \<open>A tick while the context is alive: a request is started when a slot is free, otherwise it is skipped.\<close>

definition run_tick :: "load_tester \<Rightarrow> load_tester" where
  "run_tick t =
     (let s = lt_stats t in
      if lt_slots t < max_slots
      then t\<lparr>lt_slots := lt_slots t + 1,
             lt_stats := s\<lparr>ts_sent := ts_sent s + 1, ts_in_flight := ts_in_flight s + 1\<rparr>\<rparr>
      else t\<lparr>lt_stats := s\<lparr>ts_skipped := ts_skipped s + 1\<rparr>\<rparr>)"

text \<open>The loop ends with the context; the deferred function waits for the requests, then reports.\<close>

definition run_exit :: "load_tester \<Rightarrow> load_tester" where
  "run_exit t = t\<lparr>lt_loop := False, lt_drain := True\<rparr>"

definition run_finish :: "gotime \<Rightarrow> load_tester \<Rightarrow> load_tester" where
  "run_finish now t =
     t\<lparr>lt_drain := False, lt_cancelled := True,
       lt_stats := (lt_stats t)\<lparr>ts_state := T_Stopped, ts_stopped := now\<rparr>\<rparr>"

section \<open>One request\<close>

text \<open>
  What the client returned: the response (its status, the bytes read of at most one more than a mebibyte, the
  error of reading them) or none, with the status of the proxy's answer to \<open>CONNECT\<close>.
\<close>

record response =
  rs_status :: int
  rs_bytes :: nat
  rs_read_err :: "gerr option"

text \<open>\<open>OnProxyConnectResponse\<close> stores the status of every answer to \<open>CONNECT\<close>; the last one stays.\<close>

definition connect_status :: "int list \<Rightarrow> int" where
  "connect_status statuses = foldl (\<lambda>stored status. status) 0 statuses"

definition request_result :: "gerr option \<Rightarrow> response option \<Rightarrow> int \<Rightarrow> int \<times> gerr option" where
  "request_result err resp connect_code =
     (case resp of
        Some r \<Rightarrow>
          (rs_status r,
           if rs_read_err r \<noteq> None then rs_read_err r
           else if rs_bytes r > 1024 * 1024 then Some (Err_Text ''test response exceeds the 1 MiB limit'') else err)
      | None \<Rightarrow> (if connect_code \<noteq> 200 then connect_code else 0, err))"

text \<open>The bucket of a tick, cleared when it still has the count of an earlier one.\<close>

definition bucket_add :: "int \<Rightarrow> rate_bucket list \<Rightarrow> rate_bucket list" where
  "bucket_add tick bs =
     (let i = nat (tick mod 10);
          b = (if rb_tick (bs ! i) \<noteq> tick then \<lparr>rb_tick = tick, rb_count = 0\<rparr> else bs ! i)
      in bs[i := b\<lparr>rb_count := rb_count b + 1\<rparr>])"

text \<open>\<open>record\<close> at the time \<open>ms\<close>; \<open>text\<close> is \<open>http.StatusText\<close>.\<close>

definition test_record ::
  "(int \<Rightarrow> string) \<Rightarrow> int \<Rightarrow> duration \<Rightarrow> int \<Rightarrow> gerr option \<Rightarrow> bool \<Rightarrow> load_tester \<Rightarrow> load_tester" where
  "test_record text ms elapsed code err canceled t =
     (let s = (lt_stats t)\<lparr>ts_in_flight := ts_in_flight (lt_stats t) - 1\<rparr> in
      if canceled then t\<lparr>lt_stats := s\<lparr>ts_canceled := ts_canceled s + 1\<rparr>\<rparr>
      else
        let s = (if code \<noteq> 0 then s\<lparr>ts_codes := (ts_codes s)(code := ts_codes s code + 1)\<rparr> else s);
            s = (if code = 503 then s\<lparr>ts_unavailable := ts_unavailable s + 1\<rparr> else s);
            good = (err = None \<and> code \<ge> 200 \<and> code < 300);
            s = (if good then s\<lparr>ts_success := ts_success s + 1\<rparr>
                 else s\<lparr>ts_failed := ts_failed s + 1,
                        ts_last_error := (case err of Some e \<Rightarrow> error_text e | None \<Rightarrow> ''HTTP '' @ text code)\<rparr>)
        in t\<lparr>lt_stats := s, lt_total_time := lt_total_time t + elapsed,
             lt_success_time := (if good then lt_success_time t + elapsed else lt_success_time t),
             lt_buckets := bucket_add (unix_tick ms) (lt_buckets t)\<rparr>)"

text \<open>The goroutine of a request: it records its result, then gives its slot back.\<close>

definition request_done ::
  "(int \<Rightarrow> string) \<Rightarrow> int \<Rightarrow> duration \<Rightarrow> gerr option \<Rightarrow> response option \<Rightarrow> int \<Rightarrow> load_tester \<Rightarrow> load_tester" where
  "request_done text ms elapsed err resp connect_code t =
     (case request_result err resp connect_code of
        (code, err) \<Rightarrow>
          (let t' = test_record text ms elapsed code err (ctx_done t) t
           in t'\<lparr>lt_recorded := lt_recorded t' + 1\<rparr>))"

definition request_release :: "load_tester \<Rightarrow> load_tester" where
  "request_release t = t\<lparr>lt_slots := lt_slots t - 1, lt_recorded := lt_recorded t - 1\<rparr>"

section \<open>Interleavings\<close>

text \<open>
  A request is in flight from its start to its record, so there is one to finish when more slots are taken than
  recorded requests hold.
\<close>

inductive test_work :: "load_tester \<Rightarrow> load_tester \<Rightarrow> bool" where
  ts_tick: "lt_loop t \<Longrightarrow> \<not> ctx_done t \<Longrightarrow> test_work t (run_tick t)"
| ts_exit: "lt_loop t \<Longrightarrow> ctx_done t \<Longrightarrow> test_work t (run_exit t)"
| ts_request: "lt_recorded t < lt_slots t \<Longrightarrow>
    test_work t (request_done text ms elapsed err resp connect_code t)"
| ts_release: "0 < lt_recorded t \<Longrightarrow> test_work t (request_release t)"
| ts_finish: "lt_drain t \<Longrightarrow> lt_slots t = 0 \<Longrightarrow> test_work t (run_finish now t)"

inductive_cases test_workE: "test_work t u"

text \<open>The calls of the other goroutines, and the end of the context of the program, come at any time.\<close>

inductive test_step :: "load_tester \<Rightarrow> load_tester \<Rightarrow> bool" where
  ts_start: "test_step t (snd (test_start g now opts t))"
| ts_stop: "test_step t (test_stop t)"
| ts_parent: "test_step t (t\<lparr>lt_parent_done := True\<rparr>)"
| ts_work: "test_work t u \<Longrightarrow> test_step t u"

inductive test_reach :: "config \<Rightarrow> load_tester \<Rightarrow> bool" for cfg where
  tr_new: "test_reach cfg (new_load_tester cfg)"
| tr_step: "test_reach cfg t \<Longrightarrow> test_step t u \<Longrightarrow> test_reach cfg u"

text \<open>\<open>Wait\<close> returns when no run is left: its channel \<open>done\<close> is closed by the deferred function.\<close>

definition test_waited :: "load_tester \<Rightarrow> bool" where
  "test_waited t \<longleftrightarrow> \<not> lt_loop t \<and> \<not> lt_drain t"

end
