(* ===== verification/LoadTestProps.thy ===== *)
theory LoadTestProps
  imports LoadTest
begin

text \<open>
  The load tester: its counters account for every request it sent, its runs never overlap and end once they are
  told to, and the rate it shows is that of the current and the nine previous tenths of a second.
\<close>

section \<open>The invariant\<close>

definition busy :: "load_tester \<Rightarrow> bool" where
  "busy t \<longleftrightarrow> lt_loop t \<or> lt_drain t"

definition test_active :: "load_tester \<Rightarrow> bool" where
  "test_active t \<longleftrightarrow> ts_state (lt_stats t) = T_Running \<or> ts_state (lt_stats t) = T_Stopping"

definition counts_add_up :: "test_stats \<Rightarrow> bool" where
  "counts_add_up s \<longleftrightarrow> ts_sent s = ts_success s + ts_failed s + ts_canceled s + of_int (ts_in_flight s)"

definition test_inv :: "load_tester \<Rightarrow> bool" where
  "test_inv t \<longleftrightarrow>
     counts_add_up (lt_stats t) \<and>
     lt_recorded t \<le> lt_slots t \<and> lt_slots t \<le> max_slots \<and>
     ts_in_flight (lt_stats t) = int (lt_slots t) - int (lt_recorded t) \<and>
     \<not> (lt_loop t \<and> lt_drain t) \<and>
     (busy t \<longleftrightarrow> test_active t) \<and>
     (\<not> busy t \<longrightarrow> lt_slots t = 0) \<and>
     (ts_state (lt_stats t) = T_Stopping \<or> lt_drain t \<longrightarrow> ctx_done t)"

lemmas test_inv_defs = test_inv_def counts_add_up_def busy_def test_active_def ctx_done_def

lemma test_inv_new: "test_inv (new_load_tester cfg)"
  by (simp add: test_inv_defs new_load_tester_def fresh_stats_def split: prod.split)

lemma test_inv_start: "test_inv t \<Longrightarrow> test_inv (snd (test_start g now opts t))"
  by (auto simp: test_inv_defs test_start_def fresh_stats_def)

lemma test_inv_stop: "test_inv t \<Longrightarrow> test_inv (test_stop t)"
  by (auto simp: test_inv_defs test_stop_def)

lemma test_inv_tick: "test_inv t \<Longrightarrow> lt_loop t \<Longrightarrow> test_inv (run_tick t)"
  by (auto simp: test_inv_defs run_tick_def Let_def max_slots_def algebra_simps)

lemma test_record_frame [simp]:
  "lt_slots (test_record text tick elapsed code err canceled t) = lt_slots t"
  "lt_recorded (test_record text tick elapsed code err canceled t) = lt_recorded t"
  "lt_loop (test_record text tick elapsed code err canceled t) = lt_loop t"
  "lt_drain (test_record text tick elapsed code err canceled t) = lt_drain t"
  "lt_cancelled (test_record text tick elapsed code err canceled t) = lt_cancelled t"
  "lt_parent_done (test_record text tick elapsed code err canceled t) = lt_parent_done t"
  "ts_state (lt_stats (test_record text tick elapsed code err canceled t)) = ts_state (lt_stats t)"
  "ts_in_flight (lt_stats (test_record text tick elapsed code err canceled t)) = ts_in_flight (lt_stats t) - 1"
  by (simp_all add: test_record_def Let_def)

lemma test_record_counts:
  "counts_add_up (lt_stats t) \<Longrightarrow> counts_add_up (lt_stats (test_record text tick elapsed code err canceled t))"
  by (simp add: test_record_def counts_add_up_def Let_def)

lemma request_done_eq:
  "\<exists>code err'. request_done text tick elapsed err resp cc t =
     (test_record text tick elapsed code err' (ctx_done t) t)\<lparr>lt_recorded := lt_recorded t + 1\<rparr>"
  by (cases "request_result err resp cc") (auto simp: request_done_def Let_def)

lemma test_inv_request:
  assumes "test_inv t" "lt_recorded t < lt_slots t"
  shows "test_inv (request_done text tick elapsed err resp cc t)"
proof -
  obtain code err' where "request_done text tick elapsed err resp cc t =
     (test_record text tick elapsed code err' (ctx_done t) t)\<lparr>lt_recorded := lt_recorded t + 1\<rparr>"
    using request_done_eq by blast
  moreover have "counts_add_up (lt_stats (test_record text tick elapsed code err' (ctx_done t) t))"
    using assms(1) by (simp add: test_inv_def test_record_counts)
  ultimately show ?thesis
    using assms by (auto simp: test_inv_def busy_def test_active_def ctx_done_def)
qed

lemma test_inv_work: "test_work t u \<Longrightarrow> test_inv t \<Longrightarrow> test_inv u"
  by (induction rule: test_work.induct)
    (auto simp: test_inv_tick test_inv_request,
     auto simp: test_inv_defs run_exit_def run_finish_def request_release_def)

lemma test_inv_step: "test_step t u \<Longrightarrow> test_inv t \<Longrightarrow> test_inv u"
  by (induction rule: test_step.induct)
    (auto simp: test_inv_start test_inv_stop test_inv_work, auto simp: test_inv_defs)

lemma test_reach_inv: "test_reach cfg t \<Longrightarrow> test_inv t"
  by (induction rule: test_reach.induct) (auto simp: test_inv_new test_inv_step)

section \<open>The counters and the runs\<close>

text \<open>
  Claim C17. Whatever the order of the calls, the ticks and the requests: the requests sent are the ones that
  succeeded, failed or were cancelled and the ones in flight, at most 128; a run is going exactly while the state is running or
  stopping, so that \<open>Start\<close>, which refuses these states, never has two of them; without a run nothing is in flight.
\<close>

theorem test_accounts:
  assumes "test_reach cfg t"
  shows "let s = fst (test_snapshot now t) in
      ts_sent s = ts_success s + ts_failed s + ts_canceled s + of_int (ts_in_flight s) \<and>
      0 \<le> ts_in_flight s \<and> ts_in_flight s \<le> 128 \<and>
      (test_waited t \<or> fst (test_start g now' opts t) \<noteq> None) \<and>
      (if test_waited t then ts_state s \<in> {T_Idle, T_Stopped} \<and> ts_in_flight s = 0
       else ts_state s \<in> {T_Running, T_Stopping})"
proof -
  have inv: "test_inv t" by (rule test_reach_inv [OF assms])
  then have "test_waited t \<or> fst (test_start g now' opts t) \<noteq> None"
    by (auto simp: test_inv_defs test_waited_def test_start_def)
  moreover have "ts_state (lt_stats t) \<in> {T_Idle, T_Stopped}" if "test_waited t"
    using inv that by (cases "ts_state (lt_stats t)") (auto simp: test_inv_defs test_waited_def)
  ultimately show ?thesis
    using inv by (auto simp: test_inv_defs test_snapshot_def test_waited_def Let_def max_slots_def)
qed

text \<open>The ticker of an accepted test has a period of at least a millisecond, so creating it does not panic.\<close>

lemma tick_period_positive:
  assumes "test_start g now opts t = (None, t')"
  shows "1000000 \<le> tick_period (opt_rps opts)"
proof -
  have r: "1 \<le> opt_rps opts" "opt_rps opts \<le> 1000" using assms by (auto simp: test_start_def split: if_splits)
  then show ?thesis using zdiv_mono2 [of 1000000000 "opt_rps opts" 1000] by (simp add: tick_period_def)
qed

text \<open>The status counted for a request without a response is the proxy's last refusal of its \<open>CONNECT\<close>.\<close>

lemma connect_refused:
  "request_result (Some e) None (connect_status (statuses @ [code])) = (if code \<noteq> 200 then code else 0, Some e)"
  by (simp add: request_result_def connect_status_def)

text \<open>A tester on the default proxy address, after a start and two ticks.\<close>

definition demo_lt_env :: go_env where
  "demo_lt_env = \<lparr>lib_frac = (\<lambda>_ _ _. 0),
     lib_url = (\<lambda>s. Some \<lparr>url_scheme = ''http'', url_host = ''a'', url_has_user = False, url_fragment = ''''\<rparr>),
     lib_quote = (\<lambda>s. s), lib_wd = Inr ''/'', os_env = Map.empty\<rparr>"

definition demo_lt_config :: config where
  "demo_lt_config = \<lparr>TorCount = 1, UniqueIP = True, MaxUsedIPRetries = 3, DataDir = ''/data'',
     ProxyAddr = '':3128'', WebAddr = '':8080'', IPCheckURL = ''https://api.ipify.org'', ConnectTimeout = 30000000000,
     IdleTimeout = 120000000000, BootstrapTimeout = 300000000000, MaxConnections = 1024\<rparr>"

definition demo_start :: load_tester where
  "demo_start = snd (test_start demo_lt_env Zero_Time \<lparr>opt_url = ''http://a'', opt_rps = 5\<rparr> (new_load_tester demo_lt_config))"

definition demo_flight :: load_tester where
  "demo_flight = run_tick (run_tick demo_start)"

lemma demo_http_url: "http_url demo_lt_env ''http://a''"
  by code_simp

lemma demo_start_running [simp]:
  "lt_loop demo_start" "\<not> lt_cancelled demo_start" "\<not> lt_parent_done demo_start" "lt_slots demo_start = 0"
  "\<not> lt_drain demo_start" "lt_recorded demo_start = 0"
  "lt_stats demo_start = fresh_stats T_Running ''http://a'' 5 Zero_Time"
  "lt_buckets demo_start = no_buckets"
  by (simp_all add: demo_start_def test_start_def demo_http_url new_load_tester_def fresh_stats_def split: prod.split)

lemma demo_flight_reach: "test_reach demo_lt_config demo_flight"
proof -
  have a: "test_reach demo_lt_config demo_start"
    unfolding demo_start_def by (rule tr_step [OF tr_new ts_start])
  have b: "test_reach demo_lt_config (run_tick demo_start)"
    by (rule tr_step [OF a ts_work [OF ts_tick]]) (simp_all add: ctx_done_def)
  show ?thesis
    unfolding demo_flight_def
    by (rule tr_step [OF b ts_work [OF ts_tick]]) (simp_all add: ctx_done_def run_tick_def max_slots_def Let_def)
qed

lemma demo_flight_stats:
  "ts_sent (lt_stats demo_flight) = 2" "ts_in_flight (lt_stats demo_flight) = 2" "\<not> test_waited demo_flight"
  by (simp_all add: demo_flight_def run_tick_def max_slots_def Let_def fresh_stats_def test_waited_def)

theorem test_accounts_witness:
  "fst (test_start demo_lt_env Zero_Time \<lparr>opt_url = ''http://b'', opt_rps = 1\<rparr> demo_flight) \<noteq> None"
  using test_accounts [OF demo_flight_reach, of 0 demo_lt_env Zero_Time "\<lparr>opt_url = ''http://b'', opt_rps = 1\<rparr>"]
    demo_flight_stats(3) by (simp add: Let_def)

section \<open>The end of a run\<close>

lemma run_tick_frame [simp]: "lt_loop (run_tick t) = lt_loop t" "lt_drain (run_tick t) = lt_drain t"
  by (simp_all add: run_tick_def Let_def)

text \<open>What is left to do once the context has ended: the loop to leave, the requests to record and their slots to give back.\<close>

definition test_left :: "load_tester \<Rightarrow> nat" where
  "test_left t = 2 * lt_slots t - lt_recorded t + (if lt_loop t then 2 else 0) + (if lt_drain t then 1 else 0)"

lemma request_done_frame [simp]:
  "lt_slots (request_done text tick elapsed err resp cc t) = lt_slots t"
  "lt_recorded (request_done text tick elapsed err resp cc t) = lt_recorded t + 1"
  "lt_loop (request_done text tick elapsed err resp cc t) = lt_loop t"
  "lt_drain (request_done text tick elapsed err resp cc t) = lt_drain t"
  "ctx_done (request_done text tick elapsed err resp cc t) = ctx_done t"
  by (simp_all add: request_done_def Let_def ctx_done_def split: prod.split)

lemma work_left:
  assumes "test_work t u" "test_inv t" "ctx_done t"
  shows "test_left u < test_left t \<and> ctx_done u"
  using assms
proof (cases rule: test_work.cases)
  case ts_exit then show ?thesis
    using assms by (auto simp: test_left_def run_exit_def test_inv_defs)
next
  case ts_request then show ?thesis
    using assms by (auto simp: test_left_def)
next
  case ts_release then show ?thesis
    using assms by (auto simp: test_left_def request_release_def test_inv_defs)
next
  case ts_finish then show ?thesis
    using assms by (auto simp: test_left_def run_finish_def test_inv_defs)
qed auto

lemma work_stuck:
  assumes "test_inv t" "ctx_done t"
  shows "(\<exists>u. test_work t u) \<longleftrightarrow> \<not> test_waited t"
proof
  assume "\<exists>u. test_work t u"
  then show "\<not> test_waited t"
    using assms by (auto simp: test_waited_def test_inv_defs elim!: test_workE)
next
  assume busy: "\<not> test_waited t"
  show "\<exists>u. test_work t u"
  proof (cases "lt_loop t")
    case True
    then show ?thesis using ts_exit assms(2) by blast
  next
    case False
    then have "lt_drain t" using busy by (simp add: test_waited_def)
    moreover have "lt_recorded t < lt_slots t \<or> 0 < lt_recorded t \<or> lt_slots t = 0" by linarith
    ultimately show ?thesis using ts_request ts_release ts_finish by blast
  qed
qed

lemma work_runs:
  assumes "(test_work ^^ n) t u" "test_inv t" "ctx_done t"
  shows "n + test_left u \<le> test_left t \<and> test_inv u \<and> ctx_done u"
  using assms(1)
proof (induction n arbitrary: u)
  case (Suc n)
  then obtain v where v: "(test_work ^^ n) t v" "test_work v u" by auto
  then have "test_left u < test_left v \<and> ctx_done u" "test_inv u"
    using Suc.IH work_left test_inv_work by blast+
  then show ?case using Suc.IH [OF v(1)] by simp
qed (use assms in auto)

text \<open>
  Claim C29. Once the test is told to stop (\<open>Stop\<close> ends its context), or the program ends, the test does: whatever the requests
  return, the run comes after at most 258 steps to a state from which no step is left, and that is one in which \<open>Wait\<close> returns and
  the test is not active.
\<close>

theorem test_ends:
  assumes "test_reach cfg t" "lt_cancelled t \<or> lt_parent_done t" "(test_work ^^ n) t u"
  shows "n \<le> 258 \<and> ((\<exists>v. test_work u v) \<or> test_waited u \<and> ts_state (lt_stats u) \<in> {T_Idle, T_Stopped}) \<and>
    (\<forall>t0. ts_state (lt_stats t0) = T_Running \<longrightarrow> lt_cancelled (test_stop t0))"
proof -
  have inv: "test_inv t" by (rule test_reach_inv [OF assms(1)])
  have ended: "ctx_done t" using assms(2) by (simp add: ctx_done_def)
  note run = work_runs [OF assms(3) inv ended]
  have "test_left t \<le> 258"
    using inv by (auto simp: test_left_def test_inv_defs max_slots_def)
  moreover have "ts_state (lt_stats u) \<in> {T_Idle, T_Stopped}" if "test_waited u"
    using run that by (cases "ts_state (lt_stats u)") (auto simp: test_inv_defs test_waited_def)
  moreover have "ts_state (lt_stats t0) = T_Running \<longrightarrow> lt_cancelled (test_stop t0)" for t0
    by (simp add: test_stop_def)
  ultimately show ?thesis using run work_stuck [of u] by auto
qed

theorem test_ends_witness:
  "\<exists>v. test_work (run_exit (demo_flight\<lparr>lt_parent_done := True\<rparr>)) v"
proof -
  let ?t = "demo_flight\<lparr>lt_parent_done := True\<rparr>"
  have reach: "test_reach demo_lt_config ?t" by (rule tr_step [OF demo_flight_reach ts_parent])
  have d: "lt_loop ?t" "ctx_done ?t" "lt_cancelled ?t \<or> lt_parent_done ?t"
    by (simp_all add: ctx_done_def demo_flight_def)
  have "(test_work ^^ 1) ?t (run_exit ?t)" using ts_exit [OF d(1,2)] by (simp add: OO_def)
  from test_ends [OF reach d(3) this] show ?thesis by (simp add: test_waited_def run_exit_def)
qed

section \<open>The rate\<close>

text \<open>
  The bucket of a slot belongs to the last tick recorded there, a multiple of ten ticks away from the others of the
  slot, so an older one has left the window.
\<close>

definition bucket_ok :: "int \<Rightarrow> nat \<Rightarrow> rate_bucket \<Rightarrow> bool" where
  "bucket_ok now i b \<longleftrightarrow> b = \<lparr>rb_tick = 0, rb_count = 0\<rparr> \<or> rb_tick b \<le> now \<and> nat (rb_tick b mod 10) = i"

definition buckets_ok :: "int \<Rightarrow> rate_bucket list \<Rightarrow> bool" where
  "buckets_ok now bs \<longleftrightarrow> length bs = 10 \<and> (\<forall>i < 10. bucket_ok now i (bs ! i))"

definition in_window :: "int \<Rightarrow> int \<Rightarrow> bool" where
  "in_window now tick \<longleftrightarrow> now - tick \<ge> 0 \<and> now - tick < 10"

definition bucket_rate :: "int \<Rightarrow> rate_bucket \<Rightarrow> nat" where
  "bucket_rate now b = (if in_window now (rb_tick b) then unat (rb_count b) else 0)"

lemma rate_at_eq: "rate_at now bs = sum_list (map (bucket_rate now) bs)"
  unfolding rate_at_def bucket_rate_def in_window_def by simp

lemma sum_list_map_update:
  fixes f :: "'a \<Rightarrow> nat"
  shows "i < length xs \<Longrightarrow> sum_list (map f (xs[i := x])) + f (xs ! i) = sum_list (map f xs) + f x"
  by (induction xs arbitrary: i) (auto split: nat.splits)

lemma buckets_ok_new: "buckets_ok now no_buckets"
  by (simp add: buckets_ok_def no_buckets_def bucket_ok_def)

lemma tick_slot: "nat (tick mod 10) < 10" for tick :: int
  by simp

lemma buckets_ok_add:
  assumes "buckets_ok old bs" "old \<le> tick"
  shows "buckets_ok tick (bucket_add tick bs)"
  unfolding buckets_ok_def
proof (intro conjI allI impI)
  show "length (bucket_add tick bs) = 10"
    using assms(1) by (simp add: bucket_add_def buckets_ok_def Let_def)
  fix i :: nat assume i: "i < 10"
  then have "bucket_ok old i (bs ! i)" "length bs = 10" using assms(1) by (auto simp: buckets_ok_def)
  then show "bucket_ok tick i (bucket_add tick bs ! i)"
    using i assms(2) tick_slot [of tick]
    by (cases "i = nat (tick mod 10)") (auto simp: bucket_add_def Let_def bucket_ok_def)
qed

lemma same_slot_older: "x \<le> t \<Longrightarrow> x mod 10 = t mod 10 \<Longrightarrow> x \<noteq> t \<Longrightarrow> x \<le> t - 10" for x t :: int
  by presburger

lemma old_bucket:
  assumes "bucket_ok old (nat (tick mod 10)) b" "old \<le> tick" "tick \<le> now" "rb_tick b \<noteq> tick"
  shows "bucket_rate now b = 0"
proof (cases "b = \<lparr>rb_tick = 0, rb_count = 0\<rparr>")
  case False
  then have "rb_tick b \<le> tick" "nat (rb_tick b mod 10) = nat (tick mod 10)"
    using assms by (auto simp: bucket_ok_def)
  moreover from this(2) have "rb_tick b mod 10 = tick mod 10"
    by (metis eq_nat_nat_iff pos_mod_sign zero_less_numeral)
  ultimately have "rb_tick b \<le> tick - 10" using same_slot_older assms(4) by blast
  then show ?thesis using assms(3) by (simp add: bucket_rate_def in_window_def)
qed (simp add: bucket_rate_def)

lemma rate_add:
  assumes ok: "buckets_ok old bs" and le: "old \<le> tick" "tick \<le> now"
    and small: "unat (rb_count (bs ! nat (tick mod 10))) < 2 ^ 64 - 1"
  shows "rate_at now (bucket_add tick bs) = rate_at now bs + (if in_window now tick then 1 else 0)"
proof -
  let ?i = "nat (tick mod 10)"
  have i: "?i < length bs" "bucket_ok old ?i (bs ! ?i)" using ok tick_slot [of tick] by (auto simp: buckets_ok_def)
  define b where "b = (if rb_tick (bs ! ?i) \<noteq> tick then \<lparr>rb_tick = tick, rb_count = 0\<rparr> else bs ! ?i)"
  have inc: "unat (rb_count b + 1) = unat (rb_count b) + 1"
    using small by (simp add: b_def unat_word_ariths)
  have tick: "rb_tick b = tick" by (simp add: b_def)
  have "bucket_rate now (b\<lparr>rb_count := rb_count b + 1\<rparr>) =
      bucket_rate now (bs ! ?i) + (if in_window now tick then 1 else 0)"
    using old_bucket [OF i(2) le] inc tick by (auto simp: b_def bucket_rate_def)
  moreover have "bucket_add tick bs = bs[?i := b\<lparr>rb_count := rb_count b + 1\<rparr>]"
    by (simp add: bucket_add_def b_def Let_def)
  ultimately show ?thesis
    using sum_list_map_update [OF i(1), of "bucket_rate now" "b\<lparr>rb_count := rb_count b + 1\<rparr>"]
    by (simp add: rate_at_eq)
qed

lemma rate_at_mono_counts:
  assumes "length bs = 10" "\<forall>i < 10. unat (rb_count (bs ! i)) \<le> n" "n < 2 ^ 64 - 1" "j < 10"
  shows "unat (rb_count (bucket_add tick bs ! j)) \<le> n + 1"
proof -
  have "unat (rb_count (bs ! j)) \<le> n" using assms by simp
  moreover from this have "unat (rb_count (bs ! j) + 1) \<le> n + 1"
    using assms(3) by (simp add: unat_word_ariths)
  ultimately show ?thesis
    using assms(1,4) tick_slot [of tick] by (cases "j = nat (tick mod 10)") (auto simp: bucket_add_def Let_def)
qed

text \<open>A record of a request: its time in milliseconds, its duration, its status and error, and whether its test was cancelled.\<close>

type_synonym request = "int \<times> duration \<times> int \<times> gerr option \<times> bool"

fun record_request :: "(int \<Rightarrow> string) \<Rightarrow> load_tester \<Rightarrow> request \<Rightarrow> load_tester" where
  "record_request text t (ms, elapsed, code, err, canceled) = test_record text ms elapsed code err canceled t"

fun counted :: "int \<Rightarrow> request \<Rightarrow> bool" where
  "counted now (ms, elapsed, code, err, canceled) \<longleftrightarrow> \<not> canceled \<and> in_window now (unix_tick ms)"

lemma record_buckets:
  "lt_buckets (test_record text ms elapsed code err canceled t) =
     (if canceled then lt_buckets t else bucket_add (unix_tick ms) (lt_buckets t))"
  by (simp add: test_record_def Let_def)

lemma unix_tick_mono: "x \<le> y \<Longrightarrow> unix_tick x \<le> unix_tick y"
  using zdiv_mono1 [of x y 100] zdiv_mono1 [of "- y" "- x" 100]
    pos_imp_zdiv_nonneg_iff [of 100 "- x"] pos_imp_zdiv_nonneg_iff [of 100 y]
  by (auto simp: unix_tick_def)

lemma rate_records:
  assumes "lt_buckets t = no_buckets" "sorted (map fst rs)" "length rs < 2 ^ 64 - 1" "\<forall>r\<in>set rs. unix_tick (fst r) \<le> now"
  shows "buckets_ok now (lt_buckets (foldl (record_request text) t rs)) \<and>
    (\<forall>i < 10. unat (rb_count (lt_buckets (foldl (record_request text) t rs) ! i)) \<le> length rs) \<and>
    rate_at now (lt_buckets (foldl (record_request text) t rs)) = length (filter (counted now) rs)"
  using assms(2-)
proof (induction rs arbitrary: now rule: rev_induct)
  case Nil
  have "rate_at now no_buckets = 0"
    by (simp add: rate_at_eq no_buckets_def bucket_rate_def sum_list_replicate)
  then show ?case using assms(1) buckets_ok_new by (simp add: no_buckets_def)
next
  case (snoc r rs)
  obtain ms elapsed code err canceled where r: "r = (ms, elapsed, code, err, canceled)" by (cases r) auto
  define tick where "tick = unix_tick ms"
  let ?t = "foldl (record_request text) t rs"
  have le: "\<forall>r\<in>set rs. unix_tick (fst r) \<le> tick" "\<forall>r\<in>set rs. unix_tick (fst r) \<le> now" "tick \<le> now"
    and srt: "sorted (map fst rs)"
    using snoc.prems unix_tick_mono by (auto simp: r sorted_append tick_def)
  have short: "length rs < 2 ^ 64 - 1" using snoc.prems(2) by simp
  note IHt = snoc.IH [OF srt short le(1)]
  note IHn = snoc.IH [OF srt short le(2)]
  have len: "length (lt_buckets ?t) = 10" using IHt by (simp add: buckets_ok_def)
  show ?case
  proof (cases canceled)
    case True
    then show ?thesis using IHn by (auto simp: r record_buckets le_Suc_eq)
  next
    case False
    have new: "lt_buckets (foldl (record_request text) t (rs @ [r])) = bucket_add tick (lt_buckets ?t)"
      using False by (simp add: r record_buckets tick_def)
    have "unat (rb_count (lt_buckets ?t ! nat (tick mod 10))) < 2 ^ 64 - 1"
      using IHt tick_slot [of tick] short by (meson le_less_trans)
    then have "rate_at now (bucket_add tick (lt_buckets ?t)) =
        rate_at now (lt_buckets ?t) + (if in_window now tick then 1 else 0)"
      using rate_add IHt le(3) by blast
    moreover have "buckets_ok now (bucket_add tick (lt_buckets ?t))"
    proof -
      have "buckets_ok tick (bucket_add tick (lt_buckets ?t))" using buckets_ok_add IHt by blast
      then show ?thesis using le(3) by (auto simp: buckets_ok_def bucket_ok_def)
    qed
    moreover have "\<forall>i < 10. unat (rb_count (bucket_add tick (lt_buckets ?t) ! i)) \<le> length rs + 1"
      using rate_at_mono_counts [OF len] IHt short by blast
    ultimately show ?thesis unfolding new using IHn False by (simp add: r tick_def)
  qed
qed

text \<open>
  Claim C30. The rate of a snapshot is the number of requests recorded in the current tenth of a second and the nine before
  it, so in the last 900 to 1000 milliseconds: the ten buckets, used over and over and never cleared, forget exactly the requests of
  earlier tenths, and the cancelled requests are not counted, as long as the clock of the program does not go back and is set
  after 1970.
\<close>

theorem rate_window:
  assumes "lt_buckets t = no_buckets" "sorted (map fst rs)" "length rs < 2 ^ 64 - 1" "\<forall>r\<in>set rs. 0 \<le> fst r \<and> fst r \<le> ms"
  shows "snd (snd (snd (test_snapshot ms (foldl (record_request text) t rs)))) =
    length (filter (\<lambda>(at, elapsed, code, err, canceled). \<not> canceled \<and> ms - ms mod 100 - 900 \<le> at) rs)"
proof -
  have pos: "0 \<le> ms" if "rs \<noteq> []"
    using assms(4) that by (cases rs) auto
  have ticks: "\<forall>r\<in>set rs. unix_tick (fst r) \<le> unix_tick ms" using assms(4) unix_tick_mono by blast
  have window: "in_window (unix_tick ms) (unix_tick x) \<longleftrightarrow> ms - ms mod 100 - 900 \<le> x" if "0 \<le> x" "x \<le> ms" for x
  proof -
    have "unix_tick x = x div 100" "unix_tick ms = ms div 100" "x div 100 \<le> ms div 100"
      using that zdiv_mono1 [of x ms 100] by (auto simp: unix_tick_def)
    moreover have "ms - ms mod 100 = 100 * (ms div 100)" by (simp add: minus_mod_eq_mult_div)
    ultimately show ?thesis using that by (auto simp: in_window_def)
  qed
  have "filter (counted (unix_tick ms)) rs =
      filter (\<lambda>(at, elapsed, code, err, canceled). \<not> canceled \<and> ms - ms mod 100 - 900 \<le> at) rs"
    by (rule filter_cong) (use assms(4) window in auto)
  then show ?thesis using rate_records [OF assms(1-3) ticks] by (simp add: test_snapshot_def Let_def)
qed

theorem rate_window_witness:
  "snd (snd (snd (test_snapshot 2550 (foldl (record_request (\<lambda>_. '''')) demo_start
     [(700, 1, 200, None, False), (1599, 1, 200, None, False), (1600, 1, 503, None, False), (1600, 1, 200, None, True),
      (2550, 1, 200, None, False)])))) = 2"
  by (subst rate_window) simp_all

end
