(* ===== verification/Web.thy ===== *)
theory Web
  imports Pool LoadTest
begin

text \<open>
  The handlers of the dashboard, \<open>internal/app/web.go\<close>: the checks of the query of \<open>/api/ips\<close>, the replies of the health
  checks and of the load test's operations, and the live stream of \<open>/api/events\<close> with its bound on viewers. The routes are in
  \<open>WebRoutes\<close>; the JSON encoding of a reply is not modelled, a reply is its value. What decoding the body of a request gives
  is an argument.
\<close>

section \<open>Replies\<close>

datatype 'a answer = Http_Error int string | Json 'a

fun answer_status :: "'a answer \<Rightarrow> int" where
  "answer_status (Http_Error code m) = code"
| "answer_status (Json v) = 200"

text \<open>The headers every reply starts with; the stream of events then sets its own \<open>Cache-Control\<close>.\<close>

definition web_header :: header where
  "web_header = header_set ''X-Content-Type-Options'' ''nosniff'' (header_set ''Cache-Control'' ''no-store'' [])"

definition json_header :: "header \<Rightarrow> header" where
  "json_header h = header_set ''Content-Type'' ''application/json; charset=utf-8'' h"

definition events_header :: "header \<Rightarrow> header" where
  "events_header h =
     header_set ''X-Accel-Buffering'' ''no''
       (header_set ''Cache-Control'' ''no-cache'' (header_set ''Content-Type'' ''text/event-stream'' h))"

section \<open>Health checks and status\<close>

definition healthz :: "gerr option \<Rightarrow> string answer" where
  "healthz ping = (if ping \<noteq> None then Http_Error 503 ''database unavailable'' else Json ''ok'')"

definition readyz :: "pool \<Rightarrow> string answer" where
  "readyz p = (if \<not> pool_ready p then Http_Error 503 ''no eligible verified IP is ready'' else Json ''ready'')"

type_synonym test_view = "test_stats \<times> (duration \<times> uint64) option \<times> (duration \<times> uint64) option \<times> nat"

definition api_status :: "gerr option \<Rightarrow> ip_table \<Rightarrow> pool \<Rightarrow> int \<Rightarrow> load_tester \<Rightarrow> (snapshot \<times> test_view) answer" where
  "api_status err t p ms tester =
     (case pool_snapshot err t p of
        (s, Some e) \<Rightarrow> Http_Error 503 ''database unavailable''
      | (s, None) \<Rightarrow> Json (s, test_snapshot ms tester))"

section \<open>The load test\<close>

definition api_test :: "int \<Rightarrow> load_tester \<Rightarrow> test_view answer" where
  "api_test ms tester = Json (test_snapshot ms tester)"

text \<open>\<open>decoded\<close> is the result of the first \<open>Decode\<close>, \<open>eof\<close> whether the second one meets the end of the body.\<close>

definition api_test_start ::
  "go_env \<Rightarrow> gotime \<Rightarrow> int \<Rightarrow> (gerr + test_options) \<Rightarrow> bool \<Rightarrow> load_tester \<Rightarrow> test_view answer \<times> load_tester" where
  "api_test_start g now ms decoded eof tester =
     (case decoded of
        Inl e \<Rightarrow> (Http_Error 400 ''invalid test options'', tester)
      | Inr options \<Rightarrow>
          if \<not> eof then (Http_Error 400 ''expected one JSON object'', tester)
          else (case test_start g now options tester of
                  (Some e, tester) \<Rightarrow>
                    (Http_Error (if errors_is e Err_TestActive then 409 else 400) (error_text e), tester)
                | (None, tester) \<Rightarrow> (Json (test_snapshot ms tester), tester)))"

definition api_test_stop :: "int \<Rightarrow> load_tester \<Rightarrow> test_view answer \<times> load_tester" where
  "api_test_stop ms tester = (let tester = test_stop tester in (Json (test_snapshot ms tester), tester))"

section \<open>The listing\<close>

type_synonym query = "string \<rightharpoonup> string"

definition query_get :: "query \<Rightarrow> string \<Rightarrow> string" where
  "query_get q key = (case q key of Some v \<Rightarrow> v | None \<Rightarrow> [])"

definition query_int :: "query \<Rightarrow> string \<Rightarrow> int \<Rightarrow> int option" where
  "query_int q key fallback =
     (if q key \<noteq> None
      then (case atoi (query_get q key) of (n, Some e) \<Rightarrow> None | (n, None) \<Rightarrow> Some n)
      else Some fallback)"

definition api_ips :: "list_env \<Rightarrow> query \<Rightarrow> ip_table \<Rightarrow> ip_page answer" where
  "api_ips env q t =
     (case query_int q ''page'' 1 of
        None \<Rightarrow> Http_Error 400 ''invalid page''
      | Some pg \<Rightarrow>
          (case query_int q ''page_size'' 50 of
             None \<Rightarrow> Http_Error 400 ''invalid page_size''
           | Some psize \<Rightarrow>
               if pg < 1 \<or> pg > 100000000 \<or> psize < 1 \<or> psize > 100 \<or> length (query_get q ''search'') > 64
               then Http_Error 400 ''invalid pagination or search''
               else if query_get q ''used'' \<noteq> [] \<and> query_get q ''used'' \<noteq> ''true'' \<and> query_get q ''used'' \<noteq> ''false''
               then Http_Error 400 ''used must be true or false''
               else (case store_list env (query_get q ''search'') (query_get q ''used'') pg psize t of
                       (p, Some e) \<Rightarrow> Http_Error 503 ''database unavailable''
                     | (p, None) \<Rightarrow> Json p)))"

section \<open>Live events\<close>

text \<open>The channel \<open>subscribers\<close> by the number of its elements; \<open>None\<close> is the refusal.\<close>

definition max_viewers :: nat where "max_viewers = 32"

definition subscribe :: "nat \<Rightarrow> nat option" where
  "subscribe taken = (if taken < max_viewers then Some (taken + 1) else None)"

definition unsubscribe :: "nat \<Rightarrow> nat" where
  "unsubscribe taken = taken - 1"

text \<open>What a round of the loop meets: the answers of the database and of the connection, and the states it reads.\<close>

record event_round =
  er_db :: "gerr option"
  er_table :: ip_table
  er_pool :: pool
  er_tester :: load_tester
  er_ms :: int
  er_marshal :: "gerr option"
  er_write :: "gerr option"
  er_flush :: "gerr option"
  er_done :: bool

text \<open>The events a viewer is sent; the last one may have been cut by the error that ends the stream.\<close>

fun events_loop :: "event_round list \<Rightarrow> (snapshot \<times> test_view) list" where
  "events_loop [] = []"
| "events_loop (r # rs) =
     (case pool_snapshot (er_db r) (er_table r) (er_pool r) of
        (s, Some e) \<Rightarrow> []
      | (s, None) \<Rightarrow>
          if er_marshal r \<noteq> None then []
          else (s, test_snapshot (er_ms r) (er_tester r)) #
            (if er_write r \<noteq> None then []
             else if er_flush r \<noteq> None then []
             else if er_done r then [] else events_loop rs))"

definition api_events :: "event_round list \<Rightarrow> nat \<Rightarrow> (snapshot \<times> test_view) list answer \<times> nat" where
  "api_events rounds taken =
     (case subscribe taken of
        None \<Rightarrow> (Http_Error 503 ''too many live viewers'', taken)
      | Some taken \<Rightarrow> (Json (events_loop rounds), taken))"

end
