(* ===== verification/WebProps.thy ===== *)
theory WebProps
  imports Web LoadTestProps
begin

text \<open>
  The dashboard's handlers: which queries the listing answers and with what, and which starts of the load test it accepts.
\<close>

section \<open>The listing\<close>

text \<open>The queries \<open>/api/ips\<close> promises to answer: the numbers in their bounds, a short search, a known filter.\<close>

definition ips_request :: "query \<Rightarrow> (int \<times> int \<times> string) option" where
  "ips_request q =
     do { pg \<leftarrow> query_int q ''page'' 1;
          n \<leftarrow> query_int q ''page_size'' 50;
          let f = query_get q ''used'';
          if page_valid pg n f \<and> length (query_get q ''search'') \<le> 64 then Some (pg, n, f) else None }"

text \<open>
  Claim C34. The listing answers exactly these queries, with the window of the sorted matches that starts at
  \<open>(page - 1) * page_size\<close>, computed without wrap-around, and the number of all matches; every other query is refused
  with status 400 before the database is asked.
\<close>

theorem listing_checked:
  "case ips_request q of
     None \<Rightarrow> answer_status (api_ips env q t) = 400
   | Some (pg, n, f) \<Rightarrow>
       (let rows = sql_select_rows (query_get q ''search'') f t in
        0 \<le> (pg - 1) * n \<and> (pg - 1) * n < 2 ^ 63 \<and>
        api_ips list_ok q t =
          Json \<lparr>page_items = take (nat n) (drop (nat ((pg - 1) * n)) rows), page_total = length rows,
                page_page = pg, page_size = n\<rparr>)"
proof (cases "ips_request q")
  case None
  then show ?thesis
    by (auto simp: ips_request_def api_ips_def page_valid_def Let_def
        split: option.splits if_splits Option.bind_splits)
next
  case (Some r)
  then obtain pg n f where r: "r = (pg, n, f)" "query_int q ''page'' 1 = Some pg" "query_int q ''page_size'' 50 = Some n"
      "f = query_get q ''used''" and ok: "page_valid pg n f" "length (query_get q ''search'') \<le> 64"
    by (auto simp: ips_request_def Let_def Option.bind_eq_Some_conv split: if_splits)
  have b: "0 \<le> pg - 1" "pg - 1 \<le> 100000000" "1 \<le> n" "n \<le> 100" using ok(1) by (auto simp: page_valid_def)
  then have "(pg - 1) * n \<le> 100000000 * 100" by (intro mult_mono) auto
  moreover have "nat (pg - 1) * nat n = nat ((pg - 1) * n)" using b by (simp add: nat_mult_distrib)
  moreover have "api_ips list_ok q t = Json (fst (store_list list_ok (query_get q ''search'') f pg n t))"
    using ok r by (auto simp: api_ips_def page_valid_def store_list_window)
  ultimately show ?thesis
    using b Some r(1) store_list_window [OF ok(1), of "query_get q ''search''" t] by (simp add: Let_def)
qed

section \<open>Starting a load test\<close>

text \<open>
  A load test is started by a single JSON object whose URL and rate are acceptable, while the program
  is not shutting down and no test is going; then the test is running and its counters are zero. A test that is going
  gives status 409, every other fault 400, and a refused request changes nothing.
\<close>

theorem start_replies:
  "case api_test_start g now ms decoded eof t of (reply, t') \<Rightarrow>
     (case decoded of
        Inl e \<Rightarrow> answer_status reply = 400 \<and> t' = t
      | Inr opts \<Rightarrow>
          (if eof \<and> http_url g (opt_url opts) \<and> 1 \<le> opt_rps opts \<and> opt_rps opts \<le> 1000 \<and> \<not> lt_parent_done t
           then (if test_active t then answer_status reply = 409 \<and> t' = t
                 else reply = Json (test_snapshot ms t') \<and> ts_state (lt_stats t') = T_Running \<and>
                   ts_sent (lt_stats t') = 0 \<and> ts_in_flight (lt_stats t') = 0 \<and> \<not> test_waited t')
           else answer_status reply = 400 \<and> t' = t))"
  by (cases decoded)
    (auto simp: api_test_start_def test_start_def test_active_def test_waited_def fresh_stats_def Let_def)

end
