(* ===== verification/WebRoutes.thy ===== *)
theory WebRoutes
  imports WebProps PoolRun
begin

text \<open>
  The dashboard as one handler: the routes \<open>WebHandler\<close> registers, the choice \<open>http.ServeMux\<close> makes among them for a
  clean path, and what a request can change. The mux redirects other paths to the clean one; static files are answered by
  the file server.
\<close>

section \<open>Routes\<close>

datatype web_route = R_Static | R_Healthz | R_Readyz | R_Status | R_Test | R_Start | R_Stop | R_Ips | R_Events

definition web_routes :: "(string \<times> string \<times> web_route) list" where
  "web_routes =
     [(''GET'', ''/'', R_Static), (''GET'', ''/healthz'', R_Healthz), (''GET'', ''/readyz'', R_Readyz),
      (''GET'', ''/api/status'', R_Status), (''GET'', ''/api/test'', R_Test),
      (''POST'', ''/api/test/start'', R_Start), (''POST'', ''/api/test/stop'', R_Stop),
      (''GET'', ''/api/ips'', R_Ips), (''GET'', ''/api/events'', R_Events)]"

text \<open>A pattern for \<open>GET\<close> also takes \<open>HEAD\<close>; one that ends in a slash takes every path below it.\<close>

definition method_matches :: "string \<Rightarrow> string \<Rightarrow> bool" where
  "method_matches m pm \<longleftrightarrow> m = pm \<or> (pm = ''GET'' \<and> m = ''HEAD'')"

definition path_below :: "string \<Rightarrow> string \<Rightarrow> bool" where
  "path_below path pat \<longleftrightarrow> pat \<noteq> [] \<and> last pat = CHR ''/'' \<and> has_prefix path pat"

text \<open>The exact pattern is more specific than the subtree; the methods of the patterns that fit the path otherwise.\<close>

definition web_route :: "string \<Rightarrow> string \<Rightarrow> string list + web_route" where
  "web_route m path =
     (case find (\<lambda>(pm, pat, r). method_matches m pm \<and> path = pat) web_routes of
        Some (pm, pat, r) \<Rightarrow> Inr r
      | None \<Rightarrow>
          (case find (\<lambda>(pm, pat, r). method_matches m pm \<and> path_below path pat) web_routes of
             Some (pm, pat, r) \<Rightarrow> Inr r
           | None \<Rightarrow> Inl (concat (map (\<lambda>(pm, pat, r).
               if path = pat \<or> path_below path pat then (if pm = ''GET'' then [''GET'', ''HEAD''] else [pm]) else [])
               web_routes))))"

section \<open>The handler\<close>

record web_request =
  rq_method :: string
  rq_path :: string
  rq_query :: query
  rq_body :: "gerr + test_options"
  rq_eof :: bool

record web_env =
  we_go :: go_env
  we_now :: gotime
  we_ms :: int
  we_ping :: "gerr option"
  we_counts :: "gerr option"
  we_list :: list_env
  we_rounds :: "event_round list"

record web_state =
  ws_table :: ip_table
  ws_pool :: pool
  ws_tester :: load_tester
  ws_viewers :: nat

datatype web_reply =
    W_Static string
  | W_Text "string answer"
  | W_Status "(snapshot \<times> test_view) answer"
  | W_Test "test_view answer"
  | W_Page "ip_page answer"
  | W_Events "(snapshot \<times> test_view) list answer"
  | W_Not_Allowed "string list"

definition web_handle :: "web_env \<Rightarrow> web_request \<Rightarrow> web_state \<Rightarrow> web_reply \<times> web_state" where
  "web_handle env rq ws =
     (case web_route (rq_method rq) (rq_path rq) of
        Inl methods \<Rightarrow> (W_Not_Allowed methods, ws)
      | Inr R_Static \<Rightarrow> (W_Static (rq_path rq), ws)
      | Inr R_Healthz \<Rightarrow> (W_Text (healthz (we_ping env)), ws)
      | Inr R_Readyz \<Rightarrow> (W_Text (readyz (ws_pool ws)), ws)
      | Inr R_Status \<Rightarrow> (W_Status (api_status (we_counts env) (ws_table ws) (ws_pool ws) (we_ms env) (ws_tester ws)), ws)
      | Inr R_Test \<Rightarrow> (W_Test (api_test (we_ms env) (ws_tester ws)), ws)
      | Inr R_Start \<Rightarrow>
          (case api_test_start (we_go env) (we_now env) (we_ms env) (rq_body rq) (rq_eof rq) (ws_tester ws) of
             (a, t) \<Rightarrow> (W_Test a, ws\<lparr>ws_tester := t\<rparr>))
      | Inr R_Stop \<Rightarrow> (case api_test_stop (we_ms env) (ws_tester ws) of (a, t) \<Rightarrow> (W_Test a, ws\<lparr>ws_tester := t\<rparr>))
      | Inr R_Ips \<Rightarrow> (W_Page (api_ips (we_list env) (rq_query rq) (ws_table ws)), ws)
      | Inr R_Events \<Rightarrow> (case api_events (we_rounds env) (ws_viewers ws) of (a, n) \<Rightarrow> (W_Events a, ws\<lparr>ws_viewers := n\<rparr>)))"

text \<open>A viewer leaves when its stream ends.\<close>

definition web_leave :: "web_state \<Rightarrow> web_state" where
  "web_leave ws = ws\<lparr>ws_viewers := unsubscribe (ws_viewers ws)\<rparr>"

section \<open>What a request can change\<close>

lemma route_post:
  assumes "web_route m path = Inr r" and "r \<in> {R_Start, R_Stop}"
  shows "m = ''POST'' \<and> path = (if r = R_Start then ''/api/test/start'' else ''/api/test/stop'')"
  using assms
  by (auto simp: web_route_def web_routes_def method_matches_def path_below_def split: if_splits)

lemma route_get:
  assumes "web_route m path = Inr r" and "r \<notin> {R_Start, R_Stop}"
  shows "m \<in> {''GET'', ''HEAD''}"
  using assms
  by (auto simp: web_route_def web_routes_def method_matches_def path_below_def split: if_splits)

lemma route_events: "web_route m path = Inr R_Events \<Longrightarrow> path = ''/api/events''"
  by (auto simp: web_route_def web_routes_def method_matches_def path_below_def split: if_splits)

lemma api_start_keeps:
  assumes "api_test_start g now ms decoded eof t = (a, t')" and "t' \<noteq> t"
  shows "\<exists>opts. decoded = Inr opts \<and> eof \<and> test_start g now opts t = (None, t') \<and> a = Json (test_snapshot ms t')"
  using assms
  by (auto simp: api_test_start_def test_start_def Let_def split: sum.splits if_splits)

lemma test_stop_keeps: "ts_state (lt_stats t) \<noteq> T_Running \<Longrightarrow> test_stop t = t"
  by (simp add: test_stop_def)

lemma route_covers_get: "m \<in> {''GET'', ''HEAD''} \<Longrightarrow> hd path = CHR ''/'' \<Longrightarrow> path \<noteq> [] \<Longrightarrow> \<exists>r. web_route m path = Inr r"
  by (cases path)
    (auto simp: web_route_def web_routes_def method_matches_def path_below_def has_prefix_def split: if_splits)

text \<open>
  Claim C31. The dashboard only watches: no request changes the pool or the address history, and only two
  requests reach the load test, a POST to the start path whose body is one acceptable object while no test is going, and
  a POST to the stop path while one is running; a GET, which any page can make a browser send, changes nothing but the
  number of viewers of the event stream, and that never exceeds its bound. Every GET of a path gets an answer, and a
  method no route takes is refused without an effect.
\<close>

theorem dashboard_guarded:
  assumes "web_handle env rq ws = (reply, ws')"
  shows "ws_pool ws' = ws_pool ws \<and> ws_table ws' = ws_table ws \<and>
    (ws_tester ws' \<noteq> ws_tester ws \<longrightarrow> rq_method rq = ''POST'' \<and>
       (rq_path rq = ''/api/test/start'' \<and> rq_eof rq \<and> \<not> test_active (ws_tester ws) \<and>
          (\<exists>opts. rq_body rq = Inr opts \<and> test_start (we_go env) (we_now env) opts (ws_tester ws) = (None, ws_tester ws')) \<or>
        rq_path rq = ''/api/test/stop'' \<and> ts_state (lt_stats (ws_tester ws)) = T_Running \<and>
          ws_tester ws' = test_stop (ws_tester ws))) \<and>
    (ws_viewers ws' \<noteq> ws_viewers ws \<longrightarrow> rq_path rq = ''/api/events'' \<and> rq_method rq \<in> {''GET'', ''HEAD''} \<and>
       ws_viewers ws' = ws_viewers ws + 1 \<and> ws_viewers ws' \<le> max_viewers) \<and>
    (\<forall>methods. reply = W_Not_Allowed methods \<longrightarrow> ws' = ws \<and> \<not> (rq_method rq \<in> {''GET'', ''HEAD''} \<and> has_prefix (rq_path rq) ''/''))"
proof (cases "web_route (rq_method rq) (rq_path rq)")
  case (Inl methods)
  have "\<not> (rq_method rq \<in> {''GET'', ''HEAD''} \<and> has_prefix (rq_path rq) ''/'')"
  proof
    assume get: "rq_method rq \<in> {''GET'', ''HEAD''} \<and> has_prefix (rq_path rq) ''/''"
    then have "hd (rq_path rq) = CHR ''/''" "rq_path rq \<noteq> []" by (cases "rq_path rq"; simp add: has_prefix_def)+
    with get Inl show False using route_covers_get by fastforce
  qed
  with Inl assms show ?thesis by (auto simp: web_handle_def)
next
  case (Inr r)
  show ?thesis
  proof (cases r)
    case R_Start
    obtain a t where a: "api_test_start (we_go env) (we_now env) (we_ms env) (rq_body rq) (rq_eof rq) (ws_tester ws) = (a, t)"
      by (metis surj_pair)
    have s: "reply = W_Test a" "ws' = ws\<lparr>ws_tester := t\<rparr>" using assms Inr R_Start a by (simp_all add: web_handle_def)
    have post: "rq_method rq = ''POST''" "rq_path rq = ''/api/test/start''" using route_post [OF Inr] R_Start by simp_all
    have "rq_eof rq \<and> \<not> test_active (ws_tester ws) \<and>
        (\<exists>opts. rq_body rq = Inr opts \<and> test_start (we_go env) (we_now env) opts (ws_tester ws) = (None, t))"
      if ne: "t \<noteq> ws_tester ws"
    proof -
      obtain opts where o: "rq_body rq = Inr opts" "rq_eof rq"
        "test_start (we_go env) (we_now env) opts (ws_tester ws) = (None, t)"
        using api_start_keeps [OF a ne] by blast
      then have "\<not> test_active (ws_tester ws)" by (auto simp: test_start_def test_active_def split: if_splits)
      with o show ?thesis by blast
    qed
    with s post show ?thesis by auto
  next
    case R_Stop
    have s: "ws' = ws\<lparr>ws_tester := test_stop (ws_tester ws)\<rparr>" "\<exists>a. reply = W_Test a"
      using assms Inr R_Stop by (auto simp: web_handle_def api_test_stop_def Let_def)
    have post: "rq_method rq = ''POST''" "rq_path rq = ''/api/test/stop''" using route_post [OF Inr] R_Stop by simp_all
    show ?thesis using s post test_stop_keeps [of "ws_tester ws"] by auto
  next
    case R_Events
    have get: "rq_method rq \<in> {''GET'', ''HEAD''}" "rq_path rq = ''/api/events''"
      using route_get [OF Inr] R_Events route_events Inr by auto
    with assms Inr R_Events show ?thesis
      by (auto simp: web_handle_def api_events_def subscribe_def split: if_splits)
  qed (use assms Inr in \<open>auto simp: web_handle_def\<close>)
qed

definition web_demo :: "string \<Rightarrow> string \<Rightarrow> web_request" where
  "web_demo m path = \<lparr>rq_method = m, rq_path = path, rq_query = Map.empty,
     rq_body = Inr \<lparr>opt_url = ''http://example.com'', opt_rps = 1\<rparr>, rq_eof = True\<rparr>"

definition web_demo_env :: web_env where
  "web_demo_env = \<lparr>we_go = demo_lt_env, we_now = At 0, we_ms = 0, we_ping = None, we_counts = None, we_list = list_ok,
     we_rounds = []\<rparr>"

definition web_demo_state :: web_state where
  "web_demo_state = \<lparr>ws_table = [], ws_pool = new_pool (demo_cfg True) [] (At 0),
     ws_tester = new_load_tester demo_lt_config, ws_viewers = 31\<rparr>"

text \<open>A POST starts the test, the same with GET does not, and the last place of a viewer is taken.\<close>

theorem dashboard_guarded_witness:
  "ts_state (lt_stats (ws_tester (snd (web_handle web_demo_env (web_demo ''POST'' ''/api/test/start'') web_demo_state)))) = T_Running \<and>
   ws_tester (snd (web_handle web_demo_env (web_demo ''GET'' ''/api/test/start'') web_demo_state)) = ws_tester web_demo_state \<and>
   ws_viewers (snd (web_handle web_demo_env (web_demo ''GET'' ''/api/events'') web_demo_state)) = 32 \<and>
   ws_pool (snd (web_handle web_demo_env (web_demo ''GET'' ''/api/events'') web_demo_state)) = ws_pool web_demo_state"
proof -
  have "ts_state (lt_stats (ws_tester (snd (web_handle web_demo_env (web_demo ''POST'' ''/api/test/start'') web_demo_state)))) = T_Running"
    and "ws_viewers (snd (web_handle web_demo_env (web_demo ''GET'' ''/api/events'') web_demo_state)) = 32"
    by code_simp+
  moreover have "rq_method (web_demo m path) = m" for m path by (simp add: web_demo_def)
  moreover note guarded = dashboard_guarded [OF prod.collapse [symmetric]]
  have "ws_pool (snd (web_handle web_demo_env (web_demo ''GET'' ''/api/events'') web_demo_state)) = ws_pool web_demo_state"
    using guarded [of web_demo_env "web_demo ''GET'' ''/api/events''" web_demo_state] by blast
  moreover have "ws_tester (snd (web_handle web_demo_env (web_demo ''GET'' ''/api/test/start'') web_demo_state)) = ws_tester web_demo_state"
    using guarded [of web_demo_env "web_demo ''GET'' ''/api/test/start''" web_demo_state] by (auto simp: web_demo_def)
  ultimately show ?thesis by simp
qed

end
