(* ===== verification/Run.thy ===== *)
theory Run
  imports Web Worker Conn
begin

text \<open>
  \<open>internal/app/run.go\<close> and \<open>cmd/torproxy/main.go\<close>: the program from its configuration to its exit status. \<open>Run\<close> is
  a trace of the resources it acquires and releases, of the parts it starts and of the ones it waits for; what the
  operating system answers is an argument.
\<close>

section \<open>Resources and parts\<close>

datatype resource =
    Lock_File string
  | File_Lock
  | Database string
  | Runtime_Dir string
  | Proxy_Socket string
  | Web_Socket string

text \<open>A server of \<open>net/http\<close> with its bounded listener.\<close>

record server =
  srv_sockets :: listener
  srv_read_header_timeout :: duration
  srv_idle_timeout :: duration
  srv_max_header_bytes :: nat

text \<open>What runs between the start of the program and its end.\<close>

record parts =
  pt_pool :: pool
  pt_tester :: load_tester
  pt_proxy :: server
  pt_web :: server
  pt_workers :: "(nat \<times> worker_act list) list"

datatype run_act =
    R_Make_Data string
  | R_Acquire resource
  | R_Release resource
  | R_Start parts              \<comment> \<open>the workers and the two servers\<close>
  | R_Cancel
  | R_Close_Proxy_Server
  | R_Close_Web_Server
  | R_Close_Proxy_Conns
  | R_Close_Web_Conns
  | R_Wait_Workers
  | R_Wait_Tester

text \<open>How the wait of \<open>Run\<close> ends: with its context, or with the error of a server.\<close>

datatype run_end = Ended_Context | Ended_Server gerr

record app_env =
  ae_mkdir :: "gerr option"
  ae_lock_file :: "gerr option"
  ae_flock :: "gerr option"
  ae_sql_open :: "gerr option"
  ae_schema :: "gerr option"
  ae_existing :: "ip_table option"
  ae_temp :: "gerr + string"
  ae_listen_proxy :: "gerr option"
  ae_listen_web :: "gerr option"
  ae_now :: gotime
  ae_quote :: "string \<Rightarrow> string"
  ae_workers :: "nat \<Rightarrow> nat \<times> bool \<times> life_env list"
  ae_end :: run_end

section \<open>Run\<close>

text \<open>A deferred call comes after the rest of the function; a fallible call that succeeds comes before it.\<close>

definition deferred :: "run_act \<Rightarrow> run_act list \<times> gerr option \<Rightarrow> run_act list \<times> gerr option" where
  "deferred act rest = (fst rest @ [act], snd rest)"

definition attempt_act ::
  "gerr option \<Rightarrow> (gerr \<Rightarrow> gerr) \<Rightarrow> run_act \<Rightarrow> run_act list \<times> gerr option \<Rightarrow> run_act list \<times> gerr option" where
  "attempt_act err wrap act rest =
     (case err of Some e \<Rightarrow> ([], Some (wrap e)) | None \<Rightarrow> (act # fst rest, snd rest))"

text \<open>A fallible call whose resource a deferred call releases.\<close>

definition hold ::
  "gerr option \<Rightarrow> (gerr \<Rightarrow> gerr) \<Rightarrow> resource \<Rightarrow> run_act list \<times> gerr option \<Rightarrow> run_act list \<times> gerr option" where
  "hold err wrap r rest = attempt_act err wrap (R_Acquire r) (deferred (R_Release r) rest)"

definition wrapf :: "string \<Rightarrow> gerr \<Rightarrow> gerr" where
  "wrapf m e = Err_Wrap (m @ error_text e) e"

definition second :: duration where "second = 1000000000"

definition make_parts :: "app_env \<Rightarrow> config \<Rightarrow> string \<Rightarrow> ip_table \<Rightarrow> parts" where
  "make_parts e cfg runtime_dir t =
     \<lparr>pt_pool = new_pool cfg t (ae_now e), pt_tester = new_load_tester cfg,
      pt_proxy = \<lparr>srv_sockets = new_bounded_listener (MaxConnections cfg) (IdleTimeout cfg),
        srv_read_header_timeout = 15 * second, srv_idle_timeout = IdleTimeout cfg, srv_max_header_bytes = 64 * 1024\<rparr>,
      pt_web = \<lparr>srv_sockets = new_bounded_listener 128 (IdleTimeout cfg),
        srv_read_header_timeout = 10 * second, srv_idle_timeout = IdleTimeout cfg, srv_max_header_bytes = 16 * 1024\<rparr>,
      pt_workers = run_workers (ae_quote e) cfg runtime_dir (ae_workers e)\<rparr>"

text \<open>
  The end of \<open>Run\<close>. \<open>http.Server.Close\<close> closes the listener of a server and the connections it owns, \<open>closeConnections\<close>
  closes the hijacked ones; neither waits for handlers that are running. \<open>R_Wait_Workers\<close> and \<open>R_Wait_Tester\<close> are
  the two waits.
\<close>

definition serve :: "app_env \<Rightarrow> config \<Rightarrow> string \<Rightarrow> ip_table \<Rightarrow> run_act list \<times> gerr option" where
  "serve e cfg runtime_dir t =
     ([R_Start (make_parts e cfg runtime_dir t), R_Cancel, R_Close_Proxy_Server, R_Close_Web_Server,
       R_Close_Proxy_Conns, R_Close_Web_Conns, R_Wait_Workers, R_Wait_Tester],
      (case ae_end e of
         Ended_Context \<Rightarrow> None
       | Ended_Server err \<Rightarrow> if errors_is err Err_ServerClosed then None else Some err))"

text \<open>The part of \<open>Run\<close> after the store is open.\<close>

definition run_open :: "app_env \<Rightarrow> config \<Rightarrow> ip_table \<Rightarrow> run_act list \<times> gerr option" where
  "run_open e cfg t =
     (case ae_temp e of
        Inl err \<Rightarrow> ([], Some err)
      | Inr runtime_dir \<Rightarrow>
          hold None id (Runtime_Dir runtime_dir)
            (hold (ae_listen_proxy e) id (Proxy_Socket (ProxyAddr cfg))
              (hold (ae_listen_web e) id (Web_Socket (WebAddr cfg))
                (serve e cfg runtime_dir t))))"

definition app_run :: "app_env \<Rightarrow> config \<Rightarrow> run_act list \<times> gerr option" where
  "app_run e cfg =
     deferred R_Cancel
       (attempt_act (ae_mkdir e) id (R_Make_Data (DataDir cfg))
         (hold (ae_lock_file e) id (Lock_File (path_join [DataDir cfg, ''app.lock'']))
           (hold (ae_flock e) (wrapf ''data directory is already used by another application: '') File_Lock
             (case open_store (ae_sql_open e) (ae_schema e) (ae_existing e) of
                Inl err \<Rightarrow> ([], Some (wrapf ''open SQLite: '' err))
              | Inr t \<Rightarrow> hold None id (Database (path_join [DataDir cfg, ''ips.db''])) (run_open e cfg t)))))"

section \<open>Healthcheck and main\<close>

text \<open>\<open>get\<close> is the answer of the HTTP client: an error, or the status code and the status line.\<close>

definition healthcheck :: "(string \<Rightarrow> gerr + int \<times> string) \<Rightarrow> string \<Rightarrow> gerr option" where
  "healthcheck get address =
     (case split_host_port address of
        Inl err \<Rightarrow> Some (Err_Text err)
      | Inr (host, port) \<Rightarrow>
          (case get (''http://'' @ join_host_port (loopback_host host) port @ ''/healthz'') of
             Inl err \<Rightarrow> Some err
           | Inr (code, status) \<Rightarrow>
               if code \<noteq> 200 then Some (Err_Text (''healthcheck returned '' @ status)) else None))"

definition debug_level :: "go_env \<Rightarrow> bool" where
  "debug_level g \<longleftrightarrow> lookup_env g ''LOG_LEVEL'' '''' = ''debug''"

text \<open>The trace of \<open>Run\<close> and the exit status; \<open>args\<close> is \<open>os.Args\<close>.\<close>

definition main :: "go_env \<Rightarrow> string list \<Rightarrow> (string \<Rightarrow> gerr + int \<times> string) \<Rightarrow> app_env \<Rightarrow> run_act list \<times> nat" where
  "main g args get e =
     (case load_config g of
        Inl err \<Rightarrow> ([], 1)
      | Inr cfg \<Rightarrow>
          if length args > 1
          then (if length args = 2 \<and> args ! 1 = ''healthcheck''
                then (if healthcheck get (WebAddr cfg) \<noteq> None then ([], 1) else ([], 0))
                else ([], 2))
          else (case app_run e cfg of (acts, err) \<Rightarrow> (acts, if err \<noteq> None then 1 else 0)))"

end
