(* ===== verification/RunProps.thy ===== *)
theory RunProps
  imports Run ConfigProps
begin

text \<open>
  The life of the program: whatever fails, what was acquired is released in the reverse order, under the lock of the
  data directory, after the workers and the load tester have ended and every client socket was closed. Handlers
  of requests are not waited for.
\<close>

section \<open>Orderly traces\<close>

text \<open>
  What is under way: the goroutines \<open>Run\<close> waits for (the workers and the load tester), the sockets that are open
  (the two listeners, and the connections they accepted), and the goroutines of request handlers. No action of \<open>Run\<close> ends the last:
  a handler whose connection was closed ends by itself, sooner or later.
\<close>

datatype part = Part_Workers | Part_Tester | Proxy_Listening | Web_Listening | Proxy_Conns | Web_Conns | Handlers

definition all_parts :: "part list" where
  "all_parts = [Part_Workers, Part_Tester, Proxy_Listening, Web_Listening, Proxy_Conns, Web_Conns, Handlers]"

definition only_handlers :: "part list \<Rightarrow> bool" where
  "only_handlers live \<longleftrightarrow> set live \<subseteq> {Handlers}"

fun opens :: "resource list \<Rightarrow> resource \<Rightarrow> bool" where
  "opens held (Database path) \<longleftrightarrow> File_Lock \<in> set held"
| "opens held r \<longleftrightarrow> True"

text \<open>
  A trace is orderly when a resource is acquired before anything is started, the database only under the lock, and released
  as the latest one held, when nothing but handlers may be left; the parts start with everything they use at hand; the
  connections of a server are closed after it accepts no more; the workers and the
  tester are waited for after the context was cancelled; and at the end nothing is held.
\<close>

fun orderly :: "resource list \<Rightarrow> part list \<Rightarrow> bool \<Rightarrow> run_act list \<Rightarrow> bool" where
  "orderly held live cancelled [] \<longleftrightarrow> held = [] \<and> only_handlers live \<and> cancelled"
| "orderly held live cancelled (act # acts) =
     (case act of
        R_Make_Data d \<Rightarrow> held = [] \<and> live = [] \<and> orderly held live cancelled acts
      | R_Acquire r \<Rightarrow> live = [] \<and> r \<notin> set held \<and> opens held r \<and> orderly (r # held) live cancelled acts
      | R_Release r \<Rightarrow> only_handlers live \<and> held \<noteq> [] \<and> hd held = r \<and> orderly (tl held) live cancelled acts
      | R_Start ps \<Rightarrow> live = [] \<and> \<not> cancelled \<and> length held = 6 \<and> orderly held all_parts cancelled acts
      | R_Cancel \<Rightarrow> orderly held live True acts
      | R_Close_Proxy_Server \<Rightarrow> orderly held (removeAll Proxy_Listening live) cancelled acts
      | R_Close_Web_Server \<Rightarrow> orderly held (removeAll Web_Listening live) cancelled acts
      | R_Close_Proxy_Conns \<Rightarrow>
          Proxy_Listening \<notin> set live \<and> orderly held (removeAll Proxy_Conns live) cancelled acts
      | R_Close_Web_Conns \<Rightarrow> Web_Listening \<notin> set live \<and> orderly held (removeAll Web_Conns live) cancelled acts
      | R_Wait_Workers \<Rightarrow> cancelled \<and> orderly held (removeAll Part_Workers live) cancelled acts
      | R_Wait_Tester \<Rightarrow> cancelled \<and> orderly held (removeAll Part_Tester live) cancelled acts)"

text \<open>The program fails when a step of its start does, or a server for another reason than that it was closed.\<close>

definition run_fails :: "app_env \<Rightarrow> bool" where
  "run_fails e \<longleftrightarrow> ae_mkdir e \<noteq> None \<or> ae_lock_file e \<noteq> None \<or> ae_flock e \<noteq> None \<or> ae_sql_open e \<noteq> None \<or>
     ae_schema e \<noteq> None \<or> isl (ae_temp e) \<or> ae_listen_proxy e \<noteq> None \<or> ae_listen_web e \<noteq> None \<or>
     (\<exists>err. ae_end e = Ended_Server err \<and> \<not> errors_is err Err_ServerClosed)"

lemmas run_defs = app_run_def deferred_def attempt_act_def hold_def run_open_def serve_def open_store_def

lemma run_error: "snd (app_run e cfg) \<noteq> None \<longleftrightarrow> run_fails e"
  by (cases "ae_mkdir e"; cases "ae_lock_file e"; cases "ae_flock e"; cases "ae_sql_open e"; cases "ae_schema e";
      cases "ae_temp e"; cases "ae_listen_proxy e"; cases "ae_listen_web e"; cases "ae_end e")
    (simp_all add: run_defs run_fails_def)

lemma run_orderly_trace: "orderly [] [] False (fst (app_run e cfg))"
  by (cases "ae_mkdir e"; cases "ae_lock_file e"; cases "ae_flock e"; cases "ae_sql_open e"; cases "ae_schema e";
      cases "ae_temp e"; cases "ae_listen_proxy e"; cases "ae_listen_web e")
    (simp_all add: run_defs all_parts_def only_handlers_def)

text \<open>
  Claim C22. However far the start of the program comes and however it ends, its trace is orderly: resources are released
  in the reverse order, the database is only open under the lock, and nothing is released before the workers and the load
  tester have ended, both servers were closed and so was every accepted connection. Handlers of
  requests that are still running are not waited for: they may find the database closed. And \<open>Run\<close> returns an
  error exactly when something failed.
\<close>

theorem run_orderly:
  "orderly [] [] False (fst (app_run e cfg)) \<and> (snd (app_run e cfg) \<noteq> None \<longleftrightarrow> run_fails e)"
  using run_orderly_trace run_error by blast

text \<open>
  The program exits with status 1 without touching anything when the environment is not in order; with
  status 2 for arguments it does not know; the health check starts nothing and asks the dashboard on this machine.
\<close>

theorem main_exit:
  "main g args get e =
     (if \<not> env_ok g then ([], 1)
      else if length args \<le> 1
      then (fst (app_run e (projr (load_config g))), if run_fails e then 1 else 0)
      else if args \<noteq> [hd args, ''healthcheck''] then ([], 2)
      else ([], if healthcheck get (WebAddr (projr (load_config g))) = None then 0 else 1))"
proof -
  have "env_ok g \<longleftrightarrow> (\<exists>c. load_config g = Inr c)" using config_ok_iff by blast
  moreover have "args = [hd args, ''healthcheck''] \<longleftrightarrow> length args = 2 \<and> args ! 1 = ''healthcheck''"
    by (cases args rule: remdups_adj.cases) (auto simp: length_Suc_conv)
  ultimately show ?thesis
    using run_error [of e "projr (load_config g)"]
    by (cases "load_config g") (auto simp: main_def split: prod.split)
qed

end
