(* ===== verification/Broker.thy ===== *)
theory Broker
  imports PoolProps
begin

text \<open>
  What the pool is for, without slots, endpoints, contexts and locks: a broker that knows addresses, marks the ones it
  has used up, lets each instance offer one address, and gives offered addresses away. The pool refines the broker:
  every operation of the pool is one event of the broker.
\<close>

section \<open>The broker\<close>

record broker =
  br_unique :: bool
  br_status :: "string \<rightharpoonup> bool"          \<comment> \<open>the known addresses, and whether they were used\<close>
  br_offer :: "string option list"       \<comment> \<open>what each instance offers\<close>
  br_given :: "(nat \<times> string) list"      \<comment> \<open>the assignments so far: instance and address\<close>

datatype broker_event =
    Br_Skip
  | Br_Learn string
  | Br_Offer nat string
  | Br_Take nat
  | Br_Spend string        \<comment> \<open>used up without an assignment\<close>
  | Br_Give nat string

definition learnt :: "string \<Rightarrow> (string \<rightharpoonup> bool) \<Rightarrow> (string \<rightharpoonup> bool)" where
  "learnt ip m = m(ip \<mapsto> (case m ip of None \<Rightarrow> False | Some u \<Rightarrow> u))"

definition br_slot :: "broker \<Rightarrow> nat \<Rightarrow> bool" where
  "br_slot b i \<longleftrightarrow> 1 \<le> i \<and> i \<le> length (br_offer b)"

fun broker_step :: "broker_event \<Rightarrow> broker \<Rightarrow> broker option" where
  "broker_step Br_Skip b = Some b"
| "broker_step (Br_Learn ip) b = Some (b\<lparr>br_status := learnt ip (br_status b)\<rparr>)"
| "broker_step (Br_Offer i ip) b =
     (if br_slot b i \<and> \<not> (br_unique b \<and> (br_status b ip = Some True \<or> Some ip \<in> set (br_offer b)))
      then Some (b\<lparr>br_status := learnt ip (br_status b), br_offer := (br_offer b)[i - 1 := Some ip]\<rparr>) else None)"
| "broker_step (Br_Take i) b =
     (if br_slot b i then Some (b\<lparr>br_offer := (br_offer b)[i - 1 := None]\<rparr>) else None)"
| "broker_step (Br_Spend ip) b =
     (if br_status b ip \<noteq> None then Some (b\<lparr>br_status := (br_status b)(ip \<mapsto> True)\<rparr>) else None)"
| "broker_step (Br_Give i ip) b =
     (if br_slot b i \<and> br_offer b ! (i - 1) = Some ip \<and> br_status b ip \<noteq> None \<and>
         \<not> (br_unique b \<and> br_status b ip = Some True)
      then Some (b\<lparr>br_status := (br_status b)(ip \<mapsto> True), br_given := br_given b @ [(i, ip)]\<rparr>) else None)"

fun broker_run :: "broker_event list \<Rightarrow> broker \<Rightarrow> broker option" where
  "broker_run [] b = Some b"
| "broker_run (ev # evs) b = Option.bind (broker_step ev b) (broker_run evs)"

text \<open>The promise of the broker: in unique mode nothing is given twice, and nothing that was used before.\<close>

definition one_holder :: "string option list \<Rightarrow> bool" where
  "one_holder os \<longleftrightarrow> (\<forall>i j ip. i < length os \<longrightarrow> j < length os \<longrightarrow> os ! i = Some ip \<longrightarrow> os ! j = Some ip \<longrightarrow> i = j)"

definition given_ips :: "broker \<Rightarrow> string list" where
  "given_ips b = map snd (br_given b)"

definition broker_ok :: "(string \<rightharpoonup> bool) \<Rightarrow> broker \<Rightarrow> bool" where
  "broker_ok m b \<longleftrightarrow>
     (\<forall>x. m x = Some True \<longrightarrow> br_status b x = Some True) \<and>
     (br_unique b \<longrightarrow> distinct (given_ips b) \<and>
        (\<forall>x. x \<in> set (given_ips b) \<longrightarrow> m x \<noteq> Some True \<and> br_status b x = Some True) \<and>
        one_holder (br_offer b))"

lemma given_ips_frame [simp]:
  "given_ips (b\<lparr>br_status := s\<rparr>) = given_ips b" "given_ips (b\<lparr>br_offer := os\<rparr>) = given_ips b"
  "given_ips (b\<lparr>br_status := s, br_offer := os\<rparr>) = given_ips b"
  "given_ips (b\<lparr>br_status := s, br_given := gs @ [(i, ip)]\<rparr>) = map snd gs @ [ip]"
  by (simp_all add: given_ips_def)

lemma learnt_used [simp]: "learnt ip m x = Some True \<longleftrightarrow> m x = Some True"
  by (auto simp: learnt_def split: option.splits)

lemma one_holder_offer:
  assumes "one_holder os" and "Some ip \<notin> set os"
  shows "one_holder (os[k := Some ip])"
  unfolding one_holder_def
proof (intro allI impI)
  fix i j x
  assume i: "i < length (os[k := Some ip])" and j: "j < length (os[k := Some ip])"
    and x: "os[k := Some ip] ! i = Some x" "os[k := Some ip] ! j = Some x"
  have "os ! n \<noteq> Some ip" if "n < length os" for n
    using assms(2) nth_mem [OF that] by metis
  then show "i = j"
    using i j x assms(1) by (cases "i = k"; cases "j = k") (auto simp: one_holder_def)
qed

lemma one_holder_take: "one_holder os \<Longrightarrow> one_holder (os[k := None])"
  unfolding one_holder_def by (metis length_list_update nth_list_update_eq nth_list_update_neq option.distinct(1))

lemma broker_ok_step:
  assumes "broker_step ev b = Some c" and "broker_ok m b"
  shows "broker_ok m c \<and> br_unique c = br_unique b"
  using assms
  by (cases ev)
    (auto simp: broker_ok_def one_holder_offer one_holder_take given_ips_def [symmetric] split: if_splits)

lemma broker_promise:
  "broker_run evs b = Some c \<Longrightarrow> broker_ok m b \<Longrightarrow> broker_ok m c \<and> br_unique c = br_unique b"
proof (induction evs arbitrary: b)
  case (Cons ev evs)
  then obtain d where d: "broker_step ev b = Some d" "broker_run evs d = Some c"
    by (auto simp: Option.bind_eq_Some_conv)
  from broker_ok_step [OF d(1) Cons.prems(2)] Cons.IH [OF d(2)] show ?case by simp
qed simp

section \<open>The pool as a broker\<close>

definition given :: "pool \<Rightarrow> (nat \<times> string) list" where
  "given p = map (\<lambda>ls. (lease_instance ls, lease_ip ls)) (p_leases p)"

definition offers :: "pool \<Rightarrow> string option list" where
  "offers p = map (map_option (\<lambda>a. ep_ips p ! a)) (slot_eps p)"

definition broker_of :: "pool \<Rightarrow> broker" where
  "broker_of p = \<lparr>br_unique = p_unique p, br_status = row_status (p_store p), br_offer = offers p, br_given = given p\<rparr>"

lemma broker_of_simps [simp]:
  "br_unique (broker_of p) = p_unique p" "br_status (broker_of p) = row_status (p_store p)"
  "br_offer (broker_of p) = offers p" "br_given (broker_of p) = given p"
  by (simp_all add: broker_of_def)

lemma broker_cong:
  assumes "p_unique q = p_unique p" "row_status (p_store q) = row_status (p_store p)" "slot_eps q = slot_eps p"
    "ep_ips q = ep_ips p" "given q = given p"
  shows "broker_of q = broker_of p"
  using assms by (simp add: broker_of_def offers_def)

lemma offers_length [simp]: "length (offers p) = length (p_slots p)"
  by (simp add: offers_def slot_eps_def)

lemma br_slot_pool [simp]: "br_slot (broker_of p) i \<longleftrightarrow> slot_in p i"
  by (simp add: br_slot_def slot_in_def)

text \<open>What the broker's view of the store is after the two statements.\<close>

lemma observe_learns:
  assumes "observe env ip s = ((u, e), t)"
  shows "row_status t = row_status s \<or> row_status t = learnt ip (row_status s)"
  using observe_table [of env ip s] assms by (auto simp: status_insert learnt_def)

lemma observe_learnt:
  assumes "observe env ip s = ((u, None), t)"
  shows "row_status t = learnt ip (row_status s)" "u \<longleftrightarrow> row_status s ip \<noteq> Some True"
  using observe_success [OF assms] ledger.obs_result [OF assms] by (auto simp: status_insert learnt_def)

lemma consume_outcomes:
  assumes "consume env u ip s = ((ok, e), t)" and "table_ok s"
  shows "(row_status t = row_status s \<and> \<not> (ok \<and> e = None)) \<or>
    (row_status s ip \<noteq> None \<and> row_status t = (row_status s)(ip \<mapsto> True) \<and> (ok \<or> e \<noteq> None) \<and>
       (ok \<and> e = None \<and> u \<longrightarrow> row_status s ip = Some False))"
proof -
  have upd: "row_status (sql_update_used u ip s) =
      (if row_status s ip = None then row_status s else (row_status s)(ip \<mapsto> True))"
    by (rule ext) (simp add: status_update)
  show ?thesis
  proof (cases "ok \<and> e = None")
    case True
    then have ok: ok and e: "e = None" by simp_all
    have t: "t = sql_update_used u ip s" and one: "sql_affected u ip s = 1"
      using consume_true [of env u ip s None t] assms(1) ok e by simp_all
    have st: "row_status s ip = Some False \<or> \<not> u \<and> row_status s ip = Some True"
      using affected_status [OF assms(2), of u ip] one by (metis zero_neq_one)
    then have "row_status t = (row_status s)(ip \<mapsto> True)" using upd t by fastforce
    with st ok show ?thesis by auto
  next
    case False
    show ?thesis
    proof (cases "ok \<or> e \<noteq> None")
      case True
      have "row_status t = row_status s \<or> t = sql_update_used u ip s"
        using consume_table [of env u ip s] assms(1) by auto
      then have "row_status t = row_status s \<or> row_status s ip \<noteq> None \<and> row_status t = (row_status s)(ip \<mapsto> True)"
        using upd by (cases "row_status s ip = None") auto
      with True False show ?thesis by blast
    next
      case no: False
      then have t: "t = sql_update_used u ip s" and none: "sql_affected u ip s \<noteq> 1"
        using assms(1) by (auto simp: consume_def exec_None split: prod.splits option.splits)
      have st: "row_status s ip = None \<or> row_status s ip = Some True"
        using affected_status [OF assms(2), of u ip] none by (metis (full_types) not_Some_eq)
      have "row_status t = row_status s"
      proof (rule ext)
        fix x
        show "row_status t x = row_status s x" using st by (auto simp: t status_update)
      qed
      with False show ?thesis by blast
    qed
  qed
qed

section \<open>Every operation is an event\<close>

lemma broker_fields [simp]:
  "given (p\<lparr>p_store := s\<rparr>) = given p" "offers (p\<lparr>p_store := s\<rparr>) = offers p"
  by (simp_all add: given_def offers_def frame_simps)

lemma broker_of_cancel [simp]: "broker_of (cancel_ep a p) = broker_of p"
  by (rule broker_cong) (simp_all add: frame_simps given_def)

text \<open>The addresses that are offered are those of the endpoints in the slots.\<close>

lemma offers_nth:
  "i < length (p_slots p) \<Longrightarrow> offers p ! i = map_option (\<lambda>a. ep_ips p ! a) (slot_eps p ! i)"
  by (simp add: offers_def slot_eps_def)

lemma offered_reserved:
  assumes "uniq_ok t p" and "Some ip \<in> set (offers p)"
  shows "p_reserved p ip \<noteq> None"
proof -
  from assms(2) obtain i where i: "i < length (p_slots p)" and o: "offers p ! i = Some ip"
    by (auto simp: in_set_conv_nth)
  then obtain a where a: "slot_eps p ! i = Some a" "ep_ips p ! a = ip"
    by (auto simp: offers_nth)
  have "i < length (slot_eps p)" using i by (simp add: slot_eps_def)
  with assms(1) a have "p_reserved p ip = Some a" unfolding uniq_ok_def held_ok_def by blast
  then show ?thesis by simp
qed

lemma new_endpoint_skips:
  assumes "pool_wf p"
  shows "broker_of (add_endpoint (new_endpoint iid ip c tok x) p) = broker_of p"
proof -
  let ?q = "add_endpoint (new_endpoint iid ip c tok x) p"
  have "offers ?q ! i = offers p ! i" if "i < length (p_slots p)" for i
  proof (cases "slot_eps p ! i")
    case None
    with that show ?thesis by (simp add: offers_def add_endpoint_def slot_eps_def)
  next
    case (Some a)
    have "i < length (slot_eps p)" using that by (simp add: slot_eps_def)
    from wf_slot_eps(1) [OF assms this Some] that Some show ?thesis
      by (simp add: offers_def add_endpoint_def slot_eps_def ep_ips_def nth_append)
  qed
  then have "offers ?q = offers p"
    by (intro nth_equalityI) (simp_all add: add_endpoint_def)
  then show ?thesis by (simp add: broker_of_def given_def add_endpoint_def)
qed

text \<open>The events each operation can be.\<close>

fun mediates :: "pool_op \<Rightarrow> broker_event \<Rightarrow> bool" where
  "mediates (Op_Publish env now a) ev \<longleftrightarrow> (case ev of Br_Skip \<Rightarrow> True | Br_Learn ip \<Rightarrow> True | Br_Offer i ip \<Rightarrow> True | _ \<Rightarrow> False)"
| "mediates (Op_Acquire acq) ev \<longleftrightarrow> (case ev of Br_Skip \<Rightarrow> True | Br_Spend ip \<Rightarrow> True | Br_Give i ip \<Rightarrow> True | _ \<Rightarrow> False)"
| "mediates (Op_Finish l err now) ev \<longleftrightarrow> (case ev of Br_Skip \<Rightarrow> True | Br_Take i \<Rightarrow> True | _ \<Rightarrow> False)"
| "mediates (Op_Withdraw a) ev \<longleftrightarrow> (case ev of Br_Skip \<Rightarrow> True | Br_Take i \<Rightarrow> True | _ \<Rightarrow> False)"
| "mediates _ ev \<longleftrightarrow> ev = Br_Skip"

definition simulates :: "pool_op \<Rightarrow> pool \<Rightarrow> pool \<Rightarrow> bool" where
  "simulates op p q \<longleftrightarrow> (\<exists>ev. mediates op ev \<and> broker_step ev (broker_of p) = Some (broker_of q))"

lemma simulates_skip: "broker_of q = broker_of p \<Longrightarrow> simulates op p q"
  unfolding simulates_def by (rule exI [of _ Br_Skip]) (cases op; simp)

lemma simulates_publish:
  assumes "publish env now a p = Some (r, q)" and "a < length (p_eps p)" and "pool_wf p"
    and "p_unique p \<longrightarrow> uniq_ok t p"
  shows "simulates (Op_Publish env now a) p q"
proof -
  let ?e = "ep_of p a"
  let ?ip = "ep_ip ?e"
  let ?p1 = "upd_view (ep_id ?e)
    (\<lambda>v. v\<lparr>view_ip := ?ip, view_circuit := ep_circuit ?e, view_last_check := now\<rparr>) p"
  have iid: "slot_in p (ep_id ?e)" by (rule ep_id_in [OF assms(3,2)])
  obtain u e s where o: "observe env ?ip (p_store p) = ((u, e), s)" by (metis surj_pair)
  let ?p2 = "?p1\<lparr>p_store := s\<rparr>"
  have b2: "broker_of ?p2 = (broker_of p)\<lparr>br_status := row_status s\<rparr>"
    by (simp add: broker_of_def given_def offers_def frame_simps)
  show ?thesis
  proof (cases "q = ?p2")
    case True
    from observe_learns [OF o] show ?thesis
    proof
      assume "row_status s = row_status (p_store p)"
      with True b2 have "broker_of q = broker_of p" by (simp add: broker_of_def)
      then show ?thesis by (rule simulates_skip)
    next
      assume "row_status s = learnt ?ip (row_status (p_store p))"
      with True b2 show ?thesis
        unfolding simulates_def by (intro exI [of _ "Br_Learn ?ip"]) simp
    qed
  next
    case False
    with assms(1) iid o have e: "e = None" and q: "q = make_ready a now ?p2"
      and free: "p_unique p \<longrightarrow> u \<and> p_reserved p ?ip = None"
      by (auto simp: publish_def Let_def frame_simps split: if_splits option.splits)
    from o e have o': "observe env ?ip (p_store p) = ((u, None), s)" by simp
    have ep2: "ep_of ?p2 a = ?e" by (simp add: ep_of_def frame_simps)
    have in2: "slot_in ?p2 (ep_id (ep_of ?p2 a))" using iid by (simp add: ep2 slot_in_def frame_simps)
    note proj = make_ready_proj [OF in2, of now]
    have given: "given q = given p"
      by (simp add: q given_def make_ready_def Let_def frame_simps)
    have "offers q = (offers p)[ep_id ?e - 1 := Some ?ip]"
      by (simp add: q offers_def proj ep2 frame_simps map_update ep_ips_nth [OF assms(2)])
    then have bq: "broker_of q = (broker_of p)\<lparr>br_status := learnt ?ip (row_status (p_store p)),
        br_offer := (offers p)[ep_id ?e - 1 := Some ?ip]\<rparr>"
      using given observe_learnt(1) [OF o'] by (simp add: broker_of_def q proj frame_simps)
    have "\<not> (p_unique p \<and> (row_status (p_store p) ?ip = Some True \<or> Some ?ip \<in> set (offers p)))"
      using free observe_learnt(2) [OF o'] offered_reserved assms(4) by blast
    with iid bq show ?thesis
      unfolding simulates_def by (intro exI [of _ "Br_Offer (ep_id ?e) ?ip"]) simp
  qed
qed

lemma simulates_taken:
  assumes "slot_eps q = slot_eps p \<or> (\<exists>i. slot_in p i \<and> slot_eps q = (slot_eps p)[i - 1 := None])"
    and "ep_ips q = ep_ips p" and "p_store q = p_store p" and "p_unique q = p_unique p" and "given q = given p"
    and "\<And>i. mediates op (Br_Take i)"
  shows "simulates op p q"
  using assms(1)
proof
  assume "slot_eps q = slot_eps p"
  with assms show ?thesis by (intro simulates_skip broker_cong) simp_all
next
  assume "\<exists>i. slot_in p i \<and> slot_eps q = (slot_eps p)[i - 1 := None]"
  then obtain i where i: "slot_in p i" and s: "slot_eps q = (slot_eps p)[i - 1 := None]" by blast
  have "offers q = (offers p)[i - 1 := None]" by (simp add: offers_def s assms(2) map_update)
  then have "broker_of q = (broker_of p)\<lparr>br_offer := (offers p)[i - 1 := None]\<rparr>"
    using assms(3-5) by (simp add: broker_of_def)
  with i assms(6) show ?thesis
    unfolding simulates_def by (intro exI [of _ "Br_Take i"]) simp
qed

lemma given_frames:
  "given (event_locked i m now p) = given p" "given (upd_view i f p) = given p"
  "given (upd_slot i g p) = given p" "given (count_result i e p) = given p" "given (upd_ep a h p) = given p"
  by (simp_all add: given_def frame_simps)

lemma close_done_broker:
  "close_done_once a p = Some q \<Longrightarrow> slot_eps q = slot_eps p \<and> given q = given p \<and> p_unique q = p_unique p"
  by (auto simp: close_done_once_def given_frames frame_simps split: if_splits)

lemma finish_reuse_taken:
  assumes "finish_reuse a err now p = Some q"
  shows "(slot_eps q = slot_eps p \<or> (\<exists>i. slot_in p i \<and> slot_eps q = (slot_eps p)[i - 1 := None])) \<and>
    given q = given p \<and> p_unique q = p_unique p"
proof -
  let ?iid = "ep_id (ep_of p a)"
  let ?p1 = "count_result ?iid err (upd_ep a (\<lambda>e. if ep_active e > 0 then e\<lparr>ep_active := ep_active e - 1\<rparr> else e) p)"
  have iid: "slot_in p ?iid" using assms by (auto simp: finish_reuse_def Let_def split: if_splits)
  show ?thesis
  proof (cases err)
    case None
    with assms have "q = ?p1" by (auto simp: finish_reuse_def Let_def split: if_splits)
    then show ?thesis by (simp add: frame_simps given_frames)
  next
    case (Some e)
    let ?p3 = "upd_ep a (\<lambda>x. x\<lparr>ep_last_err := Some e\<rparr>) ?p1"
    let ?p4 = "event_locked ?iid ''Request finished; rotating'' now
        (upd_view ?iid (\<lambda>v. v\<lparr>view_state := S_Rotating, view_last_error := error_text e\<rparr>)
          (upd_slot ?iid (\<lambda>s. s\<lparr>slot_ep := None\<rparr>) ?p3))"
    have "close_done_once a (if slot_ep (slot_of ?p3 ?iid) = Some a then ?p4 else ?p3) = Some q"
      using assms Some by (simp add: finish_reuse_def Let_def split: if_splits)
    from close_done_broker [OF this]
    have "slot_eps q = slot_eps p \<or> slot_eps q = (slot_eps p)[?iid - 1 := None]"
      and "given q = given p" and "p_unique q = p_unique p"
      by (simp_all add: frame_simps given_frames split: if_splits)
    with iid show ?thesis by blast
  qed
qed

lemma given_once:
  "given (p\<lparr>p_leases := (p_leases p)[l := (p_leases p ! l)\<lparr>lease_once := b\<rparr>]\<rparr>) = given p"
  by (simp add: given_def map_update_same)

lemma finish_taken:
  assumes "finish_lease l err now p = Some q" and "l < length (p_leases p)"
  shows "(slot_eps q = slot_eps p \<or> (\<exists>i. slot_in p i \<and> slot_eps q = (slot_eps p)[i - 1 := None])) \<and>
    given q = given p \<and> p_unique q = p_unique p"
proof (cases "p_unique p")
  case True
  with assms show ?thesis
    by (auto simp: finish_lease_def finish_unique_alt Let_def frame_simps given_frames split: if_splits)
next
  case False
  let ?p1 = "p\<lparr>p_leases := (p_leases p)[l := (p_leases p ! l)\<lparr>lease_once := True\<rparr>]\<rparr>"
  have same: "slot_eps ?p1 = slot_eps p" "given ?p1 = given p" "slot_in ?p1 i = slot_in p i" for i
    by (simp_all add: given_once slot_eps_def slot_in_def)
  have "slot_eps q = slot_eps p \<and> given q = given p \<and> p_unique q = p_unique p \<or>
      finish_reuse (lease_ep (p_leases p ! l)) err now ?p1 = Some q"
    using False assms(1) by (auto simp: finish_lease_def Let_def split: if_splits)
  then show ?thesis
    using finish_reuse_taken [of _ err now ?p1 q] by (auto simp: same)
qed

lemma simulates_withdraw:
  assumes "withdraw a p = Some q"
  shows "simulates (Op_Withdraw a) p q"
proof (rule simulates_taken)
  have "slot_in p (ep_id (ep_of p a))"
    using assms by (auto simp: withdraw_def Let_def slot_in_def split: if_splits)
  then show "slot_eps q = slot_eps p \<or> (\<exists>i. slot_in p i \<and> slot_eps q = (slot_eps p)[i - 1 := None])"
    using withdraw_proj(1) [OF assms] by (auto split: if_splits)
  show "given q = given p"
    using assms by (auto simp: withdraw_def Let_def given_def frame_simps split: if_splits)
qed (simp_all add: withdraw_proj [OF assms])

text \<open>A grant is the event \<open>Br_Give\<close>, and a reservation that fails after it was written is \<open>Br_Spend\<close>.\<close>

lemma simulates_grant:
  assumes "pool_wf p" and "i < length (p_slots p)" and sv: "servable p (p_slots p ! i) = Some a"
    and c: "consume env (p_unique p) (ep_ip (ep_of p a)) (p_store p) = ((True, None), s)"
  shows "simulates (Op_Acquire acq) p
    ((if p_unique p then grant_unique else grant_reuse) now i a (p\<lparr>p_store := s\<rparr>))" (is "simulates _ p ?q")
proof -
  let ?ip = "ep_ip (ep_of p a)"
  let ?p1 = "p\<lparr>p_store := s\<rparr>"
  have a: "a < length (p_eps p)" and id: "ep_id (ep_of p a) = i + 1" and slot: "slot_ep (slot_of p (i + 1)) = Some a"
    by (rule wf_servable [OF assms(1-3)])+
  have "table_ok (p_store p)" using assms(1) by (simp add: pool_wf_def bounds_ok_def)
  from consume_outcomes [OF c this] have st: "row_status (p_store p) ?ip \<noteq> None"
    "row_status s = (row_status (p_store p))(?ip \<mapsto> True)"
    "p_unique p \<longrightarrow> row_status (p_store p) ?ip = Some False"
    by auto
  have ep1: "ep_of ?p1 a = ep_of p a" by (simp add: ep_of_def)
  have "given ?q = given p @ [(i + 1, ?ip)]"
    using id by (auto simp: given_def grant_proj ep1)
  moreover have "slot_eps ?q = slot_eps p" "ep_ips ?q = ep_ips p" "p_store ?q = s" "p_unique ?q = p_unique p"
    by (simp_all add: grant_unique_proj grant_frames grant_proj frame_simps)
  ultimately have q: "broker_of ?q = (broker_of p)\<lparr>br_status := (row_status (p_store p))(?ip \<mapsto> True),
      br_given := given p @ [(i + 1, ?ip)]\<rparr>"
    using st(2) by (simp add: broker_of_def offers_def)
  have "slot_in p (i + 1)" using assms(2) by (simp add: slot_in_def)
  moreover have "offers p ! i = Some ?ip"
    using assms(2) slot by (simp add: offers_nth slot_eps_def slot_of_def ep_ips_nth [OF a])
  ultimately show ?thesis
    using st(1,3) unfolding simulates_def by (intro exI [of _ "Br_Give (i + 1) ?ip"]) (simp add: q)
qed

lemma simulates_failed:
  assumes c: "consume env (p_unique p) ip (p_store p) = ((ok, e), t)" and "table_ok (p_store p)" and "e \<noteq> None"
  shows "simulates (Op_Acquire acq) p (p\<lparr>p_store := t\<rparr>)" (is "simulates _ p ?q")
proof -
  have q: "broker_of ?q = (broker_of p)\<lparr>br_status := row_status t\<rparr>" by (simp add: broker_of_def)
  from consume_outcomes [OF c assms(2)] show ?thesis
  proof
    assume "row_status t = row_status (p_store p) \<and> \<not> (ok \<and> e = None)"
    with q show ?thesis by (intro simulates_skip) (simp add: broker_of_def)
  next
    assume "row_status (p_store p) ip \<noteq> None \<and> row_status t = (row_status (p_store p))(ip \<mapsto> True) \<and>
      (ok \<or> e \<noteq> None) \<and> (ok \<and> e = None \<and> p_unique p \<longrightarrow> row_status (p_store p) ip = Some False)"
    with q show ?thesis
      unfolding simulates_def by (intro exI [of _ "Br_Spend ip"]) simp
  qed
qed

lemma simulates_scan:
  assumes "scan (p_unique p) acq os p = (r, q)" and "pool_wf p" and "p_slots p \<noteq> []"
  shows "simulates (Op_Acquire acq) p q"
  using assms
proof (induction os arbitrary: p)
  case Nil
  then show ?case by (simp add: simulates_skip)
next
  case (Cons offset rest)
  let ?i = "scan_index p offset"
  have i: "?i < length (p_slots p)" using Cons.prems(3) by (rule scan_index_less)
  show ?case
  proof (cases "servable p (p_slots p ! ?i)")
    case None
    with Cons show ?thesis by simp
  next
    case (Some a)
    let ?ip = "ep_ip (ep_of p a)"
    obtain ok e t where c: "consume (acq_sql acq offset) (p_unique p) ?ip (p_store p) = ((ok, e), t)"
      by (metis surj_pair)
    let ?p1 = "p\<lparr>p_store := t\<rparr>"
    have good: "table_ok (p_store p)" using Cons.prems(2) by (simp add: pool_wf_def bounds_ok_def)
    note out = consume_outcomes [OF c good]
    have b1: "broker_of ?p1 = (broker_of p)\<lparr>br_status := row_status t\<rparr>" by (simp add: broker_of_def)
    consider (granted) "e = None" "ok" | (refused) "e = None" "\<not> ok" | (failed) e' where "e = Some e'"
      by (cases e) auto
    then show ?thesis
    proof cases
      case granted
      with Cons.prems(1) Some c
      have "q = (if p_unique p then grant_unique else grant_reuse) (acq_now acq) ?i a ?p1"
        by (simp add: Let_def)
      with simulates_grant [OF Cons.prems(2) i Some] granted c show ?thesis by simp
    next
      case refused
      let ?p2 = "cancel_ep a ?p1"
      have "scan (p_unique ?p2) acq rest ?p2 = (r, q)"
        using Cons.prems(1) Some c refused by (simp add: Let_def frame_simps)
      moreover have "pool_wf ?p2"
        using Cons.prems(2) ledger.consume_good [OF c good] by (simp add: wf_store wf_cancel)
      moreover have "p_slots ?p2 \<noteq> []" using Cons.prems(3) by (simp add: frame_simps)
      ultimately have "simulates (Op_Acquire acq) ?p2 q" by (rule Cons.IH)
      moreover have "row_status t = row_status (p_store p)" using out refused by simp
      then have "broker_of ?p1 = broker_of p" using b1 by (simp add: broker_of_def)
      then have "broker_of ?p2 = broker_of p" by simp
      ultimately show ?thesis by (simp add: simulates_def)
    next
      case failed
      with Cons.prems(1) Some c have q: "q = ?p1" by (simp add: Let_def)
      with simulates_failed [OF c good] show ?thesis using failed by simp
    qed
  qed
qed

lemma simulates_acquire:
  assumes "acquire_locked acq p = (r, q)" and "pool_wf p"
  shows "simulates (Op_Acquire acq) p q"
proof (cases "p_slots p = []")
  case True
  with assms(1) show ?thesis by (simp add: acquire_locked_eq simulates_skip)
next
  case False
  with assms show ?thesis by (intro simulates_scan) (simp_all add: acquire_locked_eq)
qed

lemma exec_simulates:
  assumes "pool_exec op p = Some q" and "pool_wf p" and "p_unique p \<longrightarrow> uniq_ok t p"
  shows "simulates op p q"
proof (cases op)
  case (Op_New iid ip circuit token c)
  with assms show ?thesis by (auto intro: simulates_skip simp: new_endpoint_skips split: if_splits)
next
  case (Op_State iid st progress problem now)
  with assms(1) have "pool_state iid st progress problem now p = Some q" by (simp split: if_splits)
  note frame = pool_state_frame [OF this]
  show ?thesis by (intro simulates_skip broker_cong) (simp_all add: frame given_def)
next
  case (Op_Publish env now a)
  with assms show ?thesis by (auto intro: simulates_publish split: if_splits)
next
  case (Op_Acquire acq)
  with assms show ?thesis by (auto intro: simulates_acquire [OF prod.collapse [symmetric]])
next
  case Op_Reject
  with assms show ?thesis
    by (auto intro!: simulates_skip broker_cong simp: count_rejected_def proj_defs given_def)
next
  case (Op_Finish l err now)
  with assms(1) have f: "finish_lease l err now p = Some q" "l < length (p_leases p)"
    by (simp_all split: if_splits)
  note taken = finish_taken [OF f]
  show ?thesis
  proof (rule simulates_taken)
    show "slot_eps q = slot_eps p \<or> (\<exists>i. slot_in p i \<and> slot_eps q = (slot_eps p)[i - 1 := None])"
      by (rule conjunct1 [OF taken])
    show "given q = given p" "p_unique q = p_unique p" using taken by blast+
    show "ep_ips q = ep_ips p" "p_store q = p_store p" by (rule finish_fewer [OF f(1)])+
    show "mediates op (Br_Take i)" for i by (simp add: Op_Finish)
  qed
next
  case (Op_Withdraw a)
  with assms show ?thesis by (auto intro: simulates_withdraw split: if_splits)
next
  case (Op_Cancel a)
  with assms show ?thesis by (auto intro: simulates_skip split: if_splits)
qed

section \<open>The refinement\<close>

lemma run_simulates:
  assumes "pool_run ops p = Some q" and "pool_wf p" and "p_unique p \<longrightarrow> uniq_ok t p"
  shows "\<exists>evs. list_all2 mediates ops evs \<and> broker_run evs (broker_of p) = Some (broker_of q)"
  using assms
proof (induction ops arbitrary: p)
  case (Cons op ops)
  then obtain r where r: "pool_exec op p = Some r" "pool_run ops r = Some q"
    by (auto elim: bind_eq_SomeE)
  have s: "pool_step p r" by (rule pool_exec_step [OF r(1)])
  obtain ev where ev: "mediates op ev" "broker_step ev (broker_of p) = Some (broker_of r)"
    using exec_simulates [OF r(1) Cons.prems(2,3)] by (auto simp: simulates_def)
  have "p_unique r \<longrightarrow> uniq_ok t r"
    using mode_step [OF s Cons.prems(2)] uniq_step [OF s Cons.prems(2)] Cons.prems(3) by simp
  from Cons.IH [OF r(2) wf_step [OF s Cons.prems(2)] this] obtain evs where
    "list_all2 mediates ops evs" "broker_run evs (broker_of r) = Some (broker_of q)" by blast
  with ev have "list_all2 mediates (op # ops) (ev # evs) \<and>
      broker_run (ev # evs) (broker_of p) = Some (broker_of q)" by simp
  then show ?case by blast
qed simp

lemma new_broker_ok: "broker_ok (row_status t) (broker_of (new_pool cfg t now))"
  by (auto simp: broker_ok_def one_holder_def given_ips_def given_def offers_def slot_eps_def new_pool_def)

text \<open>
  Claim C4. The pool of endpoints, slots, contexts, reservations and leases implements the broker:
  whatever the program does with a pool that was built from a configuration, every operation is one event of the broker
  of the kind the operation may be. Publishing learns or offers an address, acquiring uses up or gives one, finishing
  and withdrawing take an offer back, and nothing else is seen from outside. So the pool keeps the broker's promise: in
  unique mode no address is given twice, none that the database had marked before, and no two instances offer the same.
\<close>

theorem pool_refines_broker:
  assumes "table_ok t" and "pool_run ops (new_pool cfg t now) = Some p"
  shows "\<exists>evs. list_all2 mediates ops evs \<and>
    broker_run evs (broker_of (new_pool cfg t now)) = Some (broker_of p) \<and> broker_ok (row_status t) (broker_of p)"
proof -
  have "p_unique (new_pool cfg t now) \<longrightarrow> uniq_ok t (new_pool cfg t now)"
    using uniq_new by (simp add: new_pool_def)
  from run_simulates [OF assms(2) wf_new_pool [OF assms(1)] this] obtain evs where
    "list_all2 mediates ops evs" "broker_run evs (broker_of (new_pool cfg t now)) = Some (broker_of p)" by blast
  with broker_promise [OF _ new_broker_ok] show ?thesis by blast
qed

theorem pool_refines_broker_witness:
  "\<exists>evs. list_all2 mediates demo_serve evs \<and>
     broker_run evs (broker_of (new_pool (demo_cfg True) [] (At 0))) = Some (broker_of (demo_pool True demo_serve)) \<and>
     broker_ok (row_status []) (broker_of (demo_pool True demo_serve))"
proof -
  have "pool_run demo_serve (new_pool (demo_cfg True) [] (At 0)) \<noteq> None" by code_simp
  then have "pool_run demo_serve (new_pool (demo_cfg True) [] (At 0)) = Some (demo_pool True demo_serve)"
    by (simp add: demo_pool_def)
  then show ?thesis by (intro pool_refines_broker) (simp_all add: table_ok_def)
qed

end
