(* ===== verification/Shown.thy ===== *)
theory Shown
  imports PoolProps
begin

text \<open>
  What the dashboard shows is what the pool holds: the states of the instances in a snapshot agree with the endpoints
  and the leases behind them.
\<close>

section \<open>States and endpoints of the slots\<close>

definition shown :: "pool \<Rightarrow> (inst_state \<times> nat option) list" where
  "shown p = map (\<lambda>s. (view_state (slot_view s), slot_ep s)) (p_slots p)"

definition busy_ok :: "pool \<Rightarrow> bool" where
  "busy_ok p \<longleftrightarrow>
     (p_unique p \<longrightarrow> (\<forall>i a. i < length (shown p) \<longrightarrow>
        (shown p ! i = (S_Busy, Some a) \<longrightarrow> count_list (lease_eps p) a = 1 \<and> \<not> ep_onces p ! a) \<and>
        (shown p ! i = (S_Ready, Some a) \<longrightarrow> a \<notin> set (lease_eps p) \<and> \<not> ep_onces p ! a))) \<and>
     (\<not> p_unique p \<longrightarrow> (\<forall>i < length (shown p). fst (shown p ! i) \<noteq> S_Busy))"

text \<open>A step that makes no slot Ready or Busy and gives no lease.\<close>

definition calm :: "pool \<Rightarrow> pool \<Rightarrow> bool" where
  "calm p q \<longleftrightarrow> p_unique q = p_unique p \<and> lease_eps q = lease_eps p \<and> length (shown q) = length (shown p) \<and>
     (\<forall>i < length (shown p). shown q ! i = shown p ! i \<or> fst (shown q ! i) \<notin> {S_Ready, S_Busy})"

lemma busy_calm:
  assumes "busy_ok p" and "calm p q"
    and "\<And>i a. p_unique p \<Longrightarrow> i < length (shown p) \<Longrightarrow> shown q ! i \<in> {(S_Ready, Some a), (S_Busy, Some a)} \<Longrightarrow> ep_onces q ! a = ep_onces p ! a"
  shows "busy_ok q"
proof (cases "p_unique p")
  case False
  with assms(1,2) show ?thesis by (auto simp: busy_ok_def calm_def)
next
  case True
  have "(shown q ! i = (S_Busy, Some a) \<longrightarrow> count_list (lease_eps q) a = 1 \<and> \<not> ep_onces q ! a) \<and>
      (shown q ! i = (S_Ready, Some a) \<longrightarrow> a \<notin> set (lease_eps q) \<and> \<not> ep_onces q ! a)" if i: "i < length (shown q)" for i a
  proof -
    have i': "i < length (shown p)" and l: "lease_eps q = lease_eps p"
      and c: "shown q ! i = shown p ! i \<or> fst (shown q ! i) \<notin> {S_Ready, S_Busy}"
      using assms(2) i by (auto simp: calm_def)
    from assms(1) True i' have "(shown p ! i = (S_Busy, Some a) \<longrightarrow> count_list (lease_eps p) a = 1 \<and> \<not> ep_onces p ! a) \<and>
      (shown p ! i = (S_Ready, Some a) \<longrightarrow> a \<notin> set (lease_eps p) \<and> \<not> ep_onces p ! a)" unfolding busy_ok_def by blast
    with c l assms(3) [OF True i', of a] show ?thesis by auto
  qed
  with True assms(2) show ?thesis by (simp add: busy_ok_def calm_def)
qed

text \<open>How the helpers change what is shown.\<close>

lemma shown_len [simp]: "length (shown p) = length (p_slots p)"
  by (simp add: shown_def)

lemma shown_slots: "p_slots q = p_slots p \<Longrightarrow> shown q = shown p"
  by (simp add: shown_def)

lemma shown_view_same:
  "(\<And>v. view_state (f v) = view_state v) \<Longrightarrow> shown (upd_view i f p) = shown p"
  by (simp add: shown_def upd_view_def upd_slot_def map_update_same)

lemma shown_view:
  "i - 1 < length (p_slots p) \<Longrightarrow> shown (upd_view i f p) =
     (shown p)[i - 1 := (view_state (f (slot_view (slot_of p i))), slot_ep (slot_of p i))]"
  by (simp add: shown_def upd_view_def upd_slot_def slot_of_def map_update)

lemma shown_count [simp]: "shown (count_result i e p) = shown p"
  by (simp add: shown_def count_result_def upd_slot_def map_update_same)

lemma shown_frames [simp]:
  "shown (event_locked i m now p) = shown p" "shown (upd_ep a f p) = shown p" "shown (cancel_ep a p) = shown p"
  "shown (broadcast_locked p) = shown p" "shown (p\<lparr>p_store := t\<rparr>) = shown p" "shown (p\<lparr>p_reserved := rs\<rparr>) = shown p"
  "shown (p\<lparr>p_revision := n\<rparr>) = shown p" "shown (p\<lparr>p_leases := ls\<rparr>) = shown p" "shown (add_lease a p) = shown p"
  by (simp_all add: shown_def frame_simps add_lease_def)

lemma shown_nth: "i < length (p_slots p) \<Longrightarrow> shown p ! i = (view_state (slot_view (p_slots p ! i)), slot_ep (p_slots p ! i))"
  by (simp add: shown_def)

lemma calmI:
  assumes "p_unique q = p_unique p" and "lease_eps q = lease_eps p"
    and "shown q = shown p \<or> (\<exists>k st x. shown q = (shown p)[k := (st, x)] \<and> st \<notin> {S_Ready, S_Busy})"
  shows "calm p q"
  using assms(3)
proof
  assume "shown q = shown p"
  with assms(1,2) show ?thesis by (simp add: calm_def flip: shown_len)
next
  assume "\<exists>k st x. shown q = (shown p)[k := (st, x)] \<and> st \<notin> {S_Ready, S_Busy}"
  then obtain k st x where k: "shown q = (shown p)[k := (st, x)]" "st \<notin> {S_Ready, S_Busy}" by blast
  then have "length (shown q) = length (shown p)" by simp
  with k assms(1,2) show ?thesis by (auto simp: calm_def nth_update_if simp del: shown_len)
qed

section \<open>Every step keeps the agreement\<close>

lemma shown_state:
  assumes "pool_state iid st progress problem now p = Some q"
  shows "shown q = (shown p)[iid - 1 := (st, slot_ep (slot_of p iid))]"
proof -
  obtain v c where v: "state_view st progress problem (slot_view (slot_of p iid)) = (v, c)"
    by (cases "state_view st progress problem (slot_view (slot_of p iid))")
  have i: "slot_in p iid" using assms by (simp add: pool_state_def split: if_splits)
  have "view_state v = st"
    using v by (auto simp: state_view_def Let_def split: option.splits if_splits)
  moreover have "shown q = shown (upd_view iid (\<lambda>_. v) p)"
    using assms v by (auto simp: pool_state_def Let_def split: if_splits)
  moreover have "iid - 1 < length (p_slots p)" using i by (auto simp: slot_in_def)
  ultimately show ?thesis by (simp add: shown_view)
qed

lemma busy_state:
  assumes "pool_state iid st progress problem now p = Some q" and "st \<notin> {S_Ready, S_Busy}" and "busy_ok p"
  shows "busy_ok q"
proof (rule busy_calm [OF assms(3)])
  show "calm p q"
    using shown_state [OF assms(1)] assms(2)
    by (intro calmI) (auto simp: lease_eps_def pool_state_frame [OF assms(1)])
qed (simp add: pool_state_frame [OF assms(1)])

lemma shown_make_ready:
  assumes "slot_in p (ep_id (ep_of p a))"
  shows "shown (make_ready a now p) = (shown p)[ep_id (ep_of p a) - 1 := (S_Ready, Some a)]"
proof -
  let ?i = "ep_id (ep_of p a)"
  have lt: "?i - 1 < length (p_slots p)" using assms by (auto simp: slot_in_def)
  then show ?thesis
    by (auto simp: make_ready_def Let_def shown_def broadcast_locked_def event_locked_def upd_view_def upd_slot_def map_update)
qed

text \<open>A leased address is marked used, so its endpoint is not published again.\<close>

lemma leased_used:
  assumes "uniq_ok t p" and "pool_wf p" and "a \<in> set (lease_eps p)"
  shows "row_status (p_store p) (ep_ip (ep_of p a)) = Some True"
proof -
  obtain l where l: "l < length (p_leases p)" "a = lease_ep (p_leases p ! l)"
    using assms(3) by (auto simp: lease_eps_def in_set_conv_nth)
  have "lease_ip (p_leases p ! l) = ep_ip (ep_of p a)"
    using assms(2) l by (auto simp: pool_wf_def leases_ok_def ep_of_def)
  moreover have "lease_ip (p_leases p ! l) \<in> set (lease_ips p)" using l(1) by (simp add: lease_ips_def)
  ultimately show ?thesis using assms(1) unfolding uniq_ok_def history_ok_def by metis
qed

lemma busy_publish:
  assumes "publish env now a p = Some (r, q)" and "a < length (p_eps p)" and "pool_wf p"
    and "p_unique p \<Longrightarrow> uniq_ok t p" and "busy_ok p"
  shows "busy_ok q"
proof -
  let ?e = "ep_of p a"
  let ?p1 = "upd_view (ep_id ?e)
    (\<lambda>v. v\<lparr>view_ip := ep_ip ?e, view_circuit := ep_circuit ?e, view_last_check := now\<rparr>) p"
  have iid: "slot_in p (ep_id ?e)" by (rule ep_id_in [OF assms(3,2)])
  obtain u e s where o: "observe env (ep_ip ?e) (p_store p) = ((u, e), s)" by (metis surj_pair)
  let ?p2 = "?p1\<lparr>p_store := s\<rparr>"
  have s1: "shown ?p1 = shown p" by (rule shown_view_same) simp
  then have s2: "shown ?p2 = shown p" by simp
  have frame: "p_unique q = p_unique p" "lease_eps q = lease_eps p" "ep_onces q = ep_onces p"
    using publish_frame [OF assms(1)] by (simp_all add: lease_eps_def ep_onces_def)
  show ?thesis
  proof (cases "q = ?p2")
    case True
    have "calm p q" by (rule calmI) (use frame s2 True in simp_all)
    with frame(3) show ?thesis by (intro busy_calm [OF assms(5)]) simp_all
  next
    case False
    with assms(1) iid o have e: "e = None" and q: "q = make_ready a now ?p2" and free: "p_unique p \<longrightarrow> u"
      by (auto simp: publish_def Let_def frame_simps split: if_splits option.splits)
    from o e have o': "observe env (ep_ip ?e) (p_store p) = ((u, None), s)" by simp
    have ep2: "ep_of ?p2 a = ?e" by (simp add: ep_of_def frame_simps)
    have "slot_in ?p2 (ep_id (ep_of ?p2 a))" using iid by (simp add: ep2 slot_in_def frame_simps)
    then have sq: "shown q = (shown p)[ep_id ?e - 1 := (S_Ready, Some a)]"
      using shown_make_ready [of ?p2 a now] s2 by (simp add: q ep2)
    have "a \<notin> set (lease_eps p) \<and> \<not> ep_onces p ! a" if "p_unique p"
    proof (rule ccontr)
      assume "\<not> (a \<notin> set (lease_eps p) \<and> \<not> ep_onces p ! a)"
      then have "row_status (p_store p) (ep_ip ?e) = Some True"
        using leased_used [OF assms(4) [OF that] assms(3)] once_used [OF assms(4) [OF that] assms(2)] by blast
      then have "row_status s (ep_ip ?e) = Some True" by (rule ledger.observe_monotone [OF o'])
      moreover have "row_status s (ep_ip ?e) = Some (\<not> u)"
        using observe_success [OF o'] unfolding select_used_status by blast
      ultimately show False using free that by simp
    qed
    with assms(5) show ?thesis
      unfolding busy_ok_def frame sq
      by (auto simp: nth_update_if)
  qed
qed

lemma shown_grant_unique:
  assumes "i < length (p_slots p)"
  shows "shown (grant_unique now i a p) = (shown p)[i := (S_Busy, slot_ep (p_slots p ! i))]"
proof -
  let ?p1 = "upd_view (i + 1) (\<lambda>v. v\<lparr>view_state := S_Busy, view_requests := view_requests v + 1\<rparr>) p"
  have "shown (grant_unique now i a p) = shown ?p1"
    unfolding grant_unique_def Let_def by (simp add: shown_def frame_simps add_lease_def)
  with assms show ?thesis by (simp add: shown_view slot_of_def)
qed

lemma shown_grant_reuse: "shown (grant_reuse now i a p) = shown p"
proof -
  let ?p1 = "upd_view (i + 1) (\<lambda>v. v\<lparr>view_requests := view_requests v + 1, view_last_check := now\<rparr>) p"
  have "shown (grant_reuse now i a p) = shown ?p1"
    unfolding grant_reuse_def Let_def by (simp add: shown_def frame_simps add_lease_def)
  then show ?thesis by (simp add: shown_view_same)
qed

lemma busy_grant:
  assumes "busy_ok p" and "pool_wf p" and "i < length (p_slots p)" and sv: "servable p (p_slots p ! i) = Some a"
  shows "busy_ok ((if p_unique p then grant_unique else grant_reuse) now i a p)"
proof (cases "p_unique p")
  case False
  with assms(1) show ?thesis by (simp add: busy_ok_def shown_grant_reuse frame_simps grant_proj)
next
  case True
  let ?q = "grant_unique now i a p"
  have sl: "slot_ep (p_slots p ! i) = Some a" "shown p ! i = (S_Ready, Some a)"
    using sv assms(3) by (simp_all add: servable_Some shown_nth)
  have q: "shown ?q = (shown p)[i := (S_Busy, Some a)]" "lease_eps ?q = lease_eps p @ [a]" "ep_onces ?q = ep_onces p"
    "p_unique ?q"
    using True assms(3) by (simp_all add: shown_grant_unique sl(1) lease_eps_def grant_proj grant_unique_proj)
  have free: "a \<notin> set (lease_eps p)" "\<not> ep_onces p ! a"
    using assms(1,3) True sl(2) by (simp_all add: busy_ok_def)
  have other: "b \<noteq> a" if "j < length (p_slots p)" "j \<noteq> i" "shown p ! j = (st, Some b)" for j st b
  proof
    assume "b = a"
    then have "slot_eps p ! j = Some a" "slot_eps p ! i = Some a" using that sl(1) assms(3) by (simp_all add: shown_nth slot_eps_def)
    moreover have "j < length (slot_eps p)" "i < length (slot_eps p)" using that(1) assms(3) by (simp_all add: slot_eps_def)
    ultimately have "j + 1 = i + 1" using wf_slot_eps(2) [OF assms(2)] by metis
    with that(2) show False by simp
  qed
  have "(shown ?q ! j = (S_Busy, Some b) \<longrightarrow> count_list (lease_eps ?q) b = 1 \<and> \<not> ep_onces ?q ! b) \<and>
      (shown ?q ! j = (S_Ready, Some b) \<longrightarrow> b \<notin> set (lease_eps ?q) \<and> \<not> ep_onces ?q ! b)" if j: "j < length (p_slots p)" for j b
  proof (cases "j = i")
    case True
    with j free show ?thesis unfolding q by (auto simp: count_list_0_iff)
  next
    case False
    have old: "(shown p ! j = (S_Busy, Some b) \<longrightarrow> count_list (lease_eps p) b = 1 \<and> \<not> ep_onces p ! b) \<and>
      (shown p ! j = (S_Ready, Some b) \<longrightarrow> b \<notin> set (lease_eps p) \<and> \<not> ep_onces p ! b)"
      using assms(1) True j unfolding busy_ok_def shown_len by blast
    with False other [OF j False] show ?thesis unfolding q by auto
  qed
  moreover have "length (p_slots ?q) = length (p_slots p)" by (simp add: frame_len)
  ultimately show ?thesis using True q(4) unfolding busy_ok_def shown_len by simp
qed

lemma busy_acquire:
  assumes "acquire_locked acq p = (r, q)" and "pool_wf p" and "busy_ok p"
  shows "busy_ok q"
proof (rule acquire_wf_rule [where P = busy_ok, OF assms])
  fix s a i env t
  assume s: "pool_wf s" "p_unique s = p_unique p" "busy_ok s" and i: "i < length (p_slots s)"
    and sv: "servable s (p_slots s ! i) = Some a"
    and c: "consume env (p_unique p) (ep_ip (ep_of s a)) (p_store s) = ((True, None), t)"
  let ?s = "s\<lparr>p_store := t\<rparr>"
  have "table_ok t" using s(1) c by (auto simp: pool_wf_def bounds_ok_def intro: ledger.consume_good)
  then have w: "pool_wf ?s" "busy_ok ?s" using s by (simp_all add: wf_store busy_ok_def frame_simps lease_eps_def)
  have "servable ?s (p_slots ?s ! i) = Some a" using sv by (simp add: servable_Some ep_of_def)
  from busy_grant [OF w(2,1) _ this, of "acq_now acq"] i s(2)
  show "busy_ok ((if p_unique p then grant_unique else grant_reuse) (acq_now acq) i a ?s)" by simp
qed (simp_all add: busy_ok_def frame_simps lease_eps_def)

lemma shown_take:
  assumes "slot_in p i"
  shows "shown (upd_view i f (upd_slot i (\<lambda>s. s\<lparr>slot_ep := None\<rparr>) p)) =
    (shown p)[i - 1 := (view_state (f (slot_view (slot_of p i))), None)]"
proof -
  have "i - 1 < length (p_slots p)" using assms by (auto simp: slot_in_def)
  then show ?thesis
    by (auto simp: shown_def upd_view_def upd_slot_def slot_of_def map_update)
qed

lemma shown_finish_unique:
  assumes "finish_unique a err now p = Some q"
  shows "q = p \<or> (ep_onces q = (ep_onces p)[a := True] \<and> shown q =
    (if slot_ep (slot_of p (ep_id (ep_of p a))) = Some a
     then (shown p)[ep_id (ep_of p a) - 1 := (S_Rotating, Some a)] else shown p))"
proof (cases "ep_once (ep_of p a)")
  case True
  with assms show ?thesis by (simp add: finish_unique_alt Let_def)
next
  case False
  let ?iid = "ep_id (ep_of p a)"
  let ?p1 = "count_result ?iid err (upd_ep a (\<lambda>e. e\<lparr>ep_once := True, ep_last_err := err, ep_done := True\<rparr>) p)"
  have iid: "slot_in p ?iid" using assms False by (auto simp: finish_unique_alt Let_def split: if_splits)
  have lt: "?iid - 1 < length (p_slots ?p1)" using iid by (auto simp: slot_in_def frame_simps)
  have ep: "slot_ep (slot_of ?p1 ?iid) = slot_ep (slot_of p ?iid)"
    using iid by (auto simp: slot_of_def count_result_def upd_slot_def upd_ep_def slot_in_def nth_list_update)
  have "ep_onces ?p1 = (ep_onces p)[a := True]" by (simp add: frame_simps ep_onces_set)
  with assms False iid ep shown_view [OF lt, of "rotating_view err"] show ?thesis
    by (auto simp: finish_unique_alt Let_def frame_simps split: if_splits)
qed

lemma shown_finish_reuse:
  assumes "finish_reuse a err now p = Some q"
  shows "shown q = shown p \<or> (\<exists>k x. shown q = (shown p)[k := (S_Rotating, x)])"
proof -
  let ?iid = "ep_id (ep_of p a)"
  let ?p1 = "count_result ?iid err (upd_ep a (\<lambda>e. if ep_active e > 0 then e\<lparr>ep_active := ep_active e - 1\<rparr> else e) p)"
  have iid: "slot_in p ?iid" using assms by (auto simp: finish_reuse_def Let_def split: if_splits)
  have s1: "shown ?p1 = shown p" by simp
  show ?thesis
  proof (cases err)
    case None
    with assms have "q = ?p1" by (auto simp: finish_reuse_def Let_def split: if_splits)
    with s1 show ?thesis by simp
  next
    case (Some e)
    let ?p3 = "upd_ep a (\<lambda>x. x\<lparr>ep_last_err := Some e\<rparr>) ?p1"
    let ?p4 = "event_locked ?iid ''Request finished; rotating'' now
        (upd_view ?iid (\<lambda>v. v\<lparr>view_state := S_Rotating, view_last_error := error_text e\<rparr>)
          (upd_slot ?iid (\<lambda>s. s\<lparr>slot_ep := None\<rparr>) ?p3))"
    have "close_done_once a (if slot_ep (slot_of ?p3 ?iid) = Some a then ?p4 else ?p3) = Some q"
      using assms Some by (simp add: finish_reuse_def Let_def split: if_splits)
    then have "shown q = shown (if slot_ep (slot_of ?p3 ?iid) = Some a then ?p4 else ?p3)"
      by (auto simp: close_done_once_def split: if_splits)
    moreover have "slot_in ?p3 ?iid" using iid by (simp add: slot_in_def frame_simps)
    note shown_take [OF this]
    ultimately show ?thesis using s1 by auto
  qed
qed

lemma busy_finish:
  assumes "finish_lease l err now p = Some q" and "l < length (p_leases p)" and "pool_wf p" and "busy_ok p"
  shows "busy_ok q"
proof (cases "p_unique p")
  case True
  let ?a = "lease_ep (p_leases p ! l)"
  let ?iid = "ep_id (ep_of p ?a)"
  have f: "finish_unique ?a err now p = Some q" using assms(1) True by (simp add: finish_lease_def Let_def)
  have a: "?a < length (p_eps p)" by (rule wf_lease_ep [OF assms(3,2)])
  have u: "p_unique q = p_unique p" using f by (auto simp: finish_unique_alt Let_def frame_simps split: if_splits)
  from shown_finish_unique [OF f] show ?thesis
  proof
    assume "q = p"
    with assms(4) show ?thesis by simp
  next
    assume q: "ep_onces q = (ep_onces p)[?a := True] \<and> shown q =
      (if slot_ep (slot_of p ?iid) = Some ?a then (shown p)[?iid - 1 := (S_Rotating, Some ?a)] else shown p)"
    show ?thesis
    proof (rule busy_calm [OF assms(4)])
      show "calm p q" by (rule calmI) (use q u lease_eps_finish [OF assms(1)] in auto)
      fix i b
      assume i: "i < length (shown p)" and b: "shown q ! i \<in> {(S_Ready, Some b), (S_Busy, Some b)}"
      have "b \<noteq> ?a"
      proof
        assume ba: "b = ?a"
        with i b q have sp: "shown p ! i = shown q ! i" by (auto simp: nth_update_if split: if_splits)
        with i b ba have "slot_eps p ! i = Some ?a" by (auto simp: shown_nth slot_eps_def)
        moreover have "i < length (slot_eps p)" using i by (simp add: slot_eps_def)
        ultimately have "?iid = i + 1" using wf_slot_eps(2) [OF assms(3)] by metis
        moreover from this have "slot_ep (slot_of p ?iid) = Some ?a"
          using \<open>slot_eps p ! i = Some ?a\<close> i by (simp add: slot_of_def slot_eps_def)
        ultimately have "shown q ! i = (S_Rotating, Some ?a)" using q i by simp
        with b show False by simp
      qed
      with q show "ep_onces q ! b = ep_onces p ! b" by simp
    qed
  qed
next
  case False
  let ?p1 = "p\<lparr>p_leases := (p_leases p)[l := (p_leases p ! l)\<lparr>lease_once := True\<rparr>]\<rparr>"
  have "q = p \<or> finish_reuse (lease_ep (p_leases p ! l)) err now ?p1 = Some q"
    using False assms(1) by (auto simp: finish_lease_def Let_def split: if_splits)
  then have "shown q = shown p \<or> (\<exists>k x. shown q = (shown p)[k := (S_Rotating, x)])"
    using shown_finish_reuse [of "lease_ep (p_leases p ! l)" err now ?p1 q] by auto
  moreover have u: "p_unique q = p_unique p"
    using mode_step [OF _ assms(3)] step_finish [OF assms(2,1)] by blast
  ultimately have "calm p q" using lease_eps_finish [OF assms(1)] by (intro calmI) auto
  then show ?thesis by (rule busy_calm [OF assms(4)]) (use False in simp)
qed

lemma busy_withdraw:
  assumes "withdraw a p = Some q" and "busy_ok p"
  shows "busy_ok q"
proof (rule busy_calm [OF assms(2)])
  let ?iid = "ep_id (ep_of p a)"
  let ?p1 = "if p_reserved p (ep_ip (ep_of p a)) = Some a
             then p\<lparr>p_reserved := (p_reserved p)(ep_ip (ep_of p a) := None)\<rparr> else p"
  have iid: "slot_in ?p1 ?iid" and s1: "shown ?p1 = shown p"
    using assms(1) by (auto simp: withdraw_def Let_def slot_in_def split: if_splits)
  have "shown q = shown p \<or> shown q = (shown p)[?iid - 1 := (S_Rotating, None)]"
    using assms(1) shown_take [OF iid, of "\<lambda>v. v\<lparr>view_state := S_Rotating\<rparr>"] s1
    by (auto simp: withdraw_def Let_def split: if_splits)
  then have "shown q = shown p \<or> (\<exists>k x. shown q = (shown p)[k := (S_Rotating, x)])" by blast
  moreover have "lease_eps q = lease_eps p"
    using assms(1) by (auto simp: withdraw_def Let_def lease_eps_def frame_simps split: if_splits)
  ultimately show "calm p q"
    using withdraw_proj(6) [OF assms(1)] by (intro calmI) auto
qed (simp add: withdraw_proj [OF assms(1)])

lemma busy_step:
  assumes "pool_step p q" and "pool_wf p" and "p_unique p \<Longrightarrow> uniq_ok t p" and "busy_ok p"
  shows "busy_ok q"
  using assms
proof (induction rule: pool_step.induct)
  case (step_new p iid ip circuit token c)
  let ?q = "add_endpoint (new_endpoint iid ip circuit token c) p"
  have q: "shown ?q = shown p" "lease_eps ?q = lease_eps p" "p_unique ?q = p_unique p"
    "ep_onces ?q = ep_onces p @ [False]"
    by (simp_all add: add_endpoint_def shown_def lease_eps_def ep_onces_def new_endpoint_def)
  have "a < length (ep_onces p)" if "i < length (shown p)" "shown p ! i = (st, Some a)" for i st a
  proof -
    have "i < length (slot_eps p)" "slot_eps p ! i = Some a" using that by (simp_all add: slot_eps_def shown_nth)
    from wf_slot_eps(1) [OF step_new(2) this] show ?thesis by (simp add: ep_onces_def)
  qed
  then have "ep_onces ?q ! a = ep_onces p ! a" if "i < length (shown p)" "shown p ! i = (st, Some a)" for i st a
    using that by (simp add: q(4) nth_append)
  then show ?case
    by (intro busy_calm [OF step_new(4)] calmI) (auto simp: q(1-3))
next
  case (step_state st iid progress problem now p p')
  then show ?case using busy_state by blast
next
  case (step_publish a p env now r p')
  then show ?case using busy_publish by blast
next
  case (step_acquire acq p r p')
  then show ?case using busy_acquire by blast
next
  case (step_reject p)
  then show ?case by (simp add: busy_ok_def count_rejected_def shown_def lease_eps_def ep_onces_def)
next
  case (step_finish l p err now p')
  then show ?case using busy_finish by blast
next
  case (step_withdraw a p p')
  then show ?case using busy_withdraw by blast
next
  case (step_cancel a p)
  then show ?case by (simp add: busy_ok_def frame_simps lease_eps_def)
qed

lemma busy_reachable:
  assumes "pool_reachable cfg t p"
  shows "busy_ok p" and "p_unique p = UniqueIP cfg"
proof -
  obtain now where t: "table_ok t" and s: "pool_steps (new_pool cfg t now) p"
    using assms by (auto simp: pool_reachable_def)
  have "busy_ok (new_pool cfg t now)"
    by (auto simp: busy_ok_def shown_def new_pool_def new_view_def lease_eps_def)
  moreover have "p_unique (new_pool cfg t now) = UniqueIP cfg" by (simp add: new_pool_def)
  moreover have "p_unique (new_pool cfg t now) \<longrightarrow> uniq_ok t (new_pool cfg t now)"
    using uniq_new by (simp add: new_pool_def)
  ultimately have start: "pool_wf (new_pool cfg t now) \<and> busy_ok (new_pool cfg t now) \<and>
      p_unique (new_pool cfg t now) = UniqueIP cfg \<and> (p_unique (new_pool cfg t now) \<longrightarrow> uniq_ok t (new_pool cfg t now))"
    using wf_new_pool [OF t] by simp
  from s have "pool_wf p \<and> busy_ok p \<and> p_unique p = UniqueIP cfg \<and> (p_unique p \<longrightarrow> uniq_ok t p)"
  proof (induction rule: rtranclp_induct)
    case base
    show ?case by (rule start)
  next
    case (step q r)
    then show ?case using wf_step busy_step mode_step uniq_step by metis
  qed
  then show "busy_ok p" "p_unique p = UniqueIP cfg" by simp_all
qed

section \<open>What a snapshot shows\<close>

definition all_states :: "inst_state list" where
  "all_states = [S_Starting, S_Bootstrapping, S_Checking, S_Ready, S_Busy, S_Rotating, S_Retrying,
     S_Restarting, S_Error, S_Stopped]"

lemma states_sum:
  "sum_list (map (\<lambda>st. length (filter (\<lambda>x. f x = st) xs)) all_states) = length xs"
proof (induction xs)
  case (Cons x xs)
  then show ?case by (cases "f x") (simp_all add: all_states_def)
qed (simp add: all_states_def)

lemma count_filter: "count_list (map f xs) a = length (filter (\<lambda>x. f x = a) xs)"
  by (induction xs) auto

text \<open>
  Claim C11. Every snapshot the dashboard gets is well formed and says the truth about the pool it was
  taken from: the instances are numbered from one to the configured count, each of them is counted in exactly one state,
  there are at most a hundred events and no more used addresses than known ones. An instance shown as Ready or Busy has
  an endpoint; Busy is shown only in unique mode and means exactly one unfinished lease, of this instance, on that
  endpoint, and Ready means in unique mode that nobody ever got this endpoint.
\<close>

theorem snapshot_truthful:
  assumes "pool_reachable cfg t p" and "pool_snapshot err tab p = (snap, e)"
  shows "map view_id (snap_instances snap) = [1..<Suc (TorCount cfg)] \<and>
    sum_list (map (snap_states snap) all_states) = TorCount cfg \<and>
    length (snap_events snap) \<le> 100 \<and> snap_used_ips snap \<le> snap_known_ips snap \<and>
    (\<forall>i < TorCount cfg.
       (view_state (snap_instances snap ! i) = S_Ready \<longrightarrow>
          (\<exists>a. slot_ep (p_slots p ! i) = Some a \<and> (UniqueIP cfg \<longrightarrow> (\<forall>ls \<in> set (p_leases p). lease_ep ls \<noteq> a)))) \<and>
       (view_state (snap_instances snap ! i) = S_Busy \<longrightarrow> UniqueIP cfg \<and>
          (\<exists>a ls. slot_ep (p_slots p ! i) = Some a \<and> filter (\<lambda>ls. lease_ep ls = a) (p_leases p) = [ls] \<and>
             lease_instance ls = i + 1 \<and> \<not> lease_finished p ls)))"
proof -
  have wf: "pool_wf p" by (rule wf_reachable [OF assms(1)])
  have n: "length (p_slots p) = TorCount cfg" by (rule size_reachable [OF assms(1)])
  have ok: "busy_ok p" and u: "p_unique p = UniqueIP cfg" by (rule busy_reachable [OF assms(1)])+
  have snap: "snap_instances snap = map slot_view (p_slots p)"
    "snap_states snap = (\<lambda>st. length (filter (\<lambda>s. view_state (slot_view s) = st) (p_slots p)))"
    "snap_events snap = p_events p"
    "(snap_known_ips snap, snap_used_ips snap) = fst (counts err tab)"
    using assms(2) by (auto simp: pool_snapshot_def split: prod.splits)
  have sl: "slot_ok (p_eps p) i (p_slots p ! i)" if "i < TorCount cfg" for i
    using wf that n by (simp add: pool_wf_def slots_ok_def)
  have "map view_id (snap_instances snap) = [1..<Suc (TorCount cfg)]"
    using sl n by (intro nth_equalityI) (auto simp: snap slot_ok_def simp del: upt_Suc)
  moreover have "sum_list (map (snap_states snap) all_states) = TorCount cfg"
    using states_sum [of "\<lambda>s. view_state (slot_view s)" "p_slots p"] n by (simp add: snap)
  moreover have "length (snap_events snap) \<le> 100" using wf by (simp add: snap pool_wf_def bounds_ok_def)
  moreover have "snap_used_ips snap \<le> snap_known_ips snap"
    using snap(4) by (auto simp: counts_def split: option.splits)
  moreover have "\<exists>a. slot_ep (p_slots p ! i) = Some a \<and> (UniqueIP cfg \<longrightarrow> (\<forall>ls \<in> set (p_leases p). lease_ep ls \<noteq> a))"
    if i: "i < TorCount cfg" and st: "view_state (snap_instances snap ! i) = S_Ready" for i
  proof -
    have s: "view_state (slot_view (p_slots p ! i)) = S_Ready" using st i n by (simp add: snap)
    then obtain a where a: "slot_ep (p_slots p ! i) = Some a" using sl [OF i] by (auto simp: slot_ok_def)
    then have "shown p ! i = (S_Ready, Some a)" using i n s by (simp add: shown_nth)
    moreover have "i < length (p_slots p)" using i n by simp
    ultimately have "UniqueIP cfg \<longrightarrow> a \<notin> set (lease_eps p)" using ok u unfolding busy_ok_def shown_len by metis
    with a show ?thesis by (auto simp: lease_eps_def)
  qed
  moreover have "UniqueIP cfg \<and> (\<exists>a ls. slot_ep (p_slots p ! i) = Some a \<and>
      filter (\<lambda>ls. lease_ep ls = a) (p_leases p) = [ls] \<and> lease_instance ls = i + 1 \<and> \<not> lease_finished p ls)"
    if i: "i < TorCount cfg" and st: "view_state (snap_instances snap ! i) = S_Busy" for i
  proof -
    have s: "view_state (slot_view (p_slots p ! i)) = S_Busy" using st i n by (simp add: snap)
    then obtain a where a: "slot_ep (p_slots p ! i) = Some a" using sl [OF i] by (auto simp: slot_ok_def)
    then have sh: "shown p ! i = (S_Busy, Some a)" using i n s by (simp add: shown_nth)
    have i': "i < length (p_slots p)" using i n by simp
    with sh have U: "UniqueIP cfg" using ok u unfolding busy_ok_def shown_len by (metis fst_conv)
    then have c: "count_list (lease_eps p) a = 1" "\<not> ep_onces p ! a"
      using ok i' u sh unfolding busy_ok_def shown_len by metis+
    then have "length (filter (\<lambda>ls. lease_ep ls = a) (p_leases p)) = 1"
      unfolding lease_eps_def count_filter by simp
    then obtain ls where ls: "filter (\<lambda>ls. lease_ep ls = a) (p_leases p) = [ls]"
      by (auto simp: length_Suc_conv)
    then have "ls \<in> set (filter (\<lambda>ls. lease_ep ls = a) (p_leases p))" by simp
    then obtain l where l: "l < length (p_leases p)" "ls = p_leases p ! l" "lease_ep ls = a"
      by (auto simp: in_set_conv_nth)
    have id: "ep_id (p_eps p ! a) = i + 1" "a < length (p_eps p)" using sl [OF i] a by (simp_all add: slot_ok_def)
    have "lease_instance ls = i + 1" using wf l id by (auto simp: pool_wf_def leases_ok_def)
    moreover have "\<not> lease_finished p ls"
      using c(2) l(3) id(2) U u by (simp add: lease_finished_def ep_onces_def)
    ultimately show ?thesis using U a ls by blast
  qed
  ultimately show ?thesis by blast
qed

theorem snapshot_truthful_witness:
  "view_state (snap_instances (fst (pool_snapshot None [] (demo_pool True demo_serve))) ! 1) = S_Busy \<and>
   (\<exists>a ls. slot_ep (p_slots (demo_pool True demo_serve) ! 1) = Some a \<and>
      filter (\<lambda>ls. lease_ep ls = a) (p_leases (demo_pool True demo_serve)) = [ls] \<and> lease_instance ls = 2 \<and>
      \<not> lease_finished (demo_pool True demo_serve) ls)"
proof -
  let ?p = "demo_pool True demo_serve"
  have r: "pool_reachable (demo_cfg True) [] ?p" by (rule demo_reachable) code_simp
  have n: "TorCount (demo_cfg True) = 2" by (simp add: demo_cfg_def)
  have st: "view_state (snap_instances (fst (pool_snapshot None [] ?p)) ! 1) = S_Busy" by code_simp
  have "\<forall>i < 2. view_state (snap_instances (fst (pool_snapshot None [] ?p)) ! i) = S_Busy \<longrightarrow>
      (\<exists>a ls. slot_ep (p_slots ?p ! i) = Some a \<and> filter (\<lambda>ls. lease_ep ls = a) (p_leases ?p) = [ls] \<and>
         lease_instance ls = i + 1 \<and> \<not> lease_finished ?p ls)"
    using snapshot_truthful [OF r prod.collapse [symmetric], of None "[]"] unfolding n by blast
  from this [rule_format, of 1] st show ?thesis by (simp add: numeral_2_eq_2)
qed

end
