(* ===== verification/ExitSystem.thy ===== *)
theory ExitSystem
  imports CycleProps SessionProps
begin

text \<open>
  Workers, pool and sessions together. Workers run the cycles of \<open>Cycle\<close> step by step on one pool, set and clear the
  endpoint their session attaches streams for, and requests, sessions and timers act on the pool at any moment in
  between. The invariant ties what is current, what is offered and what is leased to the cycle that made it.
\<close>

section \<open>What a worker still has to do\<close>

text \<open>
  The order of the calls: the endpoint becomes current before it is published, and stays current until it is withdrawn.
\<close>

fun current_ok :: "bool \<Rightarrow> bool \<Rightarrow> cycle_act list \<Rightarrow> bool" where
  "current_ok cur held [] \<longleftrightarrow> \<not> cur \<and> \<not> held"
| "current_ok cur held (act # acts) \<longleftrightarrow>
     (case act of
        Cy_Current (Some x) \<Rightarrow> \<not> cur \<and> \<not> held \<and> current_ok True False acts
      | Cy_Current None \<Rightarrow> \<not> held \<and> current_ok False False acts
      | Cy_Publish ip r \<Rightarrow> cur \<and> \<not> held \<and> current_ok True (r = (True, None)) acts
      | Cy_Withdraw \<Rightarrow> current_ok cur False acts
      | _ \<Rightarrow> current_ok cur held acts)"

fun quiet_act :: "cycle_act \<Rightarrow> bool" where
  "quiet_act (Cy_Current x) \<longleftrightarrow> False"
| "quiet_act (Cy_Publish ip r) \<longleftrightarrow> False"
| "quiet_act Cy_Withdraw \<longleftrightarrow> False"
| "quiet_act _ \<longleftrightarrow> True"

lemma current_quiet [simp]: "list_all quiet_act xs \<Longrightarrow> current_ok c h (xs @ acts) = current_ok c h acts"
proof (induction xs)
  case (Cons x xs)
  then show ?case by (cases x) auto
qed simp

lemma await_quiet: "list_all quiet_act (snd (await_built c e a rest))"
  using await_acts [of _ c e a rest] by (fastforce simp: list_all_iff)

lemma drain_quiet: "list_all quiet_act (drain_reuse ticks left)"
  by (induction ticks left rule: drain_reuse.induct) auto

lemma keeps_quiet: "list_all quiet_act (snd (keeps_failing env))"
  by (simp add: keeps_failing_def)

lemma serve_current:
  assumes "(if unique then cycle_unique env ip else cycle_reuse env ip) = (r, acts)"
  shows "current_ok True False (acts @ Cy_Current None # tail) = current_ok False False tail"
proof -
  have [simp]: "current_ok c h (reads @ rest) = current_ok c h rest"
    if "keeps_failing env = (b, reads)" for c h b reads rest
    using keeps_quiet [of env] that by simp
  have [simp]: "current_ok c h (drain_reuse ticks left @ rest) = current_ok c h rest" for c h ticks left rest
    using drain_quiet by (rule current_quiet)
  show ?thesis
    using assms
    by (auto simp: cycle_unique_def cycle_reuse_def Let_def
        split: prod.splits option.splits wake.splits if_splits)
qed

lemma cycle_current: "current_ok False False (snd (cycle unique env))"
proof -
  have e: "current_ok False False (acts @ [Cy_Command x])" if "cycle_endpoint unique env circuit = (r, acts)"
    for circuit x r acts
    using that serve_current [where env = env and unique = unique]
    by (auto simp: cycle_endpoint_def Let_def split: sum.splits option.splits prod.splits)
  have a: "current_ok False False (polls @ rest) = current_ok False False rest"
    if "await_built c x s ps = (r, polls)" for c x s ps r polls rest
    using await_quiet [of c x s ps] that by simp
  show ?thesis
    using e by (auto simp: cycle_def Let_def a split: sum.splits option.splits prod.splits)
qed

section \<open>The system\<close>

text \<open>
  The pool, the endpoint each instance's session attaches streams for, what each worker still has to do in its cycle (with
  the answers its cycle gets and the endpoint it made), and for each endpoint the answers of the cycle that made it.
\<close>

record exit_system =
  xs_pool :: pool
  xs_current :: "nat \<rightharpoonup> nat"
  xs_work :: "nat \<rightharpoonup> cycle_env \<times> cycle_act list \<times> nat option"
  xs_origin :: "cycle_env list"

text \<open>\<open>setEndpoint\<close> of the session of one instance.\<close>

definition set_endpoint :: "nat \<Rightarrow> nat option \<Rightarrow> (nat \<rightharpoonup> nat) \<Rightarrow> (nat \<rightharpoonup> nat)" where
  [simp]: "set_endpoint iid x cur = cur(iid := x)"

definition checked_ip :: "cycle_env \<Rightarrow> string" where
  "checked_ip env = (case check_ip (ce_check env) of Inl e \<Rightarrow> '''' | Inr ip \<Rightarrow> ip)"

definition tokens :: "pool \<Rightarrow> string list" where
  "tokens p = map ep_token (p_eps p)"

text \<open>The operations of everyone but the workers' cycles.\<close>

fun others_op :: "pool_op \<Rightarrow> bool" where
  "others_op (Op_New iid ip circuit token c) \<longleftrightarrow> False"
| "others_op (Op_Publish env now a) \<longleftrightarrow> False"
| "others_op (Op_Withdraw a) \<longleftrightarrow> False"
| "others_op _ \<longleftrightarrow> True"

text \<open>
  The steps of one worker's goroutine in its cycles, and of the whole program: a step of some worker or an
  operation of somebody else on the pool.
\<close>

inductive cycle_step :: "bool \<Rightarrow> nat \<Rightarrow> exit_system \<Rightarrow> exit_system \<Rightarrow> bool" for unique iid where
  ex_begin: "slot_in (xs_pool s) iid \<Longrightarrow> xs_work s iid = None \<Longrightarrow>
    cycle_step unique iid s (s\<lparr>xs_work := (xs_work s)(iid \<mapsto> (env, snd (cycle unique env), None))\<rparr>)"
| ex_current: "xs_work s iid = Some (env, Cy_Current (Some (circuit, token)) # acts, at) \<Longrightarrow>
    token \<notin> set (tokens (xs_pool s)) \<Longrightarrow>
    cycle_step unique iid s
      (s\<lparr>xs_pool := add_endpoint (new_endpoint iid (checked_ip env) circuit token dead) (xs_pool s),
         xs_current := set_endpoint iid (Some (length (p_eps (xs_pool s)))) (xs_current s),
         xs_work := (xs_work s)(iid \<mapsto> (env, acts, Some (length (p_eps (xs_pool s))))),
         xs_origin := xs_origin s @ [env]\<rparr>)"
| ex_publish: "xs_work s iid = Some (env, Cy_Publish ip r # acts, Some a) \<Longrightarrow>
    publish sql now a (xs_pool s) = Some (r, p) \<Longrightarrow>
    cycle_step unique iid s (s\<lparr>xs_pool := p, xs_work := (xs_work s)(iid \<mapsto> (env, acts, Some a))\<rparr>)"
| ex_withdraw: "xs_work s iid = Some (env, Cy_Withdraw # acts, Some a) \<Longrightarrow> withdraw a (xs_pool s) = Some p \<Longrightarrow>
    cycle_step unique iid s (s\<lparr>xs_pool := p, xs_work := (xs_work s)(iid \<mapsto> (env, acts, Some a))\<rparr>)"
| ex_clear: "xs_work s iid = Some (env, Cy_Current None # acts, at) \<Longrightarrow>
    cycle_step unique iid s (s\<lparr>xs_current := set_endpoint iid None (xs_current s), xs_work := (xs_work s)(iid \<mapsto> (env, acts, at))\<rparr>)"
| ex_cancel: "xs_work s iid = Some (env, Cy_Cancel # acts, at) \<Longrightarrow>
    cycle_step unique iid s (s\<lparr>xs_pool := (case at of None \<Rightarrow> xs_pool s | Some a \<Rightarrow> cancel_ep a (xs_pool s)),
      xs_work := (xs_work s)(iid \<mapsto> (env, acts, at))\<rparr>)"
| ex_quiet: "xs_work s iid = Some (env, act # acts, at) \<Longrightarrow> quiet_act act \<Longrightarrow> act \<noteq> Cy_Cancel \<Longrightarrow>
    (\<forall>a. at = Some a \<longrightarrow> pool_sees a act (xs_pool s)) \<Longrightarrow>
    cycle_step unique iid s (s\<lparr>xs_work := (xs_work s)(iid \<mapsto> (env, acts, at))\<rparr>)"
| ex_end: "xs_work s iid = Some (env, [], at) \<Longrightarrow> cycle_step unique iid s (s\<lparr>xs_work := (xs_work s)(iid := None)\<rparr>)"

inductive exit_step :: "bool \<Rightarrow> exit_system \<Rightarrow> exit_system \<Rightarrow> bool" for unique where
  ex_worker: "cycle_step unique iid s s' \<Longrightarrow> exit_step unique s s'"
| ex_other: "others_op op \<Longrightarrow> pool_exec op (xs_pool s) = Some p \<Longrightarrow> exit_step unique s (s\<lparr>xs_pool := p\<rparr>)"

definition exit_start :: "config \<Rightarrow> ip_table \<Rightarrow> gotime \<Rightarrow> exit_system" where
  "exit_start cfg t now =
     \<lparr>xs_pool = new_pool cfg t now, xs_current = Map.empty, xs_work = Map.empty, xs_origin = []\<rparr>"

definition exit_reachable :: "config \<Rightarrow> ip_table \<Rightarrow> exit_system \<Rightarrow> bool" where
  "exit_reachable cfg t s \<longleftrightarrow> table_ok t \<and> (\<exists>now. (exit_step (UniqueIP cfg))\<^sup>*\<^sup>* (exit_start cfg t now) s)"

section \<open>The invariant\<close>

text \<open>What no operation of the pool changes in an endpoint.\<close>

definition ep_tags :: "pool \<Rightarrow> (nat \<times> string \<times> string \<times> string) list" where
  "ep_tags p = map (\<lambda>e. (ep_id e, ep_ip e, ep_circuit e, ep_token e)) (p_eps p)"

lemma ep_tags_upd:
  assumes "\<And>e. ep_id (f e) = ep_id e \<and> ep_ip (f e) = ep_ip e \<and> ep_circuit (f e) = ep_circuit e \<and> ep_token (f e) = ep_token e"
  shows "ep_tags (upd_ep a f p) = ep_tags p"
  using assms by (simp add: ep_tags_def upd_ep_def map_update_same)

lemma ep_tags_same: "p_eps q = p_eps p \<Longrightarrow> ep_tags q = ep_tags p"
  by (simp add: ep_tags_def)

lemma ep_tags_cancel: "ep_tags (cancel_ep a p) = ep_tags p"
  unfolding cancel_ep_def by (rule ep_tags_upd) simp

lemma ep_tags_frames:
  "ep_tags (event_locked i m now p) = ep_tags p" "ep_tags (upd_view i f p) = ep_tags p"
  "ep_tags (upd_slot i g p) = ep_tags p" "ep_tags (count_result i e p) = ep_tags p"
  "ep_tags (p\<lparr>p_store := t\<rparr>) = ep_tags p" "ep_tags (p\<lparr>p_leases := ls\<rparr>) = ep_tags p"
  "ep_tags (p\<lparr>p_reserved := rs\<rparr>) = ep_tags p" "ep_tags (p\<lparr>p_revision := rv\<rparr>) = ep_tags p"
  by (simp_all add: ep_tags_def frame_simps)

lemma ep_tags_acquire: "acquire_locked acq p = (r, q) \<Longrightarrow> ep_tags q = ep_tags p"
proof (rule acquire_rule [where P = "\<lambda>q. ep_tags q = ep_tags p"])
  fix q a i env t
  assume q: "ep_tags q = ep_tags p"
  show "ep_tags ((if p_unique p then grant_unique else grant_reuse) (acq_now acq) i a (q\<lparr>p_store := t\<rparr>)) = ep_tags p"
    using q by (simp add: ep_tags_def grant_proj map_update_same)
qed (simp_all add: ep_tags_cancel ep_tags_frames)

lemma ep_tags_finish: "finish_lease l err now p = Some q \<Longrightarrow> ep_tags q = ep_tags p"
proof -
  have upd: "ep_tags (upd_ep a (\<lambda>e. e\<lparr>ep_once := True, ep_last_err := er, ep_done := True\<rparr>) q) = ep_tags q"
    "ep_tags (upd_ep a (\<lambda>x. x\<lparr>ep_last_err := er\<rparr>) q) = ep_tags q"
    "ep_tags (upd_ep a (\<lambda>e. e\<lparr>ep_once := True, ep_done := True\<rparr>) q) = ep_tags q"
    "ep_tags (upd_ep a (\<lambda>e. if ep_active e > 0 then e\<lparr>ep_active := ep_active e - 1\<rparr> else e) q) = ep_tags q" for a er q
    by (rule ep_tags_upd; simp)+
  assume "finish_lease l err now p = Some q"
  then show ?thesis
    by (cases "p_unique p"; cases err)
      (auto simp: finish_lease_def finish_unique_alt finish_reuse_def close_done_once_def Let_def ep_tags_frames upd
        split: if_splits)
qed

lemma ep_tags_exec:
  assumes "others_op op" and "pool_exec op p = Some q"
  shows "ep_tags q = ep_tags p"
proof (cases op)
  case (Op_State iid st progress problem now)
  with assms(2) have "pool_state iid st progress problem now p = Some q" by (simp split: if_splits)
  then show ?thesis by (intro ep_tags_same) (simp add: pool_state_frame)
next
  case (Op_Acquire acq)
  with assms(2) show ?thesis by (auto intro: ep_tags_acquire [OF prod.collapse [symmetric]])
next
  case Op_Reject
  with assms(2) show ?thesis by (auto simp: count_rejected_def ep_tags_def)
next
  case (Op_Finish l err now)
  with assms(2) show ?thesis by (auto intro: ep_tags_finish split: if_splits)
next
  case (Op_Cancel a)
  with assms(2) show ?thesis by (auto simp: ep_tags_cancel split: if_splits)
qed (use assms(1) in simp_all)

text \<open>Leases are only given on endpoints that are offered.\<close>

lemma lease_eps_acquire:
  assumes "acquire_locked acq p = (r, q)"
  shows "set (lease_eps q) \<subseteq> set (lease_eps p) \<union> {b. Some b \<in> set (slot_eps p)}"
proof -
  have "slot_eps q = slot_eps p \<and> set (lease_eps q) \<subseteq> set (lease_eps p) \<union> {b. Some b \<in> set (slot_eps p)}"
  proof (rule acquire_rule [where P = "\<lambda>q. slot_eps q = slot_eps p \<and>
      set (lease_eps q) \<subseteq> set (lease_eps p) \<union> {b. Some b \<in> set (slot_eps p)}", OF assms])
    fix q a i env t
    assume q: "slot_eps q = slot_eps p \<and> set (lease_eps q) \<subseteq> set (lease_eps p) \<union> {b. Some b \<in> set (slot_eps p)}"
      and i: "i < length (p_slots q)" and sv: "servable q (p_slots q ! i) = Some a"
    have "Some a \<in> set (slot_eps q)"
      using i sv by (auto simp: servable_Some slot_eps_def intro!: image_eqI [of _ _ "p_slots q ! i"])
    with q show "slot_eps ((if p_unique p then grant_unique else grant_reuse) (acq_now acq) i a (q\<lparr>p_store := t\<rparr>)) = slot_eps p \<and>
        set (lease_eps ((if p_unique p then grant_unique else grant_reuse) (acq_now acq) i a (q\<lparr>p_store := t\<rparr>)))
          \<subseteq> set (lease_eps p) \<union> {b. Some b \<in> set (slot_eps p)}"
      by (auto simp: lease_eps_def grant_proj grant_unique_proj grant_frames frame_simps)
  qed (simp_all add: frame_simps lease_eps_def)
  then show ?thesis ..
qed

lemma others_leases:
  assumes "others_op op" and "pool_exec op p = Some q"
  shows "set (lease_eps q) \<subseteq> set (lease_eps p) \<union> {b. Some b \<in> set (slot_eps p)}"
proof (cases op)
  case (Op_State iid st progress problem now)
  with assms(2) have "pool_state iid st progress problem now p = Some q" by (simp split: if_splits)
  then show ?thesis by (simp add: lease_eps_def pool_state_frame)
next
  case (Op_Acquire acq)
  with assms(2) show ?thesis using lease_eps_acquire [OF prod.collapse [symmetric], of acq p] by simp
next
  case Op_Reject
  with assms(2) show ?thesis by (auto simp: count_rejected_def lease_eps_def)
next
  case (Op_Finish l err now)
  with assms(2) have "finish_lease l err now p = Some q" by (simp split: if_splits)
  then show ?thesis by (simp add: lease_eps_finish)
next
  case (Op_Cancel a)
  with assms(2) show ?thesis by (auto simp: lease_eps_def frame_simps split: if_splits)
qed (use assms(1) in simp_all)

text \<open>The endpoint was made by a cycle with these answers.\<close>

definition made_by :: "bool \<Rightarrow> cycle_env \<Rightarrow> nat \<times> string \<times> string \<times> string \<Rightarrow> bool" where
  "made_by unique env tag \<longleftrightarrow> (case tag of (iid, ip, circuit, token) \<Rightarrow>
     Cy_Current (Some (circuit, token)) \<in> set (snd (cycle unique env)) \<and> ip = checked_ip env)"

definition made_ok :: "bool \<Rightarrow> exit_system \<Rightarrow> bool" where
  "made_ok unique s \<longleftrightarrow> list_all2 (made_by unique) (xs_origin s) (ep_tags (xs_pool s)) \<and> distinct (tokens (xs_pool s))"

definition publishes :: "bool \<Rightarrow> cycle_env \<Rightarrow> bool" where
  "publishes unique env \<longleftrightarrow> (\<exists>ip x. Cy_Publish ip x \<in> set (snd (cycle unique env)))"

definition used_ok :: "bool \<Rightarrow> exit_system \<Rightarrow> bool" where
  "used_ok unique s \<longleftrightarrow> (\<forall>a. Some a \<in> set (slot_eps (xs_pool s)) \<or> a \<in> set (lease_eps (xs_pool s)) \<longrightarrow> publishes unique (xs_origin s ! a))"

text \<open>
  What a worker still has to do fits what is current and what is offered, and both are the endpoint of its own cycle.
\<close>

definition work_ok ::
  "bool \<Rightarrow> exit_system \<Rightarrow> nat \<Rightarrow> bool" where
  "work_ok unique s iid \<longleftrightarrow>
     (let p = xs_pool s; cur = xs_current s iid; offered = slot_ep (slot_of p iid) in
      case xs_work s iid of
        None \<Rightarrow> cur = None \<and> (slot_in p iid \<longrightarrow> offered = None)
      | Some (env, acts, at) \<Rightarrow>
          slot_in p iid \<and> suffix acts (snd (cycle unique env)) \<and>
          (\<exists>held. current_ok (cur \<noteq> None) held acts \<and> (offered \<noteq> None \<longrightarrow> held)) \<and>
          (cur \<noteq> None \<longrightarrow> cur = at) \<and> (offered \<noteq> None \<longrightarrow> offered = at \<and> cur = at) \<and>
          (\<forall>a. at = Some a \<longrightarrow> a < length (p_eps p) \<and> ep_id (ep_of p a) = iid \<and> xs_origin s ! a = env))"

lemma work_ok_Some:
  assumes "xs_work s iid = Some (env, acts, at)"
  shows "work_ok unique s iid \<longleftrightarrow>
    slot_in (xs_pool s) iid \<and> suffix acts (snd (cycle unique env)) \<and>
    (\<exists>held. current_ok (xs_current s iid \<noteq> None) held acts \<and> (slot_ep (slot_of (xs_pool s) iid) \<noteq> None \<longrightarrow> held)) \<and>
    (xs_current s iid \<noteq> None \<longrightarrow> xs_current s iid = at) \<and>
    (slot_ep (slot_of (xs_pool s) iid) \<noteq> None \<longrightarrow>
       slot_ep (slot_of (xs_pool s) iid) = at \<and> xs_current s iid = at) \<and>
    (\<forall>a. at = Some a \<longrightarrow> a < length (p_eps (xs_pool s)) \<and> ep_id (ep_of (xs_pool s) a) = iid \<and> xs_origin s ! a = env)"
  using assms by (simp add: work_ok_def Let_def)

definition exit_ok :: "bool \<Rightarrow> exit_system \<Rightarrow> bool" where
  "exit_ok unique s \<longleftrightarrow> pool_wf (xs_pool s) \<and> made_ok unique s \<and> used_ok unique s \<and> (\<forall>iid. work_ok unique s iid)"

lemma exit_ok_start:
  assumes "table_ok t"
  shows "exit_ok unique (exit_start cfg t now)"
proof -
  have "slot_ep (slot_of (new_pool cfg t now) iid) = None" if "slot_in (new_pool cfg t now) iid" for iid
    using that by (auto simp: new_pool_def slot_of_def slot_in_def)
  moreover have "p_eps (new_pool cfg t now) = []" "p_leases (new_pool cfg t now) = []"
    "Some a \<notin> set (slot_eps (new_pool cfg t now))" for a
    by (auto simp: new_pool_def slot_eps_def)
  ultimately show ?thesis
    using wf_new_pool [OF assms]
    by (simp add: exit_ok_def made_ok_def used_ok_def work_ok_def exit_start_def ep_tags_def tokens_def lease_eps_def)
qed

text \<open>A worker does not notice what the others do, except that its offer may be taken away.\<close>

lemma work_ok_other:
  assumes "work_ok unique s j" and "pool_wf (xs_pool s)" and "pool_other j (xs_pool s) (xs_pool s')"
    and "xs_work s' j = xs_work s j" and "xs_current s' j = xs_current s j"
    and "prefix (xs_origin s) (xs_origin s')" and "length (xs_origin s) = length (p_eps (xs_pool s))"
  shows "work_ok unique s' j"
proof -
  let ?p = "xs_pool s" and ?q = "xs_pool s'"
  have k: "eps_kept ?p ?q" by (rule other_kept [OF assms(3)])
  have "pool_step ?p ?q" using assms(3) pool_exec_step by (auto simp: pool_other_def)
  then have len: "slot_in ?q j = slot_in ?p j" using size_step by (simp add: slot_in_def)
  show ?thesis
  proof (cases "slot_in ?p j")
    case False
    with assms(1,4,5) len show ?thesis by (auto simp: work_ok_def Let_def split: option.splits)
  next
    case True
    have o: "slot_ep (slot_of ?q j) = None \<or> slot_ep (slot_of ?q j) = slot_ep (slot_of ?p j)"
      using other_offers [OF assms(3,2) True] by simp
    show ?thesis
    proof (cases "xs_work s j")
      case None
      with assms(1,4,5) o len True show ?thesis by (auto simp: work_ok_def Let_def)
    next
      case (Some w)
      obtain env acts at where w: "w = (env, acts, at)" by (cases w)
      note ok = assms(1) [unfolded work_ok_Some [OF Some [unfolded w]]]
      have at: "\<forall>a. at = Some a \<longrightarrow> a < length (p_eps ?q) \<and> ep_id (ep_of ?q a) = j \<and> xs_origin s' ! a = env"
      proof (intro allI impI)
        fix a
        assume "at = Some a"
        with ok have a: "a < length (p_eps ?p)" "ep_id (ep_of ?p a) = j" "xs_origin s ! a = env" by simp_all
        with k assms(6,7) show "a < length (p_eps ?q) \<and> ep_id (ep_of ?q a) = j \<and> xs_origin s' ! a = env"
          by (auto simp: eps_kept_def prefix_def nth_append)
      qed
      from ok obtain held where h: "current_ok (xs_current s j \<noteq> None) held acts" "slot_ep (slot_of ?p j) \<noteq> None \<longrightarrow> held"
        by blast
      from ok have rest: "suffix acts (snd (cycle unique env))" "xs_current s j \<noteq> None \<longrightarrow> xs_current s j = at"
        and off: "slot_ep (slot_of ?p j) \<noteq> None \<longrightarrow> slot_ep (slot_of ?p j) = at \<and> xs_current s j = at"
        by blast+
      have "slot_ep (slot_of ?q j) \<noteq> None \<longrightarrow> held" "slot_ep (slot_of ?q j) \<noteq> None \<longrightarrow>
          slot_ep (slot_of ?q j) = at \<and> xs_current s j = at"
        using o h(2) off by auto
      moreover have "xs_work s' j = Some (env, acts, at)" using assms(4) Some w by simp
      note new = work_ok_Some [OF this, of unique]
      ultimately show ?thesis
        unfolding new assms(5) using h(1) at rest True len by blast
    qed
  qed
qed

text \<open>The same for a step that leaves the pool as it is.\<close>

lemma work_ok_same:
  assumes "work_ok unique s j" and "xs_pool s' = xs_pool s" and "xs_origin s' = xs_origin s"
    and "xs_work s' j = xs_work s j" and "xs_current s' j = xs_current s j"
  shows "work_ok unique s' j"
  using assms(1) unfolding work_ok_def assms(2-5) .

text \<open>Facts about the pool that every step of the system shares.\<close>

lemma made_kept:
  assumes "made_ok unique s" and "xs_origin s' = xs_origin s" and "ep_tags (xs_pool s') = ep_tags (xs_pool s)"
  shows "made_ok unique s'"
proof -
  have t: "tokens p = map (\<lambda>(i, ip, c, t). t) (ep_tags p)" for p
    by (simp add: tokens_def ep_tags_def)
  from assms show ?thesis by (simp add: made_ok_def t)
qed

lemma made_length: "made_ok unique s \<Longrightarrow> length (xs_origin s) = length (p_eps (xs_pool s))"
  using list_all2_lengthD by (fastforce simp: made_ok_def ep_tags_def)

lemma used_kept:
  assumes "used_ok unique s" and "xs_origin s' = xs_origin s"
    and "\<And>a. Some a \<in> set (slot_eps (xs_pool s')) \<Longrightarrow> Some a \<in> set (slot_eps (xs_pool s))"
    and "set (lease_eps (xs_pool s')) \<subseteq> set (lease_eps (xs_pool s)) \<union> {a. Some a \<in> set (slot_eps (xs_pool s))}"
  shows "used_ok unique s'"
  unfolding used_ok_def
proof (intro allI impI)
  fix a
  assume "Some a \<in> set (slot_eps (xs_pool s')) \<or> a \<in> set (lease_eps (xs_pool s'))"
  then have "Some a \<in> set (slot_eps (xs_pool s)) \<or> a \<in> set (lease_eps (xs_pool s))"
    using assms(3) [of a] assms(4) by auto
  with assms(1) show "publishes unique (xs_origin s' ! a)"
    unfolding used_ok_def assms(2) by blast
qed

lemma fewer_set:
  assumes "fewer_eps q p" and "Some a \<in> set (slot_eps q)"
  shows "Some a \<in> set (slot_eps p)"
proof -
  obtain i where i: "i < length (slot_eps q)" "slot_eps q ! i = Some a" using assms(2) by (metis in_set_conv_nth)
  with assms(1) have "i < length (slot_eps p)" "slot_eps p ! i = Some a" by (auto simp: fewer_eps_def)
  then show ?thesis by (metis nth_mem)
qed

lemma others_fewer:
  assumes "others_op op" and "pool_exec op p = Some q"
  shows "fewer_eps q p"
proof (cases op)
  case (Op_State iid st progress problem now)
  with assms(2) have "pool_state iid st progress problem now p = Some q" by (simp split: if_splits)
  then show ?thesis by (simp add: pool_state_frame)
next
  case (Op_Acquire acq)
  with assms(2) show ?thesis using acquire_frames [OF prod.collapse [symmetric], of acq p] by simp
next
  case Op_Reject
  with assms(2) show ?thesis by (auto simp: count_rejected_def slot_eps_def)
next
  case (Op_Finish l err now)
  with assms(2) have "finish_lease l err now p = Some q" by (simp split: if_splits)
  then show ?thesis by (rule finish_fewer)
next
  case (Op_Cancel a)
  with assms(2) show ?thesis by (auto simp: frame_simps split: if_splits)
qed (use assms(1) in simp_all)

lemma exit_ok_still:
  assumes "exit_ok unique s" and "xs_pool s' = xs_pool s" and "xs_origin s' = xs_origin s"
    and "\<And>j. j \<noteq> iid \<Longrightarrow> xs_work s' j = xs_work s j \<and> xs_current s' j = xs_current s j"
    and "work_ok unique s' iid"
  shows "exit_ok unique s'"
proof -
  have "work_ok unique s' j" for j
  proof (cases "j = iid")
    case False
    with assms(4) show ?thesis
      by (intro work_ok_same [OF _ assms(2,3)]) (use assms(1) in \<open>simp_all add: exit_ok_def\<close>)
  qed (use assms(5) in simp)
  with assms(1-3) show ?thesis by (simp add: exit_ok_def made_ok_def used_ok_def)
qed

lemma exit_ok_moved:
  assumes "exit_ok unique s" and "\<And>j. j \<noteq> iid \<Longrightarrow> pool_other j (xs_pool s) (xs_pool s')"
    and "prefix (xs_origin s) (xs_origin s')" and "pool_step (xs_pool s) (xs_pool s')"
    and "\<And>j. j \<noteq> iid \<Longrightarrow> xs_work s' j = xs_work s j \<and> xs_current s' j = xs_current s j"
    and "made_ok unique s'" and "used_ok unique s'" and "work_ok unique s' iid"
  shows "exit_ok unique s'"
proof -
  have wf: "pool_wf (xs_pool s)" and made: "made_ok unique s" and w: "work_ok unique s j" for j
    using assms(1) by (simp_all add: exit_ok_def)
  have "work_ok unique s' j" for j
  proof (cases "j = iid")
    case False
    then show ?thesis
      by (intro work_ok_other [OF w wf assms(2)])
        (use assms(3,5) made_length [OF made] in simp_all)
  qed (use assms(8) in simp)
  with wf_step [OF assms(4) wf] assms(6,7) show ?thesis by (simp add: exit_ok_def)
qed

lemma exec_other: "pool_exec op p = Some q \<Longrightarrow> (\<And>env now b. op \<noteq> Op_Publish env now b) \<Longrightarrow> pool_other j p q"
  unfolding pool_other_def by blast

lemma suffix_Cons_mem: "suffix (x # xs) ys \<Longrightarrow> x \<in> set ys \<and> suffix xs ys"
  by (auto simp: suffix_def)

lemma exit_ok_begin:
  assumes "exit_ok unique s" and "slot_in (xs_pool s) iid" and "xs_work s iid = None"
  shows "exit_ok unique (s\<lparr>xs_work := (xs_work s)(iid \<mapsto> (env, snd (cycle unique env), None))\<rparr>)" (is "exit_ok _ ?s")
proof (rule exit_ok_still [OF assms(1)])
  have "work_ok unique s iid" using assms(1) by (simp add: exit_ok_def)
  with assms(2,3) have "xs_current s iid = None" "slot_ep (slot_of (xs_pool s) iid) = None"
    by (simp_all add: work_ok_def)
  then show "work_ok unique ?s iid"
    using assms(2) cycle_current [of unique env]
    by (subst work_ok_Some [of _ _ env "snd (cycle unique env)" None]) auto
qed simp_all

lemma exit_ok_current:
  assumes "exit_ok unique s" and w: "xs_work s iid = Some (env, Cy_Current (Some (circuit, token)) # acts, at)"
    and "token \<notin> set (tokens (xs_pool s))"
  shows "exit_ok unique
      (s\<lparr>xs_pool := add_endpoint (new_endpoint iid (checked_ip env) circuit token dead) (xs_pool s),
         xs_current := (xs_current s)(iid \<mapsto> length (p_eps (xs_pool s))),
         xs_work := (xs_work s)(iid \<mapsto> (env, acts, Some (length (p_eps (xs_pool s))))),
         xs_origin := xs_origin s @ [env]\<rparr>)" (is "exit_ok _ ?s")
proof -
  let ?p = "xs_pool s"
  let ?n = "length (p_eps ?p)"
  let ?e = "new_endpoint iid (checked_ip env) circuit token dead"
  have wf: "pool_wf ?p" and made: "made_ok unique s" and used: "used_ok unique s" and "work_ok unique s iid"
    using assms(1) by (simp_all add: exit_ok_def)
  note ok = this(4) [unfolded work_ok_Some [OF w]]
  from ok have iid: "slot_in ?p iid" and suf: "suffix (Cy_Current (Some (circuit, token)) # acts) (snd (cycle unique env))"
    and rest: "current_ok True False acts" and none: "slot_ep (slot_of ?p iid) = None"
    by auto
  have ex: "pool_exec (Op_New iid (checked_ip env) circuit token dead) ?p = Some (add_endpoint ?e ?p)"
    using iid by simp
  have slots: "p_slots (add_endpoint ?e ?p) = p_slots ?p" "p_leases (add_endpoint ?e ?p) = p_leases ?p"
    by (simp_all add: add_endpoint_def)
  have len: "length (xs_origin s) = ?n" by (rule made_length [OF made])
  show ?thesis
  proof (rule exit_ok_moved [OF assms(1), where iid = iid])
    show "pool_other j ?p (xs_pool ?s)" for j using exec_other [OF ex] by simp
    show "pool_step ?p (xs_pool ?s)" using pool_exec_step [OF ex] by simp
    show "made_ok unique ?s"
      using made assms(3) suffix_Cons_mem [OF suf]
      by (simp add: made_ok_def ep_tags_def tokens_def add_endpoint_def new_endpoint_def made_by_def list_all2_appendI)
    have "a < ?n" if "Some a \<in> set (slot_eps ?p) \<or> a \<in> set (lease_eps ?p)" for a
      using that wf_slot_eps(1) [OF wf] wf_lease_ep [OF wf] by (auto simp: in_set_conv_nth lease_eps_def)
    with used len show "used_ok unique ?s"
      by (auto simp: used_ok_def slot_eps_def lease_eps_def slots nth_append)
    show "work_ok unique ?s iid"
      using iid rest none len suffix_Cons_mem [OF suf]
      by (subst work_ok_Some [of _ _ env acts "Some ?n"])
        (auto simp: slots slot_in_def slot_of_def ep_of_def add_endpoint_def new_endpoint_def nth_append)
  qed simp_all
qed

lemma exit_ok_publish:
  assumes "exit_ok unique s" and w: "xs_work s iid = Some (env, Cy_Publish ip r # acts, Some a)"
    and pub: "publish sql now a (xs_pool s) = Some (r, p)"
  shows "exit_ok unique (s\<lparr>xs_pool := p, xs_work := (xs_work s)(iid \<mapsto> (env, acts, Some a))\<rparr>)" (is "exit_ok _ ?s")
proof -
  let ?p = "xs_pool s"
  have wf: "pool_wf ?p" and made: "made_ok unique s" and used: "used_ok unique s" and "work_ok unique s iid"
    using assms(1) by (simp_all add: exit_ok_def)
  note ok = this(4) [unfolded work_ok_Some [OF w]]
  from ok have iid: "slot_in ?p iid" and suf: "suffix (Cy_Publish ip r # acts) (snd (cycle unique env))"
    and cur: "xs_current s iid = Some a" and rest: "current_ok True (r = (True, None)) acts"
    and none: "slot_ep (slot_of ?p iid) = None" and a: "a < length (p_eps ?p)" "ep_id (ep_of ?p a) = iid" "xs_origin s ! a = env"
    by auto
  have ex: "pool_exec (Op_Publish sql now a) ?p = Some p" using a(1) pub by simp
  have step: "pool_step ?p p" by (rule pool_exec_step [OF ex])
  have eps: "p_eps p = p_eps ?p" "p_leases p = p_leases ?p" by (simp_all add: publish_frame [OF pub])
  have iid': "slot_in p iid" using iid size_step [OF step] by (simp add: slot_in_def)
  have slots: "slot_eps p = (if r = (True, None) then (slot_eps ?p)[iid - 1 := Some a] else slot_eps ?p)"
    using publish_slots [OF pub] a(2) by simp
  have lt: "iid - 1 < length (slot_eps ?p)" using iid by (auto simp: slot_in_def slot_eps_def)
  then have mine: "slot_ep (slot_of p iid) = (if r = (True, None) then Some a else None)"
    using none slot_ep_eps [OF iid] slot_ep_eps [OF iid'] slots by simp
  show ?thesis
  proof (rule exit_ok_moved [OF assms(1), where iid = iid])
    show "pool_other j ?p (xs_pool ?s)" if "j \<noteq> iid" for j
      using ex a(2) that unfolding pool_other_def by (intro exI [of _ "Op_Publish sql now a"]) simp
    show "pool_step ?p (xs_pool ?s)" using step by simp
    show "made_ok unique ?s" by (rule made_kept [OF made]) (simp_all add: ep_tags_same [OF eps(1)])
    show "used_ok unique ?s"
      unfolding used_ok_def
    proof (intro allI impI)
      fix b
      assume "Some b \<in> set (slot_eps (xs_pool ?s)) \<or> b \<in> set (lease_eps (xs_pool ?s))"
      then have "b = a \<or> Some b \<in> set (slot_eps ?p) \<or> b \<in> set (lease_eps ?p)"
        using set_update_subset_insert [of "slot_eps ?p" "iid - 1" "Some a"]
        by (auto simp: slots lease_eps_def eps split: if_splits)
      then show "publishes unique (xs_origin ?s ! b)"
      proof
        assume "b = a"
        have "publishes unique env" using suffix_Cons_mem [OF suf] unfolding publishes_def by blast
        with \<open>b = a\<close> show ?thesis by (simp add: a(3))
      next
        assume "Some b \<in> set (slot_eps ?p) \<or> b \<in> set (lease_eps ?p)"
        with used show ?thesis unfolding used_ok_def by auto
      qed
    qed
    show "work_ok unique ?s iid"
      using iid' rest mine cur a suffix_Cons_mem [OF suf]
      by (subst work_ok_Some [of _ _ env acts "Some a"]) (auto simp: eps ep_of_def)
  qed simp_all
qed

lemma exit_ok_withdraw:
  assumes "exit_ok unique s" and w: "xs_work s iid = Some (env, Cy_Withdraw # acts, Some a)"
    and wd: "withdraw a (xs_pool s) = Some p"
  shows "exit_ok unique (s\<lparr>xs_pool := p, xs_work := (xs_work s)(iid \<mapsto> (env, acts, Some a))\<rparr>)" (is "exit_ok _ ?s")
proof -
  let ?p = "xs_pool s"
  have wf: "pool_wf ?p" and made: "made_ok unique s" and used: "used_ok unique s" and "work_ok unique s iid"
    using assms(1) by (simp_all add: exit_ok_def)
  note ok = this(4) [unfolded work_ok_Some [OF w]]
  from ok have iid: "slot_in ?p iid" and suf: "suffix (Cy_Withdraw # acts) (snd (cycle unique env))"
    and cur: "xs_current s iid \<noteq> None \<longrightarrow> xs_current s iid = Some a" and rest: "current_ok (xs_current s iid \<noteq> None) False acts"
    and offered: "slot_ep (slot_of ?p iid) \<in> {None, Some a}"
    and a: "a < length (p_eps ?p)" "ep_id (ep_of ?p a) = iid" "xs_origin s ! a = env"
    by auto
  have ex: "pool_exec (Op_Withdraw a) ?p = Some p" using a(1) wd by simp
  have step: "pool_step ?p p" by (rule pool_exec_step [OF ex])
  have iid': "slot_in p iid" using iid size_step [OF step] by (simp add: slot_in_def)
  have "slot_eps p = slot_eps ?p \<or> slot_eps p = (slot_eps ?p)[ep_id (ep_of ?p a) - 1 := None]"
    using withdraw_proj(1) [OF wd] by simp
  then have fewer: "fewer_eps p ?p" by (auto intro: fewer_update)
  have lt: "iid - 1 < length (slot_eps ?p)" using iid by (auto simp: slot_in_def slot_eps_def)
  have "slot_eps p ! (iid - 1) = None"
    using withdraw_proj(1) [OF wd] offered slot_ep_eps [OF iid] lt a(2) by auto
  then have mine: "slot_ep (slot_of p iid) = None" using slot_ep_eps [OF iid'] by simp
  have leases: "p_leases p = p_leases ?p"
    using wd by (auto simp: withdraw_def Let_def frame_simps split: if_splits)
  have tags: "ep_tags p = ep_tags ?p"
    using wd by (auto simp: withdraw_def Let_def ep_tags_cancel ep_tags_frames split: if_splits)
  have k: "eps_kept ?p p" by (rule eps_kept_step [OF step])
  show ?thesis
  proof (rule exit_ok_moved [OF assms(1), where iid = iid])
    show "pool_other j ?p (xs_pool ?s)" for j using exec_other [OF ex] by simp
    show "pool_step ?p (xs_pool ?s)" using step by simp
    show "made_ok unique ?s" by (rule made_kept [OF made]) (simp_all add: tags)
    show "used_ok unique ?s"
      by (rule used_kept [OF used]) (use fewer_set [OF fewer] in \<open>auto simp: lease_eps_def leases\<close>)
    show "work_ok unique ?s iid"
      using iid' rest mine cur a k suffix_Cons_mem [OF suf]
      by (subst work_ok_Some [of _ _ env acts "Some a"]) (auto simp: eps_kept_def)
  qed simp_all
qed

lemma exit_ok_others:
  assumes "exit_ok unique s" and "others_op op" and ex: "pool_exec op (xs_pool s) = Some p"
  shows "exit_ok unique (s\<lparr>xs_pool := p\<rparr>)"
proof -
  let ?p = "xs_pool s" and ?s = "s\<lparr>xs_pool := p\<rparr>"
  have wf: "pool_wf ?p" and made: "made_ok unique s" and used: "used_ok unique s" and w: "work_ok unique s j" for j
    using assms(1) by (simp_all add: exit_ok_def)
  have other: "pool_other j ?p p" for j by (rule exec_other [OF ex]) (use assms(2) in auto)
  have "work_ok unique ?s j" for j
    by (rule work_ok_other [OF w wf]) (use other made_length [OF made] in simp_all)
  moreover have "made_ok unique ?s" by (rule made_kept [OF made]) (simp_all add: ep_tags_exec [OF assms(2) ex])
  moreover have "used_ok unique ?s"
    by (rule used_kept [OF used]) (use fewer_set [OF others_fewer [OF assms(2) ex]] others_leases [OF assms(2) ex] in auto)
  ultimately show ?thesis using wf_step [OF pool_exec_step [OF ex] wf] by (simp add: exit_ok_def)
qed

text \<open>Steps of a worker that change neither what is current nor what is offered.\<close>

lemma exit_ok_quiet:
  assumes "exit_ok unique s" and w: "xs_work s iid = Some (env, act # acts, at)" and "quiet_act act"
  shows "exit_ok unique (s\<lparr>xs_work := (xs_work s)(iid \<mapsto> (env, acts, at))\<rparr>)" (is "exit_ok _ ?s")
proof (rule exit_ok_still [OF assms(1), where iid = iid])
  have "work_ok unique s iid" using assms(1) by (simp add: exit_ok_def)
  note ok = this [unfolded work_ok_Some [OF w]]
  have "current_ok c h (act # acts) = current_ok c h acts" for c h
    using assms(3) by (cases act) simp_all
  note new_acts = this
  from ok obtain held where "current_ok (xs_current s iid \<noteq> None) held (act # acts)"
    and "slot_ep (slot_of (xs_pool s) iid) \<noteq> None \<longrightarrow> held" by blast
  then have "\<exists>held. current_ok (xs_current s iid \<noteq> None) held acts \<and> (slot_ep (slot_of (xs_pool s) iid) \<noteq> None \<longrightarrow> held)"
    unfolding new_acts by blast
  moreover from ok have "suffix acts (snd (cycle unique env))" using suffix_Cons_mem [of act acts] by blast
  moreover have "xs_work ?s iid = Some (env, acts, at)" by simp
  note new = work_ok_Some [OF this, of unique]
  moreover have same: "xs_pool ?s = xs_pool s" "xs_current ?s = xs_current s" "xs_origin ?s = xs_origin s"
    by simp_all
  ultimately show "work_ok unique ?s iid" unfolding new same using ok by blast
qed simp_all

lemma exit_ok_clear:
  assumes "exit_ok unique s" and w: "xs_work s iid = Some (env, Cy_Current None # acts, at)"
  shows "exit_ok unique (s\<lparr>xs_current := (xs_current s)(iid := None), xs_work := (xs_work s)(iid \<mapsto> (env, acts, at))\<rparr>)"
    (is "exit_ok _ ?s")
proof (rule exit_ok_still [OF assms(1), where iid = iid])
  have "work_ok unique s iid" using assms(1) by (simp add: exit_ok_def)
  note ok = this [unfolded work_ok_Some [OF w]]
  then have "slot_ep (slot_of (xs_pool s) iid) = None" and "current_ok False False acts" by auto
  moreover from ok have "suffix acts (snd (cycle unique env))" using suffix_Cons_mem [of _ acts] by blast
  ultimately show "work_ok unique ?s iid"
    using ok by (subst work_ok_Some [of _ _ env acts at]) auto
qed simp_all

lemma exit_ok_end:
  assumes "exit_ok unique s" and w: "xs_work s iid = Some (env, [], at)"
  shows "exit_ok unique (s\<lparr>xs_work := (xs_work s)(iid := None)\<rparr>)" (is "exit_ok _ ?s")
proof (rule exit_ok_still [OF assms(1), where iid = iid])
  have "work_ok unique s iid" using assms(1) by (simp add: exit_ok_def)
  note ok = this [unfolded work_ok_Some [OF w]]
  then have "xs_current s iid = None" "slot_ep (slot_of (xs_pool s) iid) = None" by auto
  then show "work_ok unique ?s iid" by (simp add: work_ok_def)
qed simp_all

lemma exit_ok_cycle:
  assumes "cycle_step unique iid s s'" and "exit_ok unique s"
  shows "exit_ok unique s'"
  using assms
proof (induction rule: cycle_step.induct)
  case (ex_begin s env)
  then show ?case using exit_ok_begin by blast
next
  case (ex_current s env circuit token acts at dead)
  then show ?case unfolding set_endpoint_def by (intro exit_ok_current)
next
  case (ex_publish s env ip r acts a sql now p)
  then show ?case using exit_ok_publish by blast
next
  case (ex_withdraw s env acts a p)
  then show ?case using exit_ok_withdraw by blast
next
  case (ex_clear s env acts at)
  then show ?case unfolding set_endpoint_def by (intro exit_ok_clear)
next
  case (ex_cancel s env acts at)
  let ?s1 = "s\<lparr>xs_work := (xs_work s)(iid \<mapsto> (env, acts, at))\<rparr>"
  have s1: "exit_ok unique ?s1" by (rule exit_ok_quiet [OF ex_cancel(2,1)]) simp
  show ?case
  proof (cases at)
    case None
    with s1 show ?thesis by simp
  next
    case (Some a)
    have "work_ok unique s iid" using ex_cancel(2) by (simp add: exit_ok_def)
    then have "a < length (p_eps (xs_pool s))" unfolding work_ok_Some [OF ex_cancel(1)] using Some by blast
    then have "pool_exec (Op_Cancel a) (xs_pool ?s1) = Some (cancel_ep a (xs_pool s))" by simp
    then have all: "exit_ok unique (?s1\<lparr>xs_pool := cancel_ep a (xs_pool s)\<rparr>)"
      by (intro exit_ok_others [OF s1, of "Op_Cancel a"]) simp_all
    have eq: "s\<lparr>xs_pool := (case at of None \<Rightarrow> xs_pool s | Some a \<Rightarrow> cancel_ep a (xs_pool s)),
        xs_work := (xs_work s)(iid \<mapsto> (env, acts, at))\<rparr> = ?s1\<lparr>xs_pool := cancel_ep a (xs_pool s)\<rparr>"
      using Some by (cases s) simp
    show ?thesis unfolding eq by (rule all)
  qed
next
  case (ex_quiet s env act acts at)
  then show ?case using exit_ok_quiet by blast
next
  case (ex_end s env at)
  then show ?case using exit_ok_end by blast
qed

lemma exit_ok_step:
  assumes "exit_step unique s s'" and "exit_ok unique s"
  shows "exit_ok unique s'"
  using assms
proof (induction rule: exit_step.induct)
  case (ex_worker iid s s')
  then show ?case by (rule exit_ok_cycle)
next
  case (ex_other op s p)
  then show ?case using exit_ok_others by blast
qed

lemma exit_ok_reachable:
  assumes "exit_reachable cfg t s"
  shows "exit_ok (UniqueIP cfg) s"
proof -
  obtain now where t: "table_ok t" and r: "(exit_step (UniqueIP cfg))\<^sup>*\<^sup>* (exit_start cfg t now) s"
    using assms by (auto simp: exit_reachable_def)
  from r show ?thesis
    by (induction rule: rtranclp_induct) (auto intro: exit_ok_start [OF t] exit_ok_step)
qed

end
