(* ===== verification/ExitPath.thy ===== *)
theory ExitPath
  imports ExitSystem
begin

text \<open>
  The composition behind the program's promise. Whatever the interleaving of workers, sessions and requests, the address
  of a lease is the one the IP check read through the circuit its endpoint names, and the streams that carry the
  endpoint's tag reach that circuit or none.
\<close>

section \<open>The exit a request gets\<close>

text \<open>What the session of an instance sees when an event arrives.\<close>

definition session_view :: "exit_system \<Rightarrow> nat \<Rightarrow> gerr option \<Rightarrow> session_env" where
  "session_view s iid attach =
     \<lparr>se_current = map_option (\<lambda>a. (a, ep_of (xs_pool s) a)) (xs_current s iid), se_attach = attach\<rparr>"

text \<open>The address was read through the circuit, which Tor had reported as built.\<close>

definition verified_exit :: "cycle_env \<Rightarrow> string \<Rightarrow> string \<Rightarrow> string \<Rightarrow> bool" where
  "verified_exit env circuit token ip \<longleftrightarrow>
     (\<exists>lines status bytes. ce_extend env = Inr lines \<and> circuit = extended_circuit lines \<and> valid_circuit circuit \<and>
        Inr status \<in> set (ce_status env # ce_polls env) \<and> circuit_built circuit status \<and>
        ce_rand env = Inr bytes \<and> token = hex_encode bytes \<and> check_ip (ce_check env) = Inr ip)"

lemma verified_lease:
  assumes "exit_ok unique s" and "ls \<in> set (p_leases (xs_pool s))" and "e = ep_of (xs_pool s) (lease_ep ls)"
  shows "verified_exit (xs_origin s ! lease_ep ls) (ep_circuit e) (ep_token e) (lease_ip ls)"
proof -
  let ?p = "xs_pool s" and ?a = "lease_ep ls"
  let ?env = "xs_origin s ! ?a"
  have wf: "pool_wf ?p" and made: "made_ok unique s" and used: "used_ok unique s"
    using assms(1) by (simp_all add: exit_ok_def)
  obtain l where l: "l < length (p_leases ?p)" "ls = p_leases ?p ! l" using assms(2) by (auto simp: in_set_conv_nth)
  have a: "?a < length (p_eps ?p)" using wf_lease_ep [OF wf l(1)] l(2) by simp
  have ip: "lease_ip ls = ep_ip e"
    using wf l assms(3) by (auto simp: pool_wf_def leases_ok_def ep_of_def)
  have "made_by unique ?env (ep_tags ?p ! ?a)"
    using made a made_length [OF made] by (simp add: made_ok_def list_all2_conv_all_nth)
  then have cur: "Cy_Current (Some (ep_circuit e, ep_token e)) \<in> set (snd (cycle unique ?env))"
    and e: "ep_ip e = checked_ip ?env"
    using a assms(3) by (simp_all add: made_by_def ep_tags_def ep_of_def)
  have "?a \<in> set (lease_eps ?p)" using assms(2) by (simp add: lease_eps_def)
  then obtain ip x where "Cy_Publish ip x \<in> set (snd (cycle unique ?env))"
    using used unfolding used_ok_def publishes_def by blast
  then have "check_ip (ce_check ?env) = Inr (lease_ip ls)"
    using cycle_tags(2) [OF prod.collapse [symmetric]] ip e by (fastforce simp: checked_ip_def)
  with cycle_tags(1) [OF prod.collapse [symmetric] cur] show ?thesis
    unfolding verified_exit_def by blast
qed

text \<open>Only the endpoint that drew a tag has it.\<close>

lemma token_owner:
  assumes "exit_ok unique s" and "a < length (p_eps (xs_pool s))" and "b < length (p_eps (xs_pool s))"
    and "ep_token (ep_of (xs_pool s) a) = ep_token (ep_of (xs_pool s) b)"
  shows "a = b"
proof -
  have "distinct (tokens (xs_pool s))" using assms(1) by (simp add: exit_ok_def made_ok_def)
  moreover have "tokens (xs_pool s) ! a = tokens (xs_pool s) ! b" using assms(2-4) by (simp add: tokens_def ep_of_def)
  ultimately show ?thesis using assms(2,3) by (metis length_map nth_eq_iff_index_eq tokens_def)
qed

lemma current_in:
  assumes "exit_ok unique s" and "xs_current s iid = Some a"
  shows "a < length (p_eps (xs_pool s)) \<and> ep_id (ep_of (xs_pool s) a) = iid"
proof (cases "xs_work s iid")
  case None
  have "work_ok unique s iid" using assms(1) by (simp add: exit_ok_def)
  with None assms(2) show ?thesis by (simp add: work_ok_def)
next
  case (Some w)
  obtain env acts at where w: "w = (env, acts, at)" by (cases w)
  have "work_ok unique s iid" using assms(1) by (simp add: exit_ok_def)
  note ok = this [unfolded work_ok_Some [OF Some [unfolded w]]]
  then have "at = Some a" using assms(2) by simp
  with ok show ?thesis by blast
qed

definition new_stream :: "string list \<Rightarrow> string \<Rightarrow> string \<Rightarrow> bool" where
  "new_stream internal event sid \<longleftrightarrow>
     (let f = go_fields event in
      3 \<le> length f \<and> f ! 0 = ''STREAM'' \<and> f ! 1 = sid \<and> (f ! 2 = ''NEW'' \<or> f ! 2 = ''NEWRESOLVE'') \<and>
      sid \<notin> set internal \<and> \<not> is_internal_stream f \<and> snd (parse_uint sid) = None)"

lemma new_stream_answer:
  assumes "new_stream internal event sid" and "session_event env internal event = (acts, internal', go_on)"
  shows "(\<exists>circuit. Attach_Stream sid circuit \<in> set acts) \<or> acts = [Close_Stream sid]"
proof -
  let ?f = "go_fields event"
  have "circuit_gone ?f (se_current env) = []"
    using assms(1) by (auto simp: new_stream_def Let_def circuit_gone_def split: option.splits)
  then have "acts = stream_event env event ?f"
    using assms by (auto simp: new_stream_def session_event_def Let_def)
  with assms(1) show ?thesis
    by (auto simp: new_stream_def Let_def stream_event_def split: option.splits)
qed

text \<open>
  Claim C1. The program's promise, over all interleavings of the workers' cycles, the sessions, the requests
  and the timers, as long as the random tags differ: the address a request was assigned is the one the IP check read
  through a circuit that Tor had reported as built, and a stream that carries the tag of that assignment's endpoint is,
  on whichever session it appears and at any later time, attached to exactly this circuit while its endpoint is current
  and alive on the very instance of the assignment, or closed. It never leaves through another circuit.
\<close>

theorem exit_verified:
  assumes "exit_reachable cfg t s" and "ls \<in> set (p_leases (xs_pool s))" and "e = ep_of (xs_pool s) (lease_ep ls)"
    and "find_token event = Some (ep_token e)"
    and "session_event (session_view s iid attach) internal event = (acts, internal', go_on)"
  shows "verified_exit (xs_origin s ! lease_ep ls) (ep_circuit e) (ep_token e) (lease_ip ls) \<and>
    (\<forall>sid circuit. Attach_Stream sid circuit \<in> set acts \<longrightarrow>
       circuit = ep_circuit e \<and> iid = lease_instance ls \<and> xs_current s iid = Some (lease_ep ls) \<and> \<not> ep_cancelled e) \<and>
    (\<forall>sid. new_stream internal event sid \<longrightarrow>
       Attach_Stream sid (ep_circuit e) \<in> set acts \<or> acts = [Close_Stream sid])"
proof -
  let ?p = "xs_pool s"
  note ok = exit_ok_reachable [OF assms(1)]
  have wf: "pool_wf ?p" using ok by (simp add: exit_ok_def)
  obtain l where l: "l < length (p_leases ?p)" "ls = p_leases ?p ! l" using assms(2) by (auto simp: in_set_conv_nth)
  have a: "lease_ep ls < length (p_eps ?p)" using wf_lease_ep [OF wf l(1)] l(2) by simp
  have inst: "lease_instance ls = ep_id e" using wf l assms(3) by (auto simp: pool_wf_def leases_ok_def ep_of_def)
  have att: "circuit = ep_circuit e \<and> iid = lease_instance ls \<and> xs_current s iid = Some (lease_ep ls) \<and> \<not> ep_cancelled e"
    if at: "Attach_Stream sid circuit \<in> set acts" for sid circuit
  proof -
    from event_attach [OF assms(5) at] obtain b where b: "xs_current s iid = Some b"
      "\<not> ep_cancelled (ep_of ?p b)" "circuit = ep_circuit (ep_of ?p b)" "find_token event = Some (ep_token (ep_of ?p b))"
      by (auto simp: verified_def session_view_def Let_def)
    have "b = lease_ep ls"
      using token_owner [OF ok _ a] current_in [OF ok b(1)] b(4) assms(3,4) by simp
    with b current_in [OF ok b(1)] inst assms(3) show ?thesis by simp
  qed
  with verified_lease [OF ok assms(2,3)] new_stream_answer [OF _ assms(5)] show ?thesis by blast
qed

text \<open>One instance publishes the endpoint of its cycle, a request takes it, and its stream appears.\<close>

definition exit_ops :: "pool_op list" where
  "exit_ops = [Op_New 1 ''8.8.8.8'' ''7'' ''ab'' False, Op_Publish sql_ok (At 3) 0, Op_Acquire (acq_ok (At 5))]"

definition exit_at :: "nat \<Rightarrow> nat \<Rightarrow> exit_system" where
  "exit_at n k =
     \<lparr>xs_pool = demo_pool True (take k exit_ops), xs_current = (if k = 0 then Map.empty else [1 \<mapsto> 0]),
      xs_work = [1 \<mapsto> (demo_cycle, drop n demo_acts, if k = 0 then None else Some 0)],
      xs_origin = (if k = 0 then [] else [demo_cycle])\<rparr>"

lemma exit_demo_exec:
  assumes "k < 3"
  shows "pool_exec (exit_ops ! k) (demo_pool True (take k exit_ops)) = Some (demo_pool True (take (Suc k) exit_ops))"
proof -
  have run: "pool_run exit_ops (new_pool (demo_cfg True) [] (At 0)) \<noteq> None" by code_simp
  have "length exit_ops = 3" by (simp add: exit_ops_def)
  then have "take (Suc k) exit_ops = take k exit_ops @ [exit_ops ! k]"
    using assms by (simp add: take_Suc_conv_app_nth)
  moreover have "pool_run (take (Suc k) exit_ops) (new_pool (demo_cfg True) [] (At 0)) \<noteq> None"
    using run pool_run_append [of "take (Suc k) exit_ops" "drop (Suc k) exit_ops"] by (auto split: bind_splits)
  ultimately show ?thesis using demo_exec by simp
qed

lemma exit_demo_run: "(exit_step True)\<^sup>*\<^sup>* (exit_start (demo_cfg True) [] (At 0)) (exit_at 5 3)"
proof -
  have acts: "snd (cycle True demo_cycle) = demo_acts" by (simp add: demo_cycle_acts)
  have nth1: "exit_ops ! Suc 0 = Op_Publish sql_ok (At 3) 0" by (simp add: exit_ops_def)
  have len13: "length demo_acts = 13" by (simp add: demo_acts_def)
  have p0: "demo_pool True [] = new_pool (demo_cfg True) [] (At 0)" by (simp add: demo_pool_def)
  note ops = exit_demo_exec
  have len0: "p_eps (demo_pool True []) = []" by (simp add: p0 new_pool_def)
  have len1: "length (p_eps (demo_pool True (take 1 exit_ops))) = 1"
    by code_simp
  have "exit_step True (exit_start (demo_cfg True) [] (At 0)) (exit_at 0 0)"
    using ex_worker [OF ex_begin [of "exit_start (demo_cfg True) [] (At 0)" 1 True demo_cycle]]
    by (simp add: exit_start_def exit_at_def acts p0 slot_in_def new_pool_def demo_cfg_def)
  moreover have "exit_step True (exit_at n 0) (exit_at (Suc n) 0)" if "n < 3" for n
  proof -
    have d: "drop n demo_acts = demo_acts ! n # drop (Suc n) demo_acts"
      using that Cons_nth_drop_Suc [of n demo_acts] by (simp add: len13)
    have "n = 0 \<or> n = 1 \<or> n = 2" using that by auto
    then have "quiet_act (demo_acts ! n) \<and> demo_acts ! n \<noteq> Cy_Cancel" by (auto simp: demo_acts_def)
    then show ?thesis
      using ex_worker [OF ex_quiet [of "exit_at n 0" 1 demo_cycle "demo_acts ! n" "drop (Suc n) demo_acts" None True]]
      by (simp add: exit_at_def d)
  qed
  then have "exit_step True (exit_at 0 0) (exit_at 1 0)" "exit_step True (exit_at 1 0) (exit_at 2 0)"
    "exit_step True (exit_at 2 0) (exit_at 3 0)" by (simp_all add: numeral_2_eq_2 numeral_3_eq_3)
  moreover have "exit_step True (exit_at 3 0) (exit_at 4 1)"
  proof -
    have i: "check_ip (ce_check demo_cycle) = Inr ''8.8.8.8''" by code_simp
    have "demo_pool True (take 1 exit_ops) = add_endpoint (new_endpoint 1 ''8.8.8.8'' ''7'' ''ab'' False) (demo_pool True [])"
      using ops [of 0] by (simp add: exit_ops_def split: if_splits)
    then show ?thesis
      using ex_worker [OF ex_current [of "exit_at 3 0" 1 demo_cycle "''7''" "''ab''" "drop 4 demo_acts" None True False]]
      by (simp add: exit_at_def demo_acts_def checked_ip_def i tokens_def len0)
  qed
  moreover have "exit_step True (exit_at 4 1) (exit_at 5 2)"
  proof -
    have "map_option snd (publish sql_ok (At 3) 0 (demo_pool True (take 1 exit_ops)))
        = Some (demo_pool True (take 2 exit_ops))"
      using ops [of 1] len1 nth1 by (auto simp: numeral_2_eq_2 split: if_splits)
    moreover have "map_option fst (publish sql_ok (At 3) 0 (demo_pool True (take 1 exit_ops))) = Some (True, None)"
      by code_simp
    ultimately have "publish sql_ok (At 3) 0 (demo_pool True (take 1 exit_ops))
        = Some ((True, None), demo_pool True (take 2 exit_ops))" by (auto simp: map_option_eq_Some)
    then show ?thesis
      using ex_worker [OF ex_publish [of "exit_at 4 1" 1 demo_cycle "''8.8.8.8''" "(True, None)" "drop 5 demo_acts" 0 sql_ok "At 3" _ True]]
      by (simp add: exit_at_def demo_acts_def)
  qed
  moreover have "exit_step True (exit_at 5 2) (exit_at 5 3)"
    using ex_other [of "Op_Acquire (acq_ok (At 5))" "exit_at 5 2" _ True] ops [of 2]
    by (simp add: exit_at_def exit_ops_def numeral_2_eq_2 numeral_3_eq_3)
  ultimately show ?thesis by (meson converse_rtranclp_into_rtranclp rtranclp.rtrancl_refl)
qed

definition exit_event :: string where
  "exit_event = ''STREAM 21 NEW 0 example.com:80 SOCKS_USERNAME='' @ [dquote] @ ''ab'' @ [dquote]"

theorem exit_verified_witness:
  "verified_exit demo_cycle ''7'' ''ab'' ''8.8.8.8'' \<and>
   Attach_Stream ''21'' ''7'' \<in> set (fst (session_event (session_view (exit_at 5 3) 1 None) [] exit_event))"
proof -
  have alive: "fst (session_event (session_view (exit_at 5 3) 1 None) [] exit_event) \<noteq> [Close_Stream ''21'']"
    by code_simp
  let ?ev = "session_event (session_view (exit_at 5 3) 1 None) [] exit_event"
  obtain acts internal' go_on where ev: "?ev = (acts, internal', go_on)" by (metis surj_pair)
  have reach: "exit_reachable (demo_cfg True) [] (exit_at 5 3)"
    using exit_demo_run by (auto simp: exit_reachable_def table_ok_def demo_cfg_def)
  have leases: "map (\<lambda>ls. (lease_ip ls, lease_ep ls)) (p_leases (demo_pool True exit_ops)) = [(''8.8.8.8'', 0)]"
    and eps: "map (\<lambda>e. (ep_circuit e, ep_token e)) (p_eps (demo_pool True exit_ops)) = [(''7'', ''ab'')]"
    by code_simp+
  from leases obtain ls where ls: "p_leases (demo_pool True exit_ops) = [ls]" "lease_ip ls = ''8.8.8.8''" "lease_ep ls = 0"
    by (auto simp: map_eq_Cons_conv)
  have pool: "xs_pool (exit_at 5 3) = demo_pool True exit_ops" by (simp add: exit_at_def exit_ops_def)
  have e: "ep_circuit (ep_of (xs_pool (exit_at 5 3)) 0) = ''7''" "ep_token (ep_of (xs_pool (exit_at 5 3)) 0) = ''ab''"
    using eps by (auto simp: pool ep_of_def map_eq_Cons_conv)
  have tok: "find_token exit_event = Some ''ab''" and new: "new_stream [] exit_event ''21''" by code_simp+
  have origin: "xs_origin (exit_at 5 3) ! 0 = demo_cycle" by (simp add: exit_at_def)
  have both: "verified_exit demo_cycle ''7'' ''ab'' ''8.8.8.8''"
    "\<And>sid. new_stream [] exit_event sid \<Longrightarrow> Attach_Stream sid ''7'' \<in> set acts \<or> acts = [Close_Stream sid]"
    using exit_verified [OF reach, of ls "ep_of (xs_pool (exit_at 5 3)) 0" exit_event 1 None "[]" acts internal' go_on]
      ls e tok ev origin by (simp_all add: pool)
  from both(2) [OF new] alive ev have "Attach_Stream ''21'' ''7'' \<in> set acts" by simp
  with both(1) ev show ?thesis by simp
qed

end
