(* ===== verification/Delivery.thy ===== *)
theory Delivery
  imports ExitPath PoolProps
begin

text \<open>
  The other side of the promise: a worker whose surroundings cooperate delivers. From every state the program can reach,
  an idle worker's next cycle can run, by its own steps alone, to the point where its instance serves the address that
  was read.
\<close>

section \<open>A cycle up to its publication\<close>

lemma quiet_run:
  assumes "xs_work s iid = Some (env, xs @ acts, None)" and "list_all (\<lambda>x. quiet_act x \<and> x \<noteq> Cy_Cancel) xs"
  shows "(cycle_step unique iid)\<^sup>*\<^sup>* s (s\<lparr>xs_work := (xs_work s)(iid \<mapsto> (env, acts, None))\<rparr>)"
  using assms
proof (induction xs arbitrary: s)
  case Nil
  then have same: "s\<lparr>xs_work := (xs_work s)(iid \<mapsto> (env, acts, None))\<rparr> = s" by (cases s) (simp add: fun_upd_idem)
  show ?case unfolding same by simp
next
  case (Cons x xs)
  let ?s = "s\<lparr>xs_work := (xs_work s)(iid \<mapsto> (env, xs @ acts, None))\<rparr>"
  have first: "cycle_step unique iid s ?s"
    using Cons.prems by (intro ex_quiet [where act = x]) auto
  have rest: "(cycle_step unique iid)\<^sup>*\<^sup>* ?s (?s\<lparr>xs_work := (xs_work ?s)(iid \<mapsto> (env, acts, None))\<rparr>)"
    by (rule Cons.IH) (use Cons.prems in simp_all)
  have "?s\<lparr>xs_work := (xs_work ?s)(iid \<mapsto> (env, acts, None))\<rparr> = s\<lparr>xs_work := (xs_work s)(iid \<mapsto> (env, acts, None))\<rparr>"
    by simp
  with converse_rtranclp_into_rtranclp [where r = "cycle_step unique iid", OF first rest] show ?case by (simp only:)
qed

text \<open>What the surroundings answer when they cooperate: the circuit is built and the check returns \<open>ip\<close>.\<close>

definition cooperative :: "cycle_env \<Rightarrow> string \<Rightarrow> string \<Rightarrow> string \<Rightarrow> bool" where
  "cooperative env circuit token ip \<longleftrightarrow>
     (\<exists>lines bytes. ce_extend env = Inr lines \<and> circuit = extended_circuit lines \<and> valid_circuit circuit \<and>
        fst (await_built circuit (ce_expiry env) (ce_status env) (ce_polls env)) = None \<and>
        ce_rand env = Inr bytes \<and> token = hex_encode bytes \<and> ce_socks env = None \<and>
        check_ip (ce_check env) = Inr ip \<and> ce_publish env = (True, None))"

lemma cooperative_cycle:
  assumes "cooperative env circuit token ip"
  shows "\<exists>polls rest. list_all (\<lambda>x. quiet_act x \<and> x \<noteq> Cy_Cancel) polls \<and>
    snd (cycle unique env) = polls @ Cy_Current (Some (circuit, token)) # Cy_Publish ip (True, None) # rest"
proof -
  obtain lines bytes where l: "ce_extend env = Inr lines" "circuit = extended_circuit lines" "valid_circuit circuit"
    and b: "ce_rand env = Inr bytes" "token = hex_encode bytes" "ce_socks env = None"
    and i: "check_ip (ce_check env) = Inr ip" "ce_publish env = (True, None)"
    and w: "fst (await_built circuit (ce_expiry env) (ce_status env) (ce_polls env)) = None"
    using assms by (auto simp: cooperative_def)
  obtain polls where p: "await_built circuit (ce_expiry env) (ce_status env) (ce_polls env) = (None, polls)"
    using w by (metis prod.collapse)
  have q: "list_all (\<lambda>x. quiet_act x \<and> x \<noteq> Cy_Cancel) polls"
    using await_acts [of _ circuit "ce_expiry env" "ce_status env" "ce_polls env"] p by (fastforce simp: list_all_iff)
  obtain r2 acts2 where serve: "(if unique then cycle_unique env ip else cycle_reuse env ip) = (r2, acts2)"
    by (metis surj_pair)
  obtain rest where rest: "acts2 = Cy_Publish ip (True, None) # rest"
    using serve i(2) by (auto simp: cycle_unique_def cycle_reuse_def Let_def
        split: if_splits wake.splits prod.splits)
  have "snd (cycle_endpoint unique env circuit) =
      Cy_Current (Some (circuit, token)) # Cy_Publish ip (True, None) # rest @ [Cy_Current None, Cy_Cancel]"
    using b i(1) serve rest by (simp add: cycle_endpoint_def Let_def split: prod.splits)
  then have "snd (cycle unique env) = Cy_Command ''EXTENDCIRCUIT 0 purpose=general'' # polls @
      (Cy_Current (Some (circuit, token)) # Cy_Publish ip (True, None) # rest @ [Cy_Current None, Cy_Cancel]) @
      [Cy_Command (''CLOSECIRCUIT '' @ circuit)]"
    using l p by (auto simp: cycle_def Let_def split: prod.splits)
  with q show ?thesis
    by (intro exI [of _ "Cy_Command ''EXTENDCIRCUIT 0 purpose=general'' # polls"]
        exI [of _ "rest @ [Cy_Current None, Cy_Cancel, Cy_Command (''CLOSECIRCUIT '' @ circuit)]"]) simp
qed

text \<open>An endpoint that was offered just now serves.\<close>

lemma offered_serves:
  assumes "slot_in q iid" and "slot_ep (slot_of q iid) = Some a" and "view_state (slot_view (slot_of q iid)) = S_Ready"
    and "\<not> ep_cancelled (ep_of q a)"
  shows "pool_ready q"
proof -
  have "iid - 1 < length (p_slots q)" using assms(1) by (auto simp: slot_in_def)
  then have "slot_of q iid \<in> set (p_slots q)" by (simp add: slot_of_def)
  with assms(2-4) show ?thesis by (auto simp: pool_ready_def list_ex_iff servable_Some intro!: bexI [of _ "slot_of q iid"])
qed

section \<open>Delivery\<close>

text \<open>
  Claim C5. Nothing other goroutines did can keep a worker from delivering: in every state the program can
  reach, an idle worker whose next cycle meets a circuit that is built, a fresh random tag, an IP check that answers and
  a working database can, by steps of this worker alone (\<open>cycle_step\<close>: no other goroutine moves), come to the point where its instance is Ready with exactly the address
  that was read, the session attaches streams for this endpoint, and a waiting request would be served; unless, in unique
  mode, the address was used before or another instance holds it.
\<close>

theorem worker_delivers:
  assumes "exit_reachable cfg t s" and "slot_in (xs_pool s) iid" and "xs_work s iid = None"
    and "cooperative env circuit token ip" and "token \<notin> set (tokens (xs_pool s))"
    and "p_unique (xs_pool s) \<longrightarrow> row_status (p_store (xs_pool s)) ip \<noteq> Some True \<and> p_reserved (xs_pool s) ip = None"
  shows "\<exists>s' a rest. (cycle_step (UniqueIP cfg) iid)\<^sup>*\<^sup>* s s' \<and> xs_work s' iid = Some (env, rest, Some a) \<and>
    xs_current s' iid = Some a \<and>
    slot_ep (slot_of (xs_pool s') iid) = Some a \<and> view_state (slot_view (slot_of (xs_pool s') iid)) = S_Ready \<and>
    ep_ip (ep_of (xs_pool s') a) = ip \<and> ep_circuit (ep_of (xs_pool s') a) = circuit \<and> pool_ready (xs_pool s')"
proof -
  let ?u = "UniqueIP cfg" and ?p = "xs_pool s" and ?a = "length (p_eps (xs_pool s))"
  let ?e = "new_endpoint iid ip circuit token False"
  let ?p1 = "add_endpoint ?e ?p"
  have wf: "pool_wf ?p" using exit_ok_reachable [OF assms(1)] by (simp add: exit_ok_def)
  have w1: "pool_wf ?p1" by (rule wf_add_endpoint [OF wf assms(2)])
  obtain polls rest where quiet: "list_all (\<lambda>x. quiet_act x \<and> x \<noteq> Cy_Cancel) polls"
    and acts: "snd (cycle ?u env) = polls @ Cy_Current (Some (circuit, token)) # Cy_Publish ip (True, None) # rest"
    using cooperative_cycle [OF assms(4)] by blast
  have ip: "checked_ip env = ip" using assms(4) by (auto simp: cooperative_def checked_ip_def)
  have ep: "ep_of ?p1 ?a = ?e" and a: "?a < length (p_eps ?p1)" by (simp_all add: ep_of_def add_endpoint_def)
  have fields: "p_unique ?p1 = p_unique ?p" "p_store ?p1 = p_store ?p" "p_reserved ?p1 = p_reserved ?p"
    by (simp_all add: add_endpoint_def)
  have e: "ep_ip ?e = ip" "ep_id ?e = iid" "\<not> ep_cancelled ?e" by (simp_all add: new_endpoint_def)
  obtain q where q: "publish sql_ok (At 0) ?a ?p1 = Some ((True, None), q)"
    "slot_ep (slot_of q iid) = Some ?a" "view_state (slot_view (slot_of q iid)) = S_Ready"
    using publish_outcomes [OF w1 a refl refl, of "At 0"] assms(6) e unfolding ep fields e by auto
  have epq: "ep_of q ?a = ?e" using publish_frame [OF q(1)] ep by (simp add: ep_of_def)
  have sq: "slot_in q iid" using size_publish [OF q(1)] assms(2) by (simp add: slot_in_def add_endpoint_def)
  let ?s1 = "s\<lparr>xs_work := (xs_work s)(iid \<mapsto> (env, snd (cycle ?u env), None))\<rparr>"
  let ?s2 = "?s1\<lparr>xs_work := (xs_work ?s1)(iid \<mapsto> (env, Cy_Current (Some (circuit, token)) # Cy_Publish ip (True, None) # rest, None))\<rparr>"
  let ?s3 = "?s2\<lparr>xs_pool := add_endpoint (new_endpoint iid (checked_ip env) circuit token False) (xs_pool ?s2),
      xs_current := set_endpoint iid (Some (length (p_eps (xs_pool ?s2)))) (xs_current ?s2),
      xs_work := (xs_work ?s2)(iid \<mapsto> (env, Cy_Publish ip (True, None) # rest, Some (length (p_eps (xs_pool ?s2))))),
      xs_origin := xs_origin ?s2 @ [env]\<rparr>"
  let ?s4 = "?s3\<lparr>xs_pool := q, xs_work := (xs_work ?s3)(iid \<mapsto> (env, rest, Some ?a))\<rparr>"
  have "cycle_step ?u iid s ?s1" by (rule ex_begin [OF assms(2,3)])
  moreover have "(cycle_step ?u iid)\<^sup>*\<^sup>* ?s1 ?s2" by (rule quiet_run [OF _ quiet]) (simp add: acts)
  moreover have "cycle_step ?u iid ?s2 ?s3" by (rule ex_current) (use assms(5) in simp_all)
  moreover have "cycle_step ?u iid ?s3 ?s4" by (rule ex_publish) (use q(1) ip in simp_all)
  ultimately have "(cycle_step ?u iid)\<^sup>*\<^sup>* s ?s4" by (meson converse_rtranclp_into_rtranclp rtranclp.rtrancl_into_rtrancl)
  moreover have "pool_ready q" by (rule offered_serves [OF sq q(2,3)]) (simp add: epq new_endpoint_def)
  ultimately show ?thesis
    using q(2,3) epq by (intro exI [of _ ?s4] exI [of _ ?a] exI [of _ rest]) (simp add: new_endpoint_def)
qed

theorem worker_delivers_witness:
  "\<exists>s' a. (cycle_step True 1)\<^sup>*\<^sup>* (exit_start (demo_cfg True) [] (At 0)) s' \<and> xs_current s' 1 = Some a \<and>
     ep_ip (ep_of (xs_pool s') a) = ''8.8.8.8'' \<and> pool_ready (xs_pool s')"
proof -
  let ?s = "exit_start (demo_cfg True) [] (At 0)"
  have u: "UniqueIP (demo_cfg True) = True" by (simp add: demo_cfg_def)
  have "exit_reachable (demo_cfg True) [] ?s" by (auto simp: exit_reachable_def table_ok_def)
  moreover have "slot_in (xs_pool ?s) 1" "xs_work ?s 1 = None" "''ab'' \<notin> set (tokens (xs_pool ?s))"
    "row_status (p_store (xs_pool ?s)) ''8.8.8.8'' \<noteq> Some True \<and> p_reserved (xs_pool ?s) ''8.8.8.8'' = None"
    by (simp_all add: exit_start_def new_pool_def slot_in_def demo_cfg_def tokens_def row_status_def)
  moreover have "cooperative demo_cycle ''7'' ''ab'' ''8.8.8.8''"
  proof -
    have "extended_circuit [''EXTENDED 7'', ''OK''] = ''7''" "valid_circuit ''7''"
      "check_ip (demo_answer ''8.8.8.8'') = Inr ''8.8.8.8''" "hex_encode [char_of (171::nat)] = ''ab''"
      "fst (await_built ''7'' (ce_expiry demo_cycle) (ce_status demo_cycle) (ce_polls demo_cycle)) = None"
      by code_simp+
    then show ?thesis by (simp add: cooperative_def demo_cycle_def)
  qed
  ultimately show ?thesis using worker_delivers [of "demo_cfg True" "[]" ?s 1] unfolding u by blast
qed

end
